(* ===== verification/Prelude.thy ===== *)
theory Prelude
  imports "HOL-Library.State_Monad" "HOL-Library.Word" "HOL-Library.Sublist"
    "HOL-Library.List_Lexorder" "HOL-Library.Char_ord"
begin

text \<open>
  What every component shares: the state monad of the model with its calculus of
  postconditions (\<open>wp\<close>), the type of results (a sum, the error on the left, as the
  pairs \<open>(value, err)\<close> of the Go code), the type of machine integers, and generic lemmas
  on sums, lists and maps. The collection \<open>wp_simps\<close> holds one equation per
  program construct; the theories add one per primitive, so that \<open>simp add: wp_simps\<close>
  turns a statement about a translated function into one about its branches.
\<close>

section \<open>Integers\<close>

type_synonym u64 = "64 word"

section \<open>Postconditions of stateful code\<close>

named_theorems wp_simps \<open>equations that push a postcondition through a program\<close>

definition wp :: "('s, 'a) state \<Rightarrow> ('a \<Rightarrow> 's \<Rightarrow> bool) \<Rightarrow> 's \<Rightarrow> bool" where
  "wp m Q s = (case run_state m s of (r, s') \<Rightarrow> Q r s')"

lemma wp_return [wp_simps]: "wp (State_Monad.return x) Q = Q x"
  by (simp add: wp_def fun_eq_iff)

lemma wp_bind [wp_simps]: "wp (State_Monad.bind m f) Q = wp m (\<lambda>x. wp (f x) Q)"
  by (simp add: wp_def fun_eq_iff split: prod.splits)

lemma wp_get [wp_simps]: "wp State_Monad.get Q s = Q s s"
  by (simp add: wp_def)

lemma wp_set [wp_simps]: "wp (State_Monad.set t) Q s = Q () t"
  by (simp add: wp_def)

lemma wp_State [wp_simps]: "wp (State f) Q s = (case f s of (r, s') \<Rightarrow> Q r s')"
  by (simp add: wp_def)

lemma wp_if [wp_simps]: "wp (if b then m else n) Q s = (if b then wp m Q s else wp n Q s)"
  by simp

lemma wp_case_sum [wp_simps]:
  "wp (case r of Inl e \<Rightarrow> f e | Inr x \<Rightarrow> g x) Q s =
     (case r of Inl e \<Rightarrow> wp (f e) Q s | Inr x \<Rightarrow> wp (g x) Q s)"
  by (simp split: sum.splits)

lemma wp_case_option [wp_simps]:
  "wp (case r of None \<Rightarrow> f | Some x \<Rightarrow> g x) Q s =
     (case r of None \<Rightarrow> wp f Q s | Some x \<Rightarrow> wp (g x) Q s)"
  by (simp split: option.splits)

lemma wp_case_prod [wp_simps]:
  "wp (case p of (a, b) \<Rightarrow> f a b) Q s = (case p of (a, b) \<Rightarrow> wp (f a b) Q s)"
  by (simp split: prod.splits)

lemma wp_mono: "wp m Q s \<Longrightarrow> (\<And>r s'. Q r s' \<Longrightarrow> R r s') \<Longrightarrow> wp m R s"
  by (auto simp: wp_def split: prod.splits)

lemma wp_conj: "wp m (\<lambda>r s'. Q r s' \<and> R r s') s \<longleftrightarrow> wp m Q s \<and> wp m R s"
  by (auto simp: wp_def split: prod.splits)

lemma wp_run: "run_state m s = (r, s') \<Longrightarrow> wp m Q s \<Longrightarrow> Q r s'"
  by (simp add: wp_def)

lemma wpI: "(\<And>r s'. run_state m s = (r, s') \<Longrightarrow> Q r s') \<Longrightarrow> wp m Q s"
  by (simp add: wp_def split: prod.splits)

definition modify :: "('s \<Rightarrow> 's) \<Rightarrow> ('s, unit) state" where
  "modify f = State (\<lambda>s. ((), f s))"

definition gets :: "('s \<Rightarrow> 'a) \<Rightarrow> ('s, 'a) state" where
  "gets f = State (\<lambda>s. (f s, s))"

lemma wp_modify [wp_simps]: "wp (modify f) Q s = Q () (f s)"
  by (simp add: modify_def wp_simps)

lemma wp_gets [wp_simps]: "wp (gets f) Q s = Q (f s) s"
  by (simp add: gets_def wp_simps)

lemma run_modify [simp]: "run_state (modify f) s = ((), f s)"
  by (simp add: modify_def)

lemma run_gets [simp]: "run_state (gets f) s = (f s, s)"
  by (simp add: gets_def)

section \<open>Effects of programs\<close>

text \<open>
  \<open>state_io_rel R m\<close> of the library says that every run of \<open>m\<close> relates the state before
  to the state after by \<open>R\<close>. For a reflexive and transitive relation this is closed under
  the constructs of the monad, so that it is enough to know it of the primitives: what a
  program leaves alone, that time passes, which commands it may run. The locale is
  interpreted on each of these relations.
\<close>

locale effect =
  fixes R :: "'s \<Rightarrow> 's \<Rightarrow> bool"
  assumes R_refl: "R s s"
    and R_trans: "R s t \<Longrightarrow> R t u \<Longrightarrow> R s u"
begin

lemma return_rule: "state_io_rel R (State_Monad.return x)"
  by (simp add: state_io_rel_def R_refl)

lemma get_rule: "state_io_rel R State_Monad.get"
  by (simp add: state_io_rel_def R_refl)

lemma gets_rule: "state_io_rel R (gets f)"
  by (simp add: state_io_rel_def R_refl)

lemma modify_rule: "(\<And>s. R s (f s)) \<Longrightarrow> state_io_rel R (modify f)"
  by (simp add: state_io_rel_def)

lemma bind_rule:
  "state_io_rel R m \<Longrightarrow> (\<And>x. state_io_rel R (f x)) \<Longrightarrow> state_io_rel R (State_Monad.bind m f)"
  unfolding state_io_rel_def by (auto split: prod.splits) (metis R_trans snd_conv)

lemma if_rule:
  "(b \<Longrightarrow> state_io_rel R m) \<Longrightarrow> (\<not> b \<Longrightarrow> state_io_rel R n) \<Longrightarrow> state_io_rel R (if b then m else n)"
  by simp

lemma sum_rule:
  "(\<And>e. r = Inl e \<Longrightarrow> state_io_rel R (f e)) \<Longrightarrow> (\<And>x. r = Inr x \<Longrightarrow> state_io_rel R (g x)) \<Longrightarrow>
   state_io_rel R (case r of Inl e \<Rightarrow> f e | Inr x \<Rightarrow> g x)"
  by (simp split: sum.splits)

lemma option_rule:
  "(r = None \<Longrightarrow> state_io_rel R f) \<Longrightarrow> (\<And>x. r = Some x \<Longrightarrow> state_io_rel R (g x)) \<Longrightarrow>
   state_io_rel R (case r of None \<Rightarrow> f | Some x \<Rightarrow> g x)"
  by (simp split: option.splits)

lemma prod_rule:
  "(\<And>a b. p = (a, b) \<Longrightarrow> state_io_rel R (f a b)) \<Longrightarrow> state_io_rel R (case p of (a, b) \<Rightarrow> f a b)"
  by (simp split: prod.splits)

lemma let_rule: "(\<And>y. y = x \<Longrightarrow> state_io_rel R (f y)) \<Longrightarrow> state_io_rel R (let y = x in f y)"
  by simp

lemmas rules = return_rule get_rule gets_rule bind_rule if_rule sum_rule option_rule prod_rule let_rule

lemma wp_effect: "state_io_rel R m \<Longrightarrow> wp m (\<lambda>_ t. R s t) s"
  by (auto simp: wp_def state_io_rel_def split: prod.splits dest: spec [where x = s])

lemma run_effect: "state_io_rel R m \<Longrightarrow> run_state m s = (r, t) \<Longrightarrow> R s t"
  by (auto simp: state_io_rel_def dest: spec [where x = s])

end

section \<open>Loops\<close>

text \<open>
  A loop that may run forever, with fuel: the body yields the next value of the loop
  variables (\<open>Inl\<close>) or the result (\<open>Inr\<close>), or is itself out of fuel. More fuel never
  changes a result; a measure that decreases in every round gives enough fuel.
\<close>

fun iter :: "nat \<Rightarrow> ('a \<Rightarrow> ('s, ('a + 'b) option) state) \<Rightarrow> 'a \<Rightarrow> ('s, 'b option) state" where
  "iter 0 f x = State_Monad.return None"
| "iter (Suc n) f x = do {
     r \<leftarrow> f x;
     (case r of None \<Rightarrow> State_Monad.return None
      | Some q \<Rightarrow> (case q of Inl y \<Rightarrow> iter n f y | Inr b \<Rightarrow> State_Monad.return (Some b))) }"

lemma iter_wp:
  assumes "Inv x s"
    and "\<And>x s. Inv x s \<Longrightarrow>
      wp (f x) (\<lambda>r t. case r of None \<Rightarrow> True | Some (Inl y) \<Rightarrow> Inv y t | Some (Inr b) \<Rightarrow> Q b t) s"
  shows "wp (iter n f x) (\<lambda>r t. \<forall>b. r = Some b \<longrightarrow> Q b t) s"
  using assms(1)
proof (induction n arbitrary: x s)
  case (Suc n)
  show ?case
    unfolding iter.simps wp_bind
    by (rule wp_mono [OF assms(2) [OF Suc.prems]])
      (use Suc.IH in \<open>auto simp: wp_simps split: option.splits sum.splits\<close>)
qed (simp add: wp_simps)

lemma iter_terminates:
  assumes "Inv x s" and "mu x s < n"
    and "\<And>x s. Inv x s \<Longrightarrow>
      wp (f x) (\<lambda>r t. case r of None \<Rightarrow> False | Some (Inl y) \<Rightarrow> Inv y t \<and> mu y t < mu x s
                      | Some (Inr b) \<Rightarrow> Q b t) s"
  shows "wp (iter n f x) (\<lambda>r t. \<exists>b. r = Some b \<and> Q b t) s"
  using assms(1,2)
proof (induction n arbitrary: x s)
  case (Suc n)
  show ?case
    unfolding iter.simps wp_bind
    by (rule wp_mono [OF assms(3) [OF Suc.prems(1)]])
      (use Suc in \<open>auto simp: wp_simps split: option.splits sum.splits\<close>)
qed simp

context effect
begin

lemma iter_rule: "(\<And>x. state_io_rel R (f x)) \<Longrightarrow> state_io_rel R (iter n f x)"
proof (induction n arbitrary: x)
  case 0
  show ?case by (simp add: return_rule)
next
  case (Suc n)
  show ?case
    unfolding iter.simps
    by (intro bind_rule option_rule sum_rule return_rule Suc.IH Suc.prems)
qed

end

section \<open>Sums\<close>

definition isInl :: "'a + 'b \<Rightarrow> bool" where
  "isInl r = (case r of Inl _ \<Rightarrow> True | Inr _ \<Rightarrow> False)"

lemma isInl_simps [simp]: "isInl (Inl e)" "\<not> isInl (Inr x)"
  by (simp_all add: isInl_def)

lemma not_isInl: "\<not> isInl r \<longleftrightarrow> (\<exists>x. r = Inr x)"
  by (cases r) simp_all

end
