(* ===== verification/Utf8.thy ===== *)
theory Utf8
  imports Prelude
begin

text \<open>
  Go strings are sequences of bytes, the \<open>char\<close>s of the model. Ranging over a string
  (\<open>for _, c := range s\<close>) decodes UTF-8 and yields U+FFFD for each byte that does not
  start a well-formed sequence; \<open>strings.Builder.WriteRune\<close> encodes. These are
  \<open>DecodeRuneInString\<close>, \<open>AppendRune\<close> and \<open>ValidString\<close> of the standard library,
  used by the filter escapes (src/payload.go) and by the JSON codec of the state file.
\<close>

type_synonym rune = nat

definition byte_of :: "char \<Rightarrow> nat" where
  "byte_of c = of_char c"

definition chr :: "nat \<Rightarrow> char" where
  "chr n = char_of n"

lemma byte_of_chr: "n < 256 \<Longrightarrow> byte_of (chr n) = n"
  by (simp add: byte_of_def chr_def)

lemma chr_byte_of [simp]: "chr (byte_of c) = c"
  by (simp add: byte_of_def chr_def)

lemma byte_of_less [simp]: "byte_of c < 256"
  by (simp add: byte_of_def)

lemma byte_of_inject: "byte_of c = byte_of d \<longleftrightarrow> c = d"
  by (metis chr_byte_of)

definition runeError :: rune where
  "runeError = 0xFFFD"

definition is_cont :: "char \<Rightarrow> bool" where
  "is_cont c = (0x80 \<le> byte_of c \<and> byte_of c \<le> 0xBF)"

definition valid_rune :: "rune \<Rightarrow> bool" where
  "valid_rune r = (r < 0xD800 \<or> 0xE000 \<le> r \<and> r \<le> 0x10FFFF)"

text \<open>
  The admissible second bytes of a three and of a four byte sequence, which exclude
  overlong forms, surrogates and values above U+10FFFF.
\<close>

definition second3 :: "nat \<Rightarrow> char \<Rightarrow> bool" where
  "second3 b0 c = (is_cont c \<and> (b0 = 0xE0 \<longrightarrow> 0xA0 \<le> byte_of c) \<and> (b0 = 0xED \<longrightarrow> byte_of c \<le> 0x9F))"

definition second4 :: "nat \<Rightarrow> char \<Rightarrow> bool" where
  "second4 b0 c = (is_cont c \<and> (b0 = 0xF0 \<longrightarrow> 0x90 \<le> byte_of c) \<and> (b0 = 0xF4 \<longrightarrow> byte_of c \<le> 0x8F))"

text \<open>One decoding step: the rune (\<open>None\<close> for an ill-formed byte) and the rest.\<close>

fun decodeRune :: "string \<Rightarrow> rune option \<times> string" where
  "decodeRune [] = (None, [])"
| "decodeRune (c0 # s) = (let b0 = byte_of c0 in
     if b0 < 0x80 then (Some b0, s)
     else if 0xC2 \<le> b0 \<and> b0 \<le> 0xDF then
       (case s of c1 # s1 \<Rightarrow>
          if is_cont c1 then (Some ((b0 - 0xC0) * 64 + (byte_of c1 - 0x80)), s1) else (None, s)
        | _ \<Rightarrow> (None, s))
     else if 0xE0 \<le> b0 \<and> b0 \<le> 0xEF then
       (case s of c1 # c2 # s2 \<Rightarrow>
          if second3 b0 c1 \<and> is_cont c2
          then (Some ((b0 - 0xE0) * 4096 + (byte_of c1 - 0x80) * 64 + (byte_of c2 - 0x80)), s2)
          else (None, s)
        | _ \<Rightarrow> (None, s))
     else if 0xF0 \<le> b0 \<and> b0 \<le> 0xF4 then
       (case s of c1 # c2 # c3 # s3 \<Rightarrow>
          if second4 b0 c1 \<and> is_cont c2 \<and> is_cont c3
          then (Some ((b0 - 0xF0) * 262144 + (byte_of c1 - 0x80) * 4096
                  + (byte_of c2 - 0x80) * 64 + (byte_of c3 - 0x80)), s3)
          else (None, s)
        | _ \<Rightarrow> (None, s))
     else (None, s))"

definition encodeRune :: "rune \<Rightarrow> string" where
  "encodeRune r0 = (let r = (if valid_rune r0 then r0 else runeError) in
     if r < 0x80 then [chr r]
     else if r < 0x800 then [chr (0xC0 + r div 64), chr (0x80 + r mod 64)]
     else if r < 0x10000 then
       [chr (0xE0 + r div 4096), chr (0x80 + r div 64 mod 64), chr (0x80 + r mod 64)]
     else [chr (0xF0 + r div 262144), chr (0x80 + r div 4096 mod 64),
           chr (0x80 + r div 64 mod 64), chr (0x80 + r mod 64)])"

lemma decodeRune_length: "length (snd (decodeRune (c # s))) \<le> length s"
  by (auto simp: Let_def split: list.splits)

lemma decodeRune_rest_length: "decodeRune (c # s) = (r, s') \<Longrightarrow> length s' \<le> length s"
  using decodeRune_length[of c s] by simp

text \<open>The runes of a string with the bytes that are ill-formed kept apart.\<close>

function runes_opt :: "string \<Rightarrow> rune option list" where
  "runes_opt [] = []"
| "runes_opt (c # s) = (case decodeRune (c # s) of (r, s') \<Rightarrow> r # runes_opt s')"
  by pat_completeness auto
termination
  by (relation "measure length") (auto dest!: decodeRune_rest_length [OF sym] simp del: decodeRune.simps)

definition runes :: "string \<Rightarrow> rune list" where
  "runes s = map (\<lambda>r. case r of None \<Rightarrow> runeError | Some x \<Rightarrow> x) (runes_opt s)"

definition validString :: "string \<Rightarrow> bool" where
  "validString s = (None \<notin> set (runes_opt s))"

definition encodeRunes :: "rune list \<Rightarrow> string" where
  "encodeRunes rs = concat (map encodeRune rs)"

text \<open>Decoding and encoding every rune: ill-formed bytes become U+FFFD.\<close>

definition sanitize :: "string \<Rightarrow> string" where
  "sanitize s = encodeRunes (runes s)"

section \<open>Round trips\<close>

lemma encodeRunes_simps [simp]:
  "encodeRunes [] = []"
  "encodeRunes (r # rs) = encodeRune r @ encodeRunes rs"
  "encodeRunes (rs @ qs) = encodeRunes rs @ encodeRunes qs"
  by (simp_all add: encodeRunes_def)

lemma encodeRune_nonempty [simp]: "encodeRune r \<noteq> []"
  by (simp add: encodeRune_def Let_def)

lemma split_base64_3: "r = r div 4096 * 4096 + r div 64 mod 64 * 64 + r mod 64" for r :: nat
proof -
  have "r div 64 = r div 64 div 64 * 64 + r div 64 mod 64" by simp
  moreover have "r = r div 64 * 64 + r mod 64" by simp
  moreover have "r div 64 div 64 = r div 4096" by (simp add: div_mult2_eq [symmetric])
  ultimately show ?thesis by linarith
qed

lemma split_base64_4:
  "r = r div 262144 * 262144 + r div 4096 mod 64 * 4096 + r div 64 mod 64 * 64 + r mod 64" for r :: nat
proof -
  have "r div 4096 = r div 4096 div 64 * 64 + r div 4096 mod 64" by simp
  moreover have "r div 4096 div 64 = r div 262144" by (simp add: div_mult2_eq [symmetric])
  ultimately show ?thesis using split_base64_3 [of r] by linarith
qed

lemma decodeRune_encodeRune1:
  assumes "r < 0x80" shows "decodeRune (encodeRune r @ s) = (Some r, s)"
  using assms by (simp add: encodeRune_def valid_rune_def byte_of_chr)

lemma decodeRune_encodeRune2:
  assumes "0x80 \<le> r" "r < 0x800" shows "decodeRune (encodeRune r @ s) = (Some r, s)"
proof -
  have "2 \<le> r div 64" "r div 64 < 32" "r mod 64 < 64" using assms by auto
  then show ?thesis
    using assms by (simp add: encodeRune_def valid_rune_def byte_of_chr is_cont_def)
qed

lemma decodeRune_encodeRune3:
  assumes "0x800 \<le> r" "r < 0x10000" "valid_rune r"
  shows "decodeRune (encodeRune r @ s) = (Some r, s)"
proof -
  define a b c where "a = r div 4096" and "b = r div 64 mod 64" and "c = r mod 64"
  have r: "r = a * 4096 + b * 64 + c"
    unfolding a_def b_def c_def by (rule split_base64_3)
  have bounds: "a < 16" "b < 64" "c < 64" using assms by (auto simp: a_def b_def c_def)
  have low: "a = 0 \<Longrightarrow> 32 \<le> b" using assms(1) r bounds by simp
  have sur: "a = 13 \<Longrightarrow> b \<le> 31" using assms(3) r bounds by (auto simp: valid_rune_def)
  have "encodeRune r = [chr (0xE0 + a), chr (0x80 + b), chr (0x80 + c)]"
    using assms by (simp add: encodeRune_def a_def b_def c_def)
  then show ?thesis
    using bounds low sur r by (simp add: byte_of_chr is_cont_def second3_def)
qed

lemma decodeRune_encodeRune4:
  assumes "0x10000 \<le> r" "r \<le> 0x10FFFF"
  shows "decodeRune (encodeRune r @ s) = (Some r, s)"
proof -
  define a b c d where "a = r div 262144" and "b = r div 4096 mod 64"
    and "c = r div 64 mod 64" and "d = r mod 64"
  have r: "r = a * 262144 + b * 4096 + c * 64 + d"
    unfolding a_def b_def c_def d_def by (rule split_base64_4)
  have bounds: "a < 5" "b < 64" "c < 64" "d < 64" using assms by (auto simp: a_def b_def c_def d_def)
  have low: "a = 0 \<Longrightarrow> 16 \<le> b" using assms(1) r bounds by simp
  have high: "a = 4 \<Longrightarrow> b \<le> 15" using assms(2) r bounds by simp
  have "encodeRune r = [chr (0xF0 + a), chr (0x80 + b), chr (0x80 + c), chr (0x80 + d)]"
    using assms by (simp add: encodeRune_def valid_rune_def a_def b_def c_def d_def)
  then show ?thesis
    using bounds low high r by (simp add: byte_of_chr is_cont_def second4_def)
qed

lemma decodeRune_encodeRune:
  assumes "valid_rune r" shows "decodeRune (encodeRune r @ s) = (Some r, s)"
proof -
  consider "r < 0x80" | "0x80 \<le> r" "r < 0x800" | "0x800 \<le> r" "r < 0x10000"
    | "0x10000 \<le> r" "r \<le> 0x10FFFF"
    using assms by (fastforce simp: valid_rune_def not_less)
  then show ?thesis
    using assms
    by cases (simp_all add: decodeRune_encodeRune1 decodeRune_encodeRune2
        decodeRune_encodeRune3 decodeRune_encodeRune4)
qed

lemma runes_opt_append:
  assumes "\<forall>r \<in> set rs. valid_rune r"
  shows "runes_opt (encodeRunes rs @ s) = map Some rs @ runes_opt s"
  using assms
proof (induction rs)
  case (Cons r rs)
  obtain c t where e: "encodeRune r @ encodeRunes rs @ s = c # t"
    by (metis append_is_Nil_conv encodeRune_nonempty list.exhaust)
  have "decodeRune (c # t) = (Some r, encodeRunes rs @ s)"
    using decodeRune_encodeRune[of r "encodeRunes rs @ s"] Cons.prems e by simp
  then show ?case using Cons e by (simp del: decodeRune.simps)
qed simp

lemma runes_encodeRunes: "\<forall>r \<in> set rs. valid_rune r \<Longrightarrow> runes (encodeRunes rs) = rs"
  using runes_opt_append[of rs "[]"] by (simp add: runes_def comp_def)

lemma validString_encodeRunes: "\<forall>r \<in> set rs. valid_rune r \<Longrightarrow> validString (encodeRunes rs)"
  using runes_opt_append[of rs "[]"] by (auto simp: validString_def)

lemma byte_cases_enc2:
  assumes "0xC2 \<le> byte_of c0" "byte_of c0 \<le> 0xDF" "is_cont c1"
  shows "encodeRune ((byte_of c0 - 0xC0) * 64 + (byte_of c1 - 0x80)) = [c0, c1]"
proof -
  define a b where "a = byte_of c0 - 0xC0" and "b = byte_of c1 - 0x80"
  have ab: "byte_of c0 = 0xC0 + a" "byte_of c1 = 0x80 + b" "2 \<le> a" "a < 32" "b < 64"
    using assms by (auto simp: a_def b_def is_cont_def)
  have "encodeRune (a * 64 + b) = [chr (0xC0 + a), chr (0x80 + b)]"
    using ab(3-5) by (simp add: encodeRune_def valid_rune_def)
  then show ?thesis using ab(1,2) by (simp add: a_def [symmetric] b_def [symmetric]) (metis chr_byte_of)
qed

lemma divmod64: "d < 64 \<Longrightarrow> (q * 64 + d) div 64 = q \<and> (q * 64 + d) mod 64 = d" for d :: nat
  by simp

lemma encodeRune3:
  "0x800 \<le> r \<Longrightarrow> r < 0x10000 \<Longrightarrow> valid_rune r \<Longrightarrow>
   encodeRune r = [chr (0xE0 + r div 4096), chr (0x80 + r div 64 mod 64), chr (0x80 + r mod 64)]"
  by (simp add: encodeRune_def)

lemma encodeRune4:
  "0x10000 \<le> r \<Longrightarrow> valid_rune r \<Longrightarrow>
   encodeRune r = [chr (0xF0 + r div 262144), chr (0x80 + r div 4096 mod 64),
     chr (0x80 + r div 64 mod 64), chr (0x80 + r mod 64)]"
  by (simp add: encodeRune_def)

lemma range3:
  assumes "a < 16" "b < 64" "d < 64" "a = 0 \<Longrightarrow> 32 \<le> b" "a = 13 \<Longrightarrow> b < 32"
  shows "0x800 \<le> a * 4096 + b * 64 + d \<and> a * 4096 + b * 64 + d < 0x10000
    \<and> valid_rune (a * 4096 + b * 64 + d)"
proof -
  consider "a = 0" | "1 \<le> a" "a \<le> 12" | "a = 13" | "14 \<le> a" by linarith
  then show ?thesis using assms by cases (simp_all add: valid_rune_def)
qed

lemma range4:
  assumes "a < 5" "b < 64" "d < 64" "e < 64" "a = 0 \<Longrightarrow> 16 \<le> b" "a = 4 \<Longrightarrow> b < 16"
  shows "0x10000 \<le> a * 262144 + b * 4096 + d * 64 + e
    \<and> valid_rune (a * 262144 + b * 4096 + d * 64 + e)"
proof -
  consider "a = 0" | "1 \<le> a" "a \<le> 3" | "a = 4" using assms(1) by linarith
  then show ?thesis using assms by cases (simp_all add: valid_rune_def)
qed

lemma byte_cases_enc3:
  assumes "0xE0 \<le> byte_of c0" "byte_of c0 \<le> 0xEF" "second3 (byte_of c0) c1" "is_cont c2"
  shows "encodeRune ((byte_of c0 - 0xE0) * 4096 + (byte_of c1 - 0x80) * 64 + (byte_of c2 - 0x80))
    = [c0, c1, c2]"
proof -
  define a b d where "a = byte_of c0 - 0xE0" and "b = byte_of c1 - 0x80" and "d = byte_of c2 - 0x80"
  have ab: "byte_of c0 = 0xE0 + a" "byte_of c1 = 0x80 + b" "byte_of c2 = 0x80 + d"
    "a < 16" "b < 64" "d < 64" "a = 0 \<Longrightarrow> 32 \<le> b" "a = 13 \<Longrightarrow> b < 32"
    using assms by (auto simp: a_def b_def d_def is_cont_def second3_def)
  let ?r = "a * 4096 + b * 64 + d"
  have "?r = (a * 64 + b) * 64 + d" by simp
  then have d64: "?r div 64 = a * 64 + b" and m64: "?r mod 64 = d"
    using divmod64 [OF ab(6), of "a * 64 + b"] by (simp_all only:)
  have d4096: "?r div 4096 = a"
    using d64 ab(5) div_mult2_eq [of ?r 64 64] by simp
  have range: "0x800 \<le> ?r" "?r < 0x10000" "valid_rune ?r"
    using ab(4-8) range3 [of a b d] by auto
  have m: "?r div 64 mod 64 = b" using divmod64 [OF ab(5), of a] by (simp only: d64)
  have "encodeRune ?r = [chr (0xE0 + a), chr (0x80 + b), chr (0x80 + d)]"
    using encodeRune3 [OF range] by (simp only: d4096 m m64)
  then show ?thesis
    using ab(1-3) by (simp add: a_def [symmetric] b_def [symmetric] d_def [symmetric]) (metis chr_byte_of)
qed

lemma byte_cases_enc4:
  assumes "0xF0 \<le> byte_of c0" "byte_of c0 \<le> 0xF4" "second4 (byte_of c0) c1" "is_cont c2" "is_cont c3"
  shows "encodeRune ((byte_of c0 - 0xF0) * 262144 + (byte_of c1 - 0x80) * 4096
      + (byte_of c2 - 0x80) * 64 + (byte_of c3 - 0x80)) = [c0, c1, c2, c3]"
proof -
  define a b d e where "a = byte_of c0 - 0xF0" and "b = byte_of c1 - 0x80"
    and "d = byte_of c2 - 0x80" and "e = byte_of c3 - 0x80"
  have ab: "byte_of c0 = 0xF0 + a" "byte_of c1 = 0x80 + b" "byte_of c2 = 0x80 + d"
    "byte_of c3 = 0x80 + e" "a < 5" "b < 64" "d < 64" "e < 64" "a = 0 \<Longrightarrow> 16 \<le> b" "a = 4 \<Longrightarrow> b < 16"
    using assms by (auto simp: a_def b_def d_def e_def is_cont_def second4_def)
  let ?r = "a * 262144 + b * 4096 + d * 64 + e"
  have "?r = ((a * 64 + b) * 64 + d) * 64 + e" by simp
  then have d64: "?r div 64 = (a * 64 + b) * 64 + d" and m64: "?r mod 64 = e"
    using divmod64 [OF ab(8), of "(a * 64 + b) * 64 + d"] by (simp_all only:)
  have d4096: "?r div 4096 = a * 64 + b"
    using d64 ab(7) div_mult2_eq [of ?r 64 64] by simp
  have d262144: "?r div 262144 = a"
    using d4096 ab(6) div_mult2_eq [of ?r 4096 64] by simp
  have range: "0x10000 \<le> ?r" "valid_rune ?r"
    using ab(5-10) range4 [of a b d e] by auto
  have m: "?r div 4096 mod 64 = b" "?r div 64 mod 64 = d"
    using divmod64 [OF ab(6), of a] divmod64 [OF ab(7), of "a * 64 + b"] by (simp_all only: d4096 d64)
  have "encodeRune ?r = [chr (0xF0 + a), chr (0x80 + b), chr (0x80 + d), chr (0x80 + e)]"
    using encodeRune4 [OF range] by (simp only: m d262144 m64)
  then show ?thesis
    using ab(1-4)
    by (simp add: a_def [symmetric] b_def [symmetric] d_def [symmetric] e_def [symmetric])
      (metis chr_byte_of)
qed

lemma encodeRune_decodeRune:
  "decodeRune (c # s) = (Some r, t) \<Longrightarrow> encodeRune r @ t = c # s"
  by (auto simp: Let_def byte_cases_enc2 byte_cases_enc3 byte_cases_enc4
      split: if_splits list.splits) (simp add: encodeRune_def valid_rune_def)

text \<open>A well-formed string survives decoding and encoding unchanged.\<close>

lemma sanitize_valid: "validString s \<Longrightarrow> sanitize s = s"
proof (induction s rule: runes_opt.induct)
  case (2 c s)
  obtain r t where d: "decodeRune (c # s) = (r, t)" by fastforce
  with "2.prems" obtain x where r: "r = Some x" by (cases r) (auto simp: validString_def simp del: decodeRune.simps)
  have "validString t" using "2.prems" d by (simp add: validString_def del: decodeRune.simps)
  then have "sanitize t = t" using "2.IH" [OF d [symmetric]] by simp
  then show ?case
    using d r encodeRune_decodeRune [of c s x t]
    by (simp add: sanitize_def runes_def del: decodeRune.simps)
qed (simp add: sanitize_def runes_def)

lemma runeError_valid [simp]: "valid_rune runeError"
  by (simp add: valid_rune_def runeError_def)

lemma encodeRune_invalid: "\<not> valid_rune r \<Longrightarrow> encodeRune r = encodeRune runeError"
  by (simp add: encodeRune_def)

lemma decodeRune_valid: "decodeRune (c # s) = (Some r, t) \<Longrightarrow> valid_rune r"
proof (rule ccontr)
  assume d: "decodeRune (c # s) = (Some r, t)" and inv: "\<not> valid_rune r"
  have "encodeRune runeError @ t = c # s"
    using encodeRune_decodeRune [OF d] encodeRune_invalid [OF inv] by simp
  moreover have "decodeRune (encodeRune runeError @ t) = (Some runeError, t)"
    by (rule decodeRune_encodeRune) simp
  ultimately have "(Some r, t) = (Some runeError, t)" using d by simp
  then show False using inv by simp
qed

lemma runes_opt_valid: "Some r \<in> set (runes_opt s) \<Longrightarrow> valid_rune r"
  by (induction s rule: runes_opt.induct)
    (auto simp del: decodeRune.simps split: prod.splits dest: decodeRune_valid [OF sym])

lemma runes_valid: "r \<in> set (runes s) \<Longrightarrow> valid_rune r"
  by (auto simp: runes_def split: option.splits dest: runes_opt_valid)

end
