(* ===== verification/GoStrings.thy ===== *)
theory GoStrings
  imports Utf8
begin

text \<open>
  The functions of Go's \<open>strings\<close>, \<open>strconv\<close> and \<open>unicode\<close> packages that the
  program calls, on byte strings: splitting, cutting, joining, trimming, decimal numbers.
\<close>

section \<open>Splitting and joining\<close>

fun splitOn :: "char \<Rightarrow> string \<Rightarrow> string list" where
  "splitOn c [] = [[]]"
| "splitOn c (x # xs) =
     (if x = c then [] # splitOn c xs
      else (case splitOn c xs of y # ys \<Rightarrow> (x # y) # ys | [] \<Rightarrow> [[x]]))"

fun joinWith :: "string \<Rightarrow> string list \<Rightarrow> string" where
  "joinWith sep [] = []"
| "joinWith sep [x] = x"
| "joinWith sep (x # y # ys) = x @ sep @ joinWith sep (y # ys)"

text \<open>\<open>strings.Cut\<close>: the text before and after the first separator, and whether there is one.\<close>

definition cutAt :: "char \<Rightarrow> string \<Rightarrow> string \<times> string \<times> bool" where
  "cutAt c s = (if c \<in> set s
     then (takeWhile (\<lambda>x. x \<noteq> c) s, tl (dropWhile (\<lambda>x. x \<noteq> c) s), True)
     else (s, [], False))"

definition trimPrefix :: "string \<Rightarrow> string \<Rightarrow> string" where
  "trimPrefix s p = (if prefix p s then drop (length p) s else s)"

definition trimChar :: "char \<Rightarrow> string \<Rightarrow> string" where
  "trimChar c s = rev (dropWhile (\<lambda>x. x = c) (rev (dropWhile (\<lambda>x. x = c) s)))"

lemma splitOn_nonempty [simp]: "splitOn c s \<noteq> []"
  by (cases s) (auto split: list.splits)

lemma joinWith_splitOn: "joinWith [c] (splitOn c s) = s"
proof (induction s)
  case (Cons x xs)
  obtain y ys where "splitOn c xs = y # ys" by (meson list.exhaust splitOn_nonempty)
  with Cons show ?case by (cases ys) auto
qed simp

lemma splitOn_noSep: "p \<in> set (splitOn c s) \<Longrightarrow> c \<notin> set p"
proof (induction s arbitrary: p)
  case (Cons x xs)
  obtain y ys where "splitOn c xs = y # ys" by (meson list.exhaust splitOn_nonempty)
  with Cons show ?case by (force split: if_splits)
qed simp

lemma splitOn_single: "c \<notin> set s \<Longrightarrow> splitOn c s = [s]"
  by (induction s) auto

lemma splitOn_append: "c \<notin> set p \<Longrightarrow> splitOn c (p @ c # s) = p # splitOn c s"
  by (induction p) auto

lemma splitOn_joinWith:
  "xs \<noteq> [] \<Longrightarrow> \<forall>x \<in> set xs. c \<notin> set x \<Longrightarrow> splitOn c (joinWith [c] xs) = xs"
proof (induction xs)
  case (Cons x xs)
  then show ?case
    by (cases xs) (auto simp: splitOn_single splitOn_append)
qed simp

section \<open>White space\<close>

definition isSpace :: "rune \<Rightarrow> bool" where
  "isSpace r = (r \<in> {0x09, 0x0A, 0x0B, 0x0C, 0x0D, 0x20, 0x85, 0xA0, 0x1680, 0x2028, 0x2029,
     0x202F, 0x205F, 0x3000} \<or> 0x2000 \<le> r \<and> r \<le> 0x200A)"

text \<open>A string cut into its runes, each with the bytes it was decoded from.\<close>

function segments :: "string \<Rightarrow> (rune option \<times> string) list" where
  "segments [] = []"
| "segments (c # s) = (case decodeRune (c # s) of (r, s') \<Rightarrow>
     (r, take (length (c # s) - length s') (c # s)) # segments s')"
  by pat_completeness auto
termination
  by (relation "measure length") (auto dest!: decodeRune_rest_length [OF sym] simp del: decodeRune.simps)

definition isSpaceSeg :: "rune option \<times> string \<Rightarrow> bool" where
  "isSpaceSeg g = (case fst g of None \<Rightarrow> False | Some r \<Rightarrow> isSpace r)"

definition trimSpace :: "string \<Rightarrow> string" where
  "trimSpace s = concat (map snd (rev (dropWhile isSpaceSeg (rev (dropWhile isSpaceSeg (segments s))))))"

text \<open>\<open>strings.Fields\<close>: the maximal runs of segments that are not white space.\<close>

fun fieldsOf :: "(rune option \<times> string) list \<Rightarrow> string \<Rightarrow> string list" where
  "fieldsOf [] acc = (if acc = [] then [] else [acc])"
| "fieldsOf (g # gs) acc =
     (if isSpaceSeg g then (if acc = [] then fieldsOf gs [] else acc # fieldsOf gs [])
      else fieldsOf gs (acc @ snd g))"

definition fields :: "string \<Rightarrow> string list" where
  "fields s = fieldsOf (segments s) []"

definition toLower :: "char \<Rightarrow> char" where
  "toLower c = (if 65 \<le> byte_of c \<and> byte_of c \<le> 90 then chr (byte_of c + 32) else c)"

definition toUpper :: "char \<Rightarrow> char" where
  "toUpper c = (if 97 \<le> byte_of c \<and> byte_of c \<le> 122 then chr (byte_of c - 32) else c)"

section \<open>Decimal numbers\<close>

definition digitChar :: "nat \<Rightarrow> char" where
  "digitChar n = chr (48 + n)"

definition isDigit :: "char \<Rightarrow> bool" where
  "isDigit c = (48 \<le> byte_of c \<and> byte_of c \<le> 57)"

definition digitVal :: "char \<Rightarrow> nat" where
  "digitVal c = byte_of c - 48"

fun dec :: "nat \<Rightarrow> string" where
  "dec n = (if n < 10 then [digitChar n] else dec (n div 10) @ [digitChar (n mod 10)])"

declare dec.simps [simp del]

definition undec :: "string \<Rightarrow> nat" where
  "undec s = foldl (\<lambda>a c. 10 * a + digitVal c) 0 s"

text \<open>\<open>strconv.ParseUint(s, 10, 64)\<close> and \<open>ParseInt(s, 10, 64)\<close>.\<close>

definition parseUint64 :: "string \<Rightarrow> u64 option" where
  "parseUint64 s = (if s \<noteq> [] \<and> list_all isDigit s \<and> int (undec s) < 2 ^ 64
     then Some (of_nat (undec s)) else None)"

definition parseInt64 :: "string \<Rightarrow> int option" where
  "parseInt64 s =
     (let neg = (s \<noteq> [] \<and> hd s = CHR ''-'');
          t = (if s \<noteq> [] \<and> (hd s = CHR ''-'' \<or> hd s = CHR ''+'') then tl s else s)
      in if t = [] \<or> \<not> list_all isDigit t then None
         else if neg then (if int (undec t) \<le> 2 ^ 63 then Some (- int (undec t)) else None)
         else if int (undec t) < 2 ^ 63 then Some (int (undec t)) else None)"

definition decInt :: "int \<Rightarrow> string" where
  "decInt i = (if i < 0 then CHR ''-'' # dec (nat (- i)) else dec (nat i))"

lemma digit_simps [simp]:
  "n < 10 \<Longrightarrow> isDigit (digitChar n)" "n < 10 \<Longrightarrow> digitVal (digitChar n) = n"
  by (simp_all add: isDigit_def digitVal_def digitChar_def byte_of_chr)

lemma dec_nonempty [simp]: "dec n \<noteq> []"
  by (subst dec.simps) simp

lemma dec_digits: "list_all isDigit (dec n)"
  by (induction n rule: dec.induct) (subst dec.simps, simp)

lemma undec_snoc: "undec (s @ [c]) = 10 * undec s + digitVal c"
  by (simp add: undec_def)

lemma undec_dec [simp]: "undec (dec n) = n"
proof (induction n rule: dec.induct)
  case (1 n)
  show ?case
  proof (cases "n < 10")
    case True
    then show ?thesis by (subst dec.simps) (simp add: undec_def)
  next
    case False
    then have "undec (dec n) = 10 * (n div 10) + n mod 10"
      using "1.IH" by (subst dec.simps) (simp add: undec_snoc)
    then show ?thesis by simp
  qed
qed

lemma parseUint64_dec: "parseUint64 (dec (unat w)) = Some w"
proof -
  have "uint w < 2 ^ 64" using uint_lt2p [of w] by simp
  then show ?thesis by (simp add: parseUint64_def dec_digits)
qed

lemma dec_hd_digit: "isDigit (hd (dec n))"
  using dec_digits [of n] by (cases "dec n") simp_all

lemma isDigit_not_sign: "isDigit c \<Longrightarrow> c \<noteq> CHR ''-'' \<and> c \<noteq> CHR ''+''"
  by (auto simp: isDigit_def byte_of_def)

lemma parseInt64_decInt:
  assumes "- (2 ^ 63) \<le> i" "i < 2 ^ 63" shows "parseInt64 (decInt i) = Some i"
proof (cases "i < 0")
  case True
  then show ?thesis using assms by (simp add: parseInt64_def decInt_def dec_digits)
next
  case False
  then show ?thesis
    using assms isDigit_not_sign [OF dec_hd_digit [of "nat i"]]
    by (simp add: parseInt64_def decInt_def dec_digits)
qed

lemma hd_dec_nonzero: "0 < n \<Longrightarrow> hd (dec n) \<noteq> CHR ''0''"
proof (induction n rule: dec.induct)
  case (1 n)
  show ?case
  proof (cases "n < 10")
    case True
    then have "byte_of (digitChar n) = 48 + n" by (simp add: digitChar_def byte_of_chr)
    then have "digitChar n \<noteq> CHR ''0''" using "1.prems" by (auto simp: byte_of_def)
    with True show ?thesis by (subst dec.simps) simp
  next
    case False
    with 1 show ?thesis by (subst dec.simps) simp
  qed
qed

end
