(* ===== verification/GoTime.thy ===== *)
theory GoTime
  imports GoStrings
begin

text \<open>
  The wall-clock times of the \<open>time\<close> package that the state file stores: civil fields
  with a zone offset in minutes, \<open>Equal\<close> and \<open>IsZero\<close> on the instant they denote, the
  layout RFC3339Nano and the strict parser of RFC 3339 (\<open>parseRFC3339\<close>). The lenient
  fallback of Go's parser (one-digit hours, comma fractions), which never reads a time
  this program wrote, is left out. Durations and monotonic readings are \<open>int\<close>
  nanoseconds.
\<close>

type_synonym duration = int

definition nanosecond :: duration where "nanosecond = 1"
definition second :: duration where "second = 1000000000"
definition minute :: duration where "minute = 60 * second"

record gotime =
  t_year :: nat
  t_month :: nat
  t_day :: nat
  t_hour :: nat
  t_min :: nat
  t_sec :: nat
  t_nsec :: nat
  t_off :: int

definition isLeap :: "nat \<Rightarrow> bool" where
  "isLeap y = (y mod 4 = 0 \<and> (y mod 100 \<noteq> 0 \<or> y mod 400 = 0))"

definition daysIn :: "nat \<Rightarrow> nat \<Rightarrow> nat" where
  "daysIn m y = (if m = 2 then (if isLeap y then 29 else 28)
     else if m \<in> {4, 6, 9, 11} then 30 else 31)"

text \<open>The instant in seconds since 1970: the days of the civil date, then the time of day.\<close>

definition daysFromCivil :: "nat \<Rightarrow> nat \<Rightarrow> nat \<Rightarrow> int" where
  "daysFromCivil y m d =
     (let y' = int y - (if m \<le> 2 then 1 else 0);
          era = y' div 400;
          yoe = y' - era * 400;
          doy = (153 * (int m + (if m > 2 then - 3 else 9)) + 2) div 5 + int d - 1;
          doe = yoe * 365 + yoe div 4 - yoe div 100 + doy
      in era * 146097 + doe - 719468)"

definition unixSeconds :: "gotime \<Rightarrow> int" where
  "unixSeconds t = daysFromCivil (t_year t) (t_month t) (t_day t) * 86400
     + int (t_hour t) * 3600 + int (t_min t) * 60 + int (t_sec t) - t_off t * 60"

definition timeEqual :: "gotime \<Rightarrow> gotime \<Rightarrow> bool" where
  "timeEqual a b = (unixSeconds a = unixSeconds b \<and> t_nsec a = t_nsec b)"

definition zeroTime :: gotime where
  "zeroTime = \<lparr>t_year = 1, t_month = 1, t_day = 1, t_hour = 0, t_min = 0, t_sec = 0, t_nsec = 0, t_off = 0\<rparr>"

definition isZeroTime :: "gotime \<Rightarrow> bool" where
  "isZeroTime t = timeEqual t zeroTime"

definition validTime :: "gotime \<Rightarrow> bool" where
  "validTime t = (t_year t \<le> 9999 \<and> 1 \<le> t_month t \<and> t_month t \<le> 12 \<and> 1 \<le> t_day t
     \<and> t_day t \<le> daysIn (t_month t) (t_year t) \<and> t_hour t \<le> 23 \<and> t_min t \<le> 59 \<and> t_sec t \<le> 59
     \<and> t_nsec t < 1000000000 \<and> \<bar>t_off t\<bar> < 24 * 60)"

section \<open>RFC 3339\<close>

fun padDec :: "nat \<Rightarrow> nat \<Rightarrow> string" where
  "padDec 0 n = []"
| "padDec (Suc k) n = padDec k (n div 10) @ [digitChar (n mod 10)]"

definition fracDigits :: "nat \<Rightarrow> string" where
  "fracDigits ns = rev (dropWhile (\<lambda>c. c = CHR ''0'') (rev (padDec 9 ns)))"

definition formatFrac :: "nat \<Rightarrow> string" where
  "formatFrac ns = (if fracDigits ns = [] then [] else CHR ''.'' # fracDigits ns)"

definition formatZone :: "int \<Rightarrow> string" where
  "formatZone off = (if off = 0 then ''Z''
     else (if off < 0 then CHR ''-'' else CHR ''+'') #
       padDec 2 (nat \<bar>off\<bar> div 60) @ '':'' @ padDec 2 (nat \<bar>off\<bar> mod 60))"

definition formatRFC3339Nano :: "gotime \<Rightarrow> string" where
  "formatRFC3339Nano t =
     padDec 4 (t_year t) @ ''-'' @ padDec 2 (t_month t) @ ''-'' @ padDec 2 (t_day t) @ ''T''
     @ padDec 2 (t_hour t) @ '':'' @ padDec 2 (t_min t) @ '':'' @ padDec 2 (t_sec t)
     @ formatFrac (t_nsec t) @ formatZone (t_off t)"

text \<open>A fixed number of digits within bounds.\<close>

definition parseField :: "nat \<Rightarrow> nat \<Rightarrow> nat \<Rightarrow> string \<Rightarrow> (nat \<times> string) option" where
  "parseField k lo hi s =
     (if k \<le> length s \<and> list_all isDigit (take k s) \<and> lo \<le> undec (take k s) \<and> undec (take k s) \<le> hi
      then Some (undec (take k s), drop k s) else None)"

definition parseChar :: "char \<Rightarrow> string \<Rightarrow> string option" where
  "parseChar c s = (case s of d # t \<Rightarrow> if d = c then Some t else None | [] \<Rightarrow> None)"

definition parseFrac :: "string \<Rightarrow> nat \<times> string" where
  "parseFrac s = (case s of
      c # t \<Rightarrow> if c = CHR ''.'' \<and> takeWhile isDigit t \<noteq> []
        then (let ds = take 9 (takeWhile isDigit t) in (undec ds * 10 ^ (9 - length ds), dropWhile isDigit t))
        else (0, s)
    | [] \<Rightarrow> (0, s))"

definition parseZone :: "string \<Rightarrow> int option" where
  "parseZone s = (if s = ''Z'' then Some 0 else case s of
      c # t \<Rightarrow> if c = CHR ''+'' \<or> c = CHR ''-'' then
        (case parseField 2 0 23 t of None \<Rightarrow> None | Some (h, t1) \<Rightarrow>
        (case parseChar (CHR '':'') t1 of None \<Rightarrow> None | Some t2 \<Rightarrow>
        (case parseField 2 0 59 t2 of None \<Rightarrow> None | Some (m, t3) \<Rightarrow>
           if t3 = [] then Some ((if c = CHR ''-'' then -1 else 1) * int (h * 60 + m)) else None)))
        else None
    | [] \<Rightarrow> None)"

definition parseRFC3339 :: "string \<Rightarrow> gotime option" where
  "parseRFC3339 s =
     Option.bind (parseField 4 0 9999 s) (\<lambda>(y, s). Option.bind (parseChar (CHR ''-'') s) (\<lambda>s.
     Option.bind (parseField 2 1 12 s) (\<lambda>(mo, s). Option.bind (parseChar (CHR ''-'') s) (\<lambda>s.
     Option.bind (parseField 2 1 (daysIn mo y) s) (\<lambda>(d, s). Option.bind (parseChar (CHR ''T'') s) (\<lambda>s.
     Option.bind (parseField 2 0 23 s) (\<lambda>(h, s). Option.bind (parseChar (CHR '':'') s) (\<lambda>s.
     Option.bind (parseField 2 0 59 s) (\<lambda>(mi, s). Option.bind (parseChar (CHR '':'') s) (\<lambda>s.
     Option.bind (parseField 2 0 59 s) (\<lambda>(sec, s). case parseFrac s of (ns, s) \<Rightarrow>
     Option.bind (parseZone s) (\<lambda>off.
       Some \<lparr>t_year = y, t_month = mo, t_day = d, t_hour = h, t_min = mi, t_sec = sec,
             t_nsec = ns, t_off = off\<rparr>))))))))))))"

section \<open>Round trip\<close>

lemma length_padDec [simp]: "length (padDec k n) = k"
  by (induction k arbitrary: n) simp_all

lemma padDec_digits [simp]: "list_all isDigit (padDec k n)"
  by (induction k arbitrary: n) simp_all

lemma undec_padDec: "n < 10 ^ k \<Longrightarrow> undec (padDec k n) = n"
proof (induction k arbitrary: n)
  case (Suc k)
  then have "n div 10 < 10 ^ k" by (simp add: less_mult_imp_div_less mult.commute)
  with Suc.IH show ?case by (simp add: undec_snoc)
qed (simp add: undec_def)

lemma parseField_padDec [simp]:
  "n < 10 ^ k \<Longrightarrow> lo \<le> n \<Longrightarrow> n \<le> hi \<Longrightarrow> parseField k lo hi (padDec k n @ s) = Some (n, s)"
  by (simp add: parseField_def undec_padDec)

lemma parseChar_Cons [simp]: "parseChar c (c # s) = Some s"
  by (simp add: parseChar_def)

lemma undec_zeros: "undec (ds @ replicate j (CHR ''0'')) = undec ds * 10 ^ j"
proof (induction j)
  case (Suc j)
  have "digitVal (CHR ''0'') = 0" by (simp add: digitVal_def byte_of_def)
  then show ?case
    using Suc by (simp add: replicate_append_same [symmetric] undec_snoc flip: append_assoc)
qed simp

lemma fracDigits_split: "\<exists>j. padDec 9 ns = fracDigits ns @ replicate j (CHR ''0'')"
proof -
  let ?r = "rev (padDec 9 ns)"
  have "takeWhile (\<lambda>c. c = CHR ''0'') ?r = replicate (length (takeWhile (\<lambda>c. c = CHR ''0'') ?r)) (CHR ''0'')"
    by (rule replicate_eqI) (auto dest: set_takeWhileD)
  then obtain j where "takeWhile (\<lambda>c. c = CHR ''0'') ?r = replicate j (CHR ''0'')" by blast
  then have "?r = replicate j (CHR ''0'') @ dropWhile (\<lambda>c. c = CHR ''0'') ?r"
    by (metis takeWhile_dropWhile_id)
  then have "padDec 9 ns = rev (replicate j (CHR ''0'') @ dropWhile (\<lambda>c. c = CHR ''0'') ?r)"
    by (metis rev_rev_ident)
  then show ?thesis by (auto simp: fracDigits_def)
qed

lemma fracDigits_value:
  assumes "ns < 1000000000"
  shows "undec (fracDigits ns) * 10 ^ (9 - length (fracDigits ns)) = ns"
    "length (fracDigits ns) \<le> 9" "list_all isDigit (fracDigits ns)"
proof -
  obtain j where j: "padDec 9 ns = fracDigits ns @ replicate j (CHR ''0'')"
    using fracDigits_split by blast
  then have "length (fracDigits ns) + j = 9" by (metis length_append length_padDec length_replicate)
  moreover have "undec (fracDigits ns) * 10 ^ j = ns"
    using undec_padDec [of ns 9] assms by (simp add: j undec_zeros)
  ultimately show "undec (fracDigits ns) * 10 ^ (9 - length (fracDigits ns)) = ns"
    "length (fracDigits ns) \<le> 9" by (metis add_diff_cancel_left', linarith)
  show "list_all isDigit (fracDigits ns)"
    using padDec_digits [of 9 ns] by (simp add: j)
qed

lemma formatZone_first: "\<exists>c t. formatZone off = c # t \<and> \<not> isDigit c \<and> c \<noteq> CHR ''.''"
  by (simp add: formatZone_def isDigit_def byte_of_def)

lemma parseFrac_format:
  assumes "ns < 1000000000"
  shows "parseFrac (formatFrac ns @ formatZone off) = (ns, formatZone off)"
proof -
  obtain c t where z: "formatZone off = c # t" "\<not> isDigit c" "c \<noteq> CHR ''.''"
    using formatZone_first by blast
  note v = fracDigits_value [OF assms]
  have tw: "takeWhile isDigit (fracDigits ns @ c # t) = fracDigits ns"
    "dropWhile isDigit (fracDigits ns @ c # t) = c # t"
    using v(3) z(2) by (simp_all add: takeWhile_append2 dropWhile_append2 list_all_iff)
  show ?thesis
  proof (cases "fracDigits ns = []")
    case True
    then show ?thesis using v(1) z by (simp add: formatFrac_def parseFrac_def undec_def)
  next
    case False
    then show ?thesis using v z tw by (simp add: formatFrac_def parseFrac_def)
  qed
qed

lemma parseZone_format: "\<bar>off\<bar> < 24 * 60 \<Longrightarrow> parseZone (formatZone off) = Some off"
proof -
  assume a: "\<bar>off\<bar> < 24 * 60"
  define h m where "h = nat \<bar>off\<bar> div 60" and "m = nat \<bar>off\<bar> mod 60"
  have hm: "h \<le> 23" "m \<le> 59" "int (h * 60 + m) = \<bar>off\<bar>" using a by (auto simp: h_def m_def)
  have m': "parseField 2 0 59 (padDec 2 m) = Some (m, [])"
    using hm parseField_padDec [of m 2 0 59 "[]"] by simp
  show ?thesis
  proof (cases "off = 0")
    case False
    then show ?thesis
      using hm m' by (auto simp: formatZone_def parseZone_def h_def [symmetric] m_def [symmetric])
  qed (simp add: formatZone_def parseZone_def)
qed

lemma parse_format: "validTime t \<Longrightarrow> parseRFC3339 (formatRFC3339Nano t) = Some t"
proof -
  assume v: "validTime t"
  have d: "t_day t < 10 ^ 2" using v by (auto simp: validTime_def daysIn_def split: if_splits)
  show ?thesis
    using v d by (simp add: validTime_def formatRFC3339Nano_def parseRFC3339_def
        parseFrac_format parseZone_format)
qed

lemma formatRFC3339Nano_plain:
  "c \<in> set (formatRFC3339Nano t) \<Longrightarrow> isDigit c \<or> c \<in> set ''-T:.Z+''"
proof -
  have pd: "c \<in> set (padDec k n) \<Longrightarrow> isDigit c" for k n
    using padDec_digits [of k n] by (simp add: list_all_iff)
  have fd: "c \<in> set (fracDigits ns) \<Longrightarrow> isDigit c" for ns
    unfolding fracDigits_def using pd [of 9 ns] by (auto dest: set_dropWhileD)
  assume "c \<in> set (formatRFC3339Nano t)"
  then show ?thesis
    by (auto simp: formatRFC3339Nano_def formatFrac_def formatZone_def dest: pd fd split: if_splits)
qed

end
