(* ===== verification/Json.thy ===== *)
theory Json
  imports GoStrings
begin

text \<open>
  The part of \<open>encoding/json\<close> that reads and writes state files and reads the listings
  of rclone: the syntax of JSON values (\<open>scanValue\<close>), the quoting and unquoting of
  strings, and the layout of \<open>MarshalIndent\<close> with two spaces. As in Go a string value is
  kept as its raw body until it is stored into a field. The main lemma is that a printed
  value scans back to itself (\<open>scanValue_print\<close>).
\<close>

datatype json = JNull | JBool bool | JNum string | JStr string
  | JArr "json list" | JObj "(string \<times> json) list"

section \<open>Strings\<close>

definition isHex :: "char \<Rightarrow> bool" where
  "isHex c = (isDigit c \<or> 65 \<le> byte_of c \<and> byte_of c \<le> 70 \<or> 97 \<le> byte_of c \<and> byte_of c \<le> 102)"

definition hexVal :: "char \<Rightarrow> nat" where
  "hexVal c = (if isDigit c then byte_of c - 48
     else if byte_of c \<le> 70 then byte_of c - 55 else byte_of c - 87)"

definition hexChar :: "nat \<Rightarrow> char" where
  "hexChar n = (if n < 10 then chr (48 + n) else chr (87 + n))"

definition hex4 :: "char \<Rightarrow> char \<Rightarrow> char \<Rightarrow> char \<Rightarrow> nat" where
  "hex4 a b c d = ((hexVal a * 16 + hexVal b) * 16 + hexVal c) * 16 + hexVal d"

definition isSurrogate :: "nat \<Rightarrow> bool" where
  "isSurrogate r = (0xD800 \<le> r \<and> r < 0xE000)"

text \<open>The body of a string literal, up to the closing quote (which is consumed).\<close>

fun scanString :: "string \<Rightarrow> (string \<times> string) option" where
  "scanString [] = None"
| "scanString (c # s) =
     (if c = CHR 0x22 then Some ([], s)
      else if c = CHR 0x5C then
        (case s of
           [] \<Rightarrow> None
         | e # t \<Rightarrow>
             if e \<in> {CHR 0x22, CHR 0x5C, CHR ''/'', CHR ''b'', CHR ''f'', CHR ''n'', CHR ''r'', CHR ''t''}
             then map_option (\<lambda>(b, r). (c # e # b, r)) (scanString t)
             else if e = CHR ''u'' then
               (case t of
                  h1 # h2 # h3 # h4 # t' \<Rightarrow>
                    if isHex h1 \<and> isHex h2 \<and> isHex h3 \<and> isHex h4
                    then map_option (\<lambda>(b, r). (c # e # h1 # h2 # h3 # h4 # b, r)) (scanString t')
                    else None
                | _ \<Rightarrow> None)
             else None)
      else if byte_of c < 0x20 then None
      else map_option (\<lambda>(b, r). (c # b, r)) (scanString s))"

definition unescape :: "char \<Rightarrow> char" where
  "unescape e =
     (if e = CHR ''b'' then chr 8 else if e = CHR ''f'' then chr 12
      else if e = CHR ''n'' then chr 10 else if e = CHR ''r'' then chr 13
      else if e = CHR ''t'' then chr 9 else e)"

text \<open>\<open>getu4\<close>: the value of an escape \<open>\uXXXX\<close> at the head of the string, if there is one.\<close>

definition getu4 :: "string \<Rightarrow> nat option" where
  "getu4 s = (case s of
      a # b # c # d # e # f # _ \<Rightarrow>
        if a = CHR 0x5C \<and> b = CHR ''u'' \<and> isHex c \<and> isHex d \<and> isHex e \<and> isHex f
        then Some (hex4 c d e f) else None
    | _ \<Rightarrow> None)"

text \<open>The value of a raw body: escapes replaced, ill-formed UTF-8 replaced by U+FFFD.\<close>

function unquote :: "string \<Rightarrow> string" where
  "unquote [] = []"
| "unquote (c # s) =
     (case getu4 (c # s) of
        Some r \<Rightarrow>
          if isSurrogate r then
            (case getu4 (drop 5 s) of
               Some r1 \<Rightarrow>
                 if r < 0xDC00 \<and> 0xDC00 \<le> r1 \<and> r1 < 0xE000
                 then encodeRune ((r - 0xD800) * 1024 + (r1 - 0xDC00) + 0x10000) @ unquote (drop 11 s)
                 else encodeRune runeError @ unquote (drop 5 s)
             | None \<Rightarrow> encodeRune runeError @ unquote (drop 5 s))
          else encodeRune r @ unquote (drop 5 s)
      | None \<Rightarrow>
          if c = CHR 0x5C then
            (case s of e # t \<Rightarrow> unescape e # unquote t | [] \<Rightarrow> [])
          else (case decodeRune (c # s) of
                  (None, t) \<Rightarrow> encodeRune runeError @ unquote t
                | (Some r, t) \<Rightarrow> encodeRune r @ unquote t))"
  by pat_completeness auto
termination
  by (relation "measure length")
    (auto dest!: decodeRune_rest_length [OF sym] simp del: decodeRune.simps)

text \<open>One byte of an ASCII character in a quoted string, with HTML escaping on.\<close>

definition quoteAscii :: "char \<Rightarrow> string" where
  "quoteAscii c =
     (if c = CHR 0x22 \<or> c = CHR 0x5C then [CHR 0x5C, c]
      else if byte_of c = 8 then [CHR 0x5C, CHR ''b'']
      else if byte_of c = 12 then [CHR 0x5C, CHR ''f'']
      else if byte_of c = 10 then [CHR 0x5C, CHR ''n'']
      else if byte_of c = 13 then [CHR 0x5C, CHR ''r'']
      else if byte_of c = 9 then [CHR 0x5C, CHR ''t'']
      else if byte_of c < 0x20 \<or> c = CHR ''<'' \<or> c = CHR ''>'' \<or> c = CHR ''&''
        then [CHR 0x5C, CHR ''u'', CHR ''0'', CHR ''0'', hexChar (byte_of c div 16), hexChar (byte_of c mod 16)]
      else [c])"

definition quoteRune :: "rune option \<Rightarrow> string" where
  "quoteRune r = (case r of
      None \<Rightarrow> CHR 0x5C # ''ufffd''
    | Some x \<Rightarrow>
        if x < 0x80 then quoteAscii (chr x)
        else if x = 0x2028 then CHR 0x5C # ''u2028''
        else if x = 0x2029 then CHR 0x5C # ''u2029''
        else encodeRune x)"

definition quote :: "string \<Rightarrow> string" where
  "quote s = concat (map quoteRune (runes_opt s))"

section \<open>Values\<close>

definition isWs :: "char \<Rightarrow> bool" where
  "isWs c = (c \<in> {CHR '' '', CHR 0x09, CHR 0x0A, CHR 0x0D})"

definition skipWs :: "string \<Rightarrow> string" where
  "skipWs s = dropWhile isWs s"

definition digitsPrefix :: "string \<Rightarrow> string \<times> string" where
  "digitsPrefix s = (takeWhile isDigit s, dropWhile isDigit s)"

text \<open>A number literal: sign, integer part without leading zero, fraction, exponent.\<close>

definition scanInt :: "string \<Rightarrow> (string \<times> string) option" where
  "scanInt s = (case s of
      [] \<Rightarrow> None
    | c # t \<Rightarrow> if c = CHR ''0'' then Some ([c], t)
               else if isDigit c then Some (digitsPrefix s) else None)"

definition scanFrac :: "string \<Rightarrow> (string \<times> string) option" where
  "scanFrac s = (case s of
      c # t \<Rightarrow> if c = CHR ''.'' then
        (case digitsPrefix t of (ds, u) \<Rightarrow> if ds = [] then None else Some (c # ds, u))
        else Some ([], s)
    | [] \<Rightarrow> Some ([], []))"

definition scanExp :: "string \<Rightarrow> (string \<times> string) option" where
  "scanExp s = (case s of
      c # t \<Rightarrow> if c = CHR ''e'' \<or> c = CHR ''E'' then
        (let (sg, t') = (case t of d # t1 \<Rightarrow> if d = CHR ''+'' \<or> d = CHR ''-'' then ([d], t1) else ([], t) | [] \<Rightarrow> ([], t))
         in case digitsPrefix t' of (ds, u) \<Rightarrow> if ds = [] then None else Some (c # sg @ ds, u))
        else Some ([], s)
    | [] \<Rightarrow> Some ([], []))"

definition scanNumber :: "string \<Rightarrow> (string \<times> string) option" where
  "scanNumber s =
     (let (sg, s1) = (case s of c # t \<Rightarrow> if c = CHR ''-'' then ([c], t) else ([], s) | [] \<Rightarrow> ([], s))
      in case scanInt s1 of None \<Rightarrow> None | Some (i, s2) \<Rightarrow>
         (case scanFrac s2 of None \<Rightarrow> None | Some (f, s3) \<Rightarrow>
         (case scanExp s3 of None \<Rightarrow> None | Some (e, s4) \<Rightarrow> Some (sg @ i @ f @ e, s4))))"

definition scanLiteral :: "string \<Rightarrow> json \<Rightarrow> string \<Rightarrow> (json \<times> string) option" where
  "scanLiteral lit v s = (if prefix lit s then Some (v, drop (length lit) s) else None)"

text \<open>What the first character of a value announces.\<close>

datatype lead = LObj | LArr | LStr | LTrue | LFalse | LNull | LNum

definition leadOf :: "char \<Rightarrow> lead" where
  "leadOf c = (if c = CHR ''{'' then LObj else if c = CHR ''['' then LArr
     else if c = CHR 0x22 then LStr else if c = CHR ''t'' then LTrue
     else if c = CHR ''f'' then LFalse else if c = CHR ''n'' then LNull else LNum)"

text \<open>Whether the closing character follows at once, and the text after it.\<close>

definition scanClose :: "char \<Rightarrow> string \<Rightarrow> string option" where
  "scanClose c s = (case skipWs s of d # u \<Rightarrow> if d = c then Some u else None | [] \<Rightarrow> None)"

text \<open>After an element: the closing character (\<open>True\<close>) or a comma (\<open>False\<close>).\<close>

definition scanSep :: "char \<Rightarrow> string \<Rightarrow> (bool \<times> string) option" where
  "scanSep c s = (case skipWs s of
      d # u \<Rightarrow> if d = c then Some (True, u) else if d = CHR '','' then Some (False, u) else None
    | [] \<Rightarrow> None)"

definition scanKey :: "string \<Rightarrow> (string \<times> string) option" where
  "scanKey s = (case scanClose (CHR 0x22) s of
      None \<Rightarrow> None
    | Some t \<Rightarrow> (case scanString t of
        None \<Rightarrow> None
      | Some (k, u) \<Rightarrow> map_option (\<lambda>w. (k, w)) (scanClose (CHR '':'') u)))"

text \<open>
  The grammar of values. Every call spends one unit of fuel; a nested call never has more
  than twice the length of its text to spend, so that twice the length of the text is
  enough (\<open>scan_fuel\<close>).
\<close>

fun scanValue :: "nat \<Rightarrow> string \<Rightarrow> (json \<times> string) option"
  and scanElements :: "nat \<Rightarrow> string \<Rightarrow> (json list \<times> string) option"
  and scanMembers :: "nat \<Rightarrow> string \<Rightarrow> ((string \<times> json) list \<times> string) option" where
  "scanValue 0 s = None"
| "scanValue (Suc n) s =
     (case skipWs s of
        [] \<Rightarrow> None
      | c # t \<Rightarrow>
          (case leadOf c of
             LObj \<Rightarrow> (case scanClose (CHR ''}'') t of
                        Some u \<Rightarrow> Some (JObj [], u)
                      | None \<Rightarrow> map_option (\<lambda>(ms, r). (JObj ms, r)) (scanMembers n t))
           | LArr \<Rightarrow> (case scanClose (CHR '']'') t of
                        Some u \<Rightarrow> Some (JArr [], u)
                      | None \<Rightarrow> map_option (\<lambda>(vs, r). (JArr vs, r)) (scanElements n t))
           | LStr \<Rightarrow> map_option (\<lambda>(b, r). (JStr b, r)) (scanString t)
           | LTrue \<Rightarrow> scanLiteral ''true'' (JBool True) (c # t)
           | LFalse \<Rightarrow> scanLiteral ''false'' (JBool False) (c # t)
           | LNull \<Rightarrow> scanLiteral ''null'' JNull (c # t)
           | LNum \<Rightarrow> map_option (\<lambda>(l, r). (JNum l, r)) (scanNumber (c # t))))"
| "scanElements 0 s = None"
| "scanElements (Suc n) s =
     (case scanValue n s of
        None \<Rightarrow> None
      | Some (v, t) \<Rightarrow>
          (case scanSep (CHR '']'') t of
             None \<Rightarrow> None
           | Some (fin, u) \<Rightarrow>
               if fin then Some ([v], u)
               else map_option (\<lambda>(vs, r). (v # vs, r)) (scanElements n u)))"
| "scanMembers 0 s = None"
| "scanMembers (Suc n) s =
     (case scanKey s of
        None \<Rightarrow> None
      | Some (k, t) \<Rightarrow>
          (case scanValue n t of
             None \<Rightarrow> None
           | Some (v, t1) \<Rightarrow>
               (case scanSep (CHR ''}'') t1 of
                  None \<Rightarrow> None
                | Some (fin, u) \<Rightarrow>
                    if fin then Some ([(k, v)], u)
                    else map_option (\<lambda>(ms, r). ((k, v) # ms, r)) (scanMembers n u))))"

text \<open>
  \<open>Decoder.Decode\<close> reads the first value of the input; \<open>json.Unmarshal\<close> wants nothing
  but white space after it.
\<close>

definition decodeValue :: "string \<Rightarrow> json option" where
  "decodeValue s = map_option fst (scanValue (2 * length s + 1) s)"

definition unmarshal :: "string \<Rightarrow> json option" where
  "unmarshal s = (case scanValue (2 * length s + 1) s of
      None \<Rightarrow> None | Some (v, r) \<Rightarrow> if skipWs r = [] then Some v else None)"

section \<open>Printing\<close>

definition indentation :: "nat \<Rightarrow> string" where
  "indentation d = concat (replicate d ''  '')"

definition nl :: string where
  "nl = [CHR 0x0A]"

fun printJson :: "nat \<Rightarrow> json \<Rightarrow> string" where
  "printJson d JNull = ''null''"
| "printJson d (JBool b) = (if b then ''true'' else ''false'')"
| "printJson d (JNum l) = l"
| "printJson d (JStr raw) = CHR 0x22 # raw @ [CHR 0x22]"
| "printJson d (JArr vs) =
     (if vs = [] then ''[]''
      else ''['' @ nl @ joinWith ('','' @ nl)
             (map (\<lambda>v. indentation (Suc d) @ printJson (Suc d) v) vs) @ nl @ indentation d @ '']'')"
| "printJson d (JObj ms) =
     (if ms = [] then ''{}''
      else ''{'' @ nl @ joinWith ('','' @ nl)
             (map (\<lambda>(k, v). indentation (Suc d) @ CHR 0x22 # k @ [CHR 0x22] @ '': '' @ printJson (Suc d) v) ms)
             @ nl @ indentation d @ ''}'')"

section \<open>Fuel\<close>

lemma skipWs_length [simp]: "length (skipWs s) \<le> length s"
  by (simp add: skipWs_def length_dropWhile_le)

lemma scanString_length: "scanString s = Some (b, r) \<Longrightarrow> length r < length s"
  by (induction s arbitrary: b r rule: scanString.induct)
    (fastforce split: if_splits list.splits)+

lemma skipWs_Cons: "skipWs s = c # t \<Longrightarrow> length t < length s"
  using skipWs_length [of s] by simp

lemma digitsPrefix_length: "digitsPrefix s = (ds, u) \<Longrightarrow> length u \<le> length s"
  by (auto simp: digitsPrefix_def length_dropWhile_le)

lemma scanInt_length: "scanInt s = Some (l, r) \<Longrightarrow> length r < length s"
  by (auto simp: scanInt_def digitsPrefix_def length_dropWhile_le le_imp_less_Suc split: list.splits if_splits)

lemma scanFrac_length: "scanFrac s = Some (l, r) \<Longrightarrow> length r \<le> length s"
  by (auto simp: scanFrac_def split: list.splits if_splits prod.splits dest: digitsPrefix_length)

lemma scanExp_length: "scanExp s = Some (l, r) \<Longrightarrow> length r \<le> length s"
  by (auto simp: scanExp_def split: list.splits if_splits prod.splits dest!: digitsPrefix_length)

lemma scanNumber_length: "scanNumber s = Some (l, r) \<Longrightarrow> length r < length s"
  by (fastforce simp: scanNumber_def Let_def split: list.splits if_splits prod.splits option.splits
      dest!: scanInt_length scanFrac_length scanExp_length)

lemma scanLiteral_length: "lit \<noteq> [] \<Longrightarrow> scanLiteral lit v s = Some (w, r) \<Longrightarrow> length r < length s"
  by (auto simp: scanLiteral_def prefix_def split: if_splits)

lemma scanClose_length: "scanClose c s = Some u \<Longrightarrow> length u < length s"
  by (auto simp: scanClose_def split: list.splits if_splits dest: skipWs_Cons)

lemma scanSep_length: "scanSep c s = Some (b, u) \<Longrightarrow> length u < length s"
  by (auto simp: scanSep_def split: list.splits if_splits dest: skipWs_Cons)

lemma scanKey_length: "scanKey s = Some (k, u) \<Longrightarrow> length u < length s"
  by (fastforce simp: scanKey_def split: option.splits dest: scanClose_length scanString_length)

lemma scan_length:
  "scanValue n s = Some (v, r) \<Longrightarrow> length r < length s"
  "scanElements n s = Some (vs, r) \<Longrightarrow> length r < length s"
  "scanMembers n s = Some (ms, r) \<Longrightarrow> length r < length s"
proof (induction n s and n s and n s arbitrary: v r and vs r and ms r
    rule: scanValue_scanElements_scanMembers.induct)
  case (2 n s)
  from "2.prems" obtain c t where ct: "skipWs s = c # t" by (auto split: list.splits)
  then have lt: "length (c # t) \<le> length s" using skipWs_length [of s] by simp
  have "length r < length (c # t)"
    using 2 ct
    by (fastforce split: lead.splits option.splits dest: scanClose_length
        scanString_length scanNumber_length scanLiteral_length [rotated])
  with lt show ?case by simp
next
  case (4 n s)
  then show ?case
    by (fastforce split: option.splits if_splits dest: scanSep_length)
next
  case (6 n s)
  then show ?case
    by (fastforce split: option.splits if_splits dest: scanSep_length scanKey_length)
qed simp_all

lemma scan_mono:
  "scanValue n s = Some p \<Longrightarrow> scanValue (Suc n) s = Some p"
  "scanElements n s = Some q \<Longrightarrow> scanElements (Suc n) s = Some q"
  "scanMembers n s = Some m \<Longrightarrow> scanMembers (Suc n) s = Some m"
proof (induction n s and n s and n s arbitrary: p and q and m
    rule: scanValue_scanElements_scanMembers.induct)
  case (2 n s)
  note eqs = scanValue.simps(2) [of n s] scanValue.simps(2) [of "Suc n" s]
  from 2 show ?case
    by (auto simp: eqs simp del: scanValue.simps scanElements.simps scanMembers.simps
        split: list.splits lead.splits option.splits)
next
  case (4 n s)
  note eqs = scanElements.simps(2) [of n s] scanElements.simps(2) [of "Suc n" s]
  from 4 show ?case
    by (auto simp: eqs simp del: scanValue.simps scanElements.simps scanMembers.simps
        split: if_splits option.splits prod.splits)
next
  case (6 n s)
  note eqs = scanMembers.simps(2) [of n s] scanMembers.simps(2) [of "Suc n" s]
  from "6.prems" obtain k t v t1 fin u where
    a: "scanKey s = Some (k, t)" "scanValue n t = Some (v, t1)" "scanSep (CHR ''}'') t1 = Some (fin, u)"
    by (auto simp: eqs simp del: scanValue.simps scanElements.simps scanMembers.simps
        split: option.splits prod.splits)
  have "scanValue (Suc n) t = Some (v, t1)" using "6.IH"(1) [OF a(1) refl a(2)] .
  with a "6.prems" "6.IH"(2) [OF a(1) refl a(2) refl a(3) refl] show ?case
    by (auto simp: eqs simp del: scanValue.simps scanElements.simps scanMembers.simps
        split: if_splits option.splits)
qed simp_all

lemma scan_fuel:
  "2 * length s < n \<Longrightarrow> scanValue (Suc n) s = scanValue n s"
  "2 * length s + 1 < n \<Longrightarrow> scanElements (Suc n) s = scanElements n s"
  "2 * length s + 1 < n \<Longrightarrow> scanMembers (Suc n) s = scanMembers n s"
proof (induction n s and n s and n s rule: scanValue_scanElements_scanMembers.induct)
  case (2 n s)
  note eqs = scanValue.simps(2) [of n s] scanValue.simps(2) [of "Suc n" s]
  show ?case
  proof (cases "skipWs s")
    case Nil
    then show ?thesis by (simp add: eqs del: scanValue.simps scanElements.simps scanMembers.simps)
  next
    case (Cons c t)
    then have "2 * length t + 1 < n" using skipWs_Cons [OF Cons] "2.prems" by linarith
    with Cons 2 show ?thesis
      by (auto simp: eqs simp del: scanValue.simps scanElements.simps scanMembers.simps
          split: lead.splits option.splits)
  qed
next
  case (4 n s)
  note eqs = scanElements.simps(2) [of n s] scanElements.simps(2) [of "Suc n" s]
  have v: "scanValue (Suc n) s = scanValue n s" using 4 by simp
  have "scanElements (Suc n) u = scanElements n u"
    if "scanValue n s = Some (w, t)" "scanSep (CHR '']'') t = Some (False, u)" for w t u
    using "4.IH"(2) [OF that(1) refl that(2) refl] "4.prems" scan_length(1) [OF that(1)]
      scanSep_length [OF that(2)] by simp
  with v show ?case
    by (auto simp: eqs simp del: scanValue.simps scanElements.simps scanMembers.simps
        split: option.splits)
next
  case (6 n s)
  note eqs = scanMembers.simps(2) [of n s] scanMembers.simps(2) [of "Suc n" s]
  have v: "scanValue (Suc n) t = scanValue n t" if "scanKey s = Some (k, t)" for k t
    using "6.IH"(1) [OF that refl] "6.prems" scanKey_length [OF that] by simp
  have "scanMembers (Suc n) u = scanMembers n u"
    if "scanKey s = Some (k, t)" "scanValue n t = Some (w, t1)"
      "scanSep (CHR ''}'') t1 = Some (False, u)" for k t w t1 u
    using "6.IH"(2) [OF that(1) refl that(2) refl that(3) refl] "6.prems" scanKey_length [OF that(1)]
      scan_length(1) [OF that(2)] scanSep_length [OF that(3)] by simp
  with v show ?case
    by (auto simp: eqs simp del: scanValue.simps scanElements.simps scanMembers.simps
        split: option.splits)
qed simp_all

declare scanValue.simps [simp del] scanElements.simps [simp del] scanMembers.simps [simp del]

text \<open>A value scans at some fuel exactly when it scans at twice the length of the text.\<close>

definition scans :: "string \<Rightarrow> json \<Rightarrow> string \<Rightarrow> bool" where
  "scans s v r = (\<exists>n. scanValue n s = Some (v, r))"

lemma scanValue_le: "scanValue n s = Some p \<Longrightarrow> n \<le> m \<Longrightarrow> scanValue m s = Some p"
  by (induction m) (auto simp: le_Suc_eq scan_mono(1))

lemma scanElements_le: "scanElements n s = Some p \<Longrightarrow> n \<le> m \<Longrightarrow> scanElements m s = Some p"
  by (induction m) (auto simp: le_Suc_eq scan_mono(2))

lemma scanMembers_le: "scanMembers n s = Some p \<Longrightarrow> n \<le> m \<Longrightarrow> scanMembers m s = Some p"
  by (induction m) (auto simp: le_Suc_eq scan_mono(3))

lemma scanValue_enough: "2 * length s < n \<Longrightarrow> scanValue (n + k) s = scanValue n s"
  by (induction k) (simp_all add: scan_fuel(1))

lemma scans_decode:
  assumes "scans s v r" shows "scanValue (2 * length s + 1) s = Some (v, r)"
proof -
  from assms obtain n where n: "scanValue n s = Some (v, r)" by (auto simp: scans_def)
  then have "scanValue (2 * length s + 1 + n) s = Some (v, r)" by (rule scanValue_le) simp
  then show ?thesis by (simp only: scanValue_enough [of s "2 * length s + 1" n] less_add_one)
qed

section \<open>Quoting and unquoting\<close>

lemma encodeRune_high: "0x80 \<le> r \<Longrightarrow> c \<in> set (encodeRune r) \<Longrightarrow> 0x80 \<le> byte_of c"
  by (auto simp: encodeRune_def Let_def byte_of_chr valid_rune_def runeError_def split: if_splits)

lemma scanString_high:
  "\<forall>c \<in> set bs. 0x80 \<le> byte_of c \<Longrightarrow>
   scanString (bs @ t) = map_option (\<lambda>(b, r). (bs @ b, r)) (scanString t)"
proof (induction bs)
  case (Cons c bs)
  then have "c \<noteq> CHR 0x22" "c \<noteq> CHR 0x5C" "\<not> byte_of c < 0x20" by (auto simp: byte_of_def)
  with Cons show ?case by (simp add: option.map_comp comp_def split_beta)
qed (cases "scanString t"; auto)

lemma hexChar_hex [simp]: "n < 16 \<Longrightarrow> isHex (hexChar n)" "n < 16 \<Longrightarrow> hexVal (hexChar n) = n"
  by (auto simp: isHex_def hexVal_def hexChar_def isDigit_def byte_of_chr)

lemma isHex_zero [simp]: "isHex CHR ''0''" "hexVal CHR ''0'' = 0"
  by (simp_all add: isHex_def hexVal_def isDigit_def byte_of_def)

lemma scanString_quoteAscii:
  "scanString (quoteAscii c @ t) = map_option (\<lambda>(b, r). (quoteAscii c @ b, r)) (scanString t)"
proof -
  have "byte_of c div 16 < 16" "byte_of c mod 16 < 16"
    using less_mult_imp_div_less [of "byte_of c" 16 16] by simp_all
  then show ?thesis by (auto simp: quoteAscii_def)
qed

lemma scanString_ufff:
  "scanString (CHR 0x5C # CHR ''u'' # h1 # h2 # h3 # h4 # t) =
     map_option (\<lambda>(b, r). (CHR 0x5C # CHR ''u'' # h1 # h2 # h3 # h4 # b, r)) (scanString t)"
  if "isHex h1" "isHex h2" "isHex h3" "isHex h4"
  using that by simp

lemma isHex_lits [simp]:
  "isHex CHR ''f''" "isHex CHR ''d''" "isHex CHR ''2''" "isHex CHR ''8''" "isHex CHR ''9''"
  by (simp_all add: isHex_def isDigit_def byte_of_def)

lemma scanString_quoteRune:
  "scanString (quoteRune r @ t) = map_option (\<lambda>(b, x). (quoteRune r @ b, x)) (scanString t)"
proof (cases r)
  case None
  then show ?thesis by (simp add: quoteRune_def)
next
  case (Some x)
  then show ?thesis
    using scanString_high [of "encodeRune x" t] encodeRune_high [of x]
    by (auto simp: quoteRune_def scanString_quoteAscii)
qed

definition rawString :: "string \<Rightarrow> bool" where
  "rawString raw = (\<forall>rest. scanString (raw @ CHR 0x22 # rest) = Some (raw, rest))"

lemma rawString_quote: "rawString (quote s)"
proof -
  have "scanString (concat (map quoteRune rs) @ CHR 0x22 # rest) = Some (concat (map quoteRune rs), rest)"
    for rs rest
    by (induction rs) (simp_all add: scanString_quoteRune)
  then show ?thesis by (simp add: rawString_def quote_def)
qed

lemma getu4_other: "c \<noteq> CHR 0x5C \<Longrightarrow> getu4 (c # s) = None"
  by (simp add: getu4_def split: list.splits)

lemma getu4_escape: "e \<noteq> CHR ''u'' \<Longrightarrow> getu4 (CHR 0x5C # e # s) = None"
  by (auto simp: getu4_def split: list.splits)

lemma getu4_hex: "isHex a \<Longrightarrow> isHex b \<Longrightarrow> isHex c \<Longrightarrow> isHex d \<Longrightarrow>
    getu4 (CHR 0x5C # CHR ''u'' # a # b # c # d # s) = Some (hex4 a b c d)"
  by (simp add: getu4_def)

declare unquote.simps(2) [simp del]

lemma unquote_u:
  assumes "isHex a" "isHex b" "isHex c" "isHex d" "\<not> isSurrogate (hex4 a b c d)"
  shows "unquote (CHR 0x5C # CHR ''u'' # a # b # c # d # s) = encodeRune (hex4 a b c d) @ unquote s"
  using assms by (simp add: unquote.simps(2) getu4_hex)

lemma unquote_escape:
  "e \<noteq> CHR ''u'' \<Longrightarrow> unquote (CHR 0x5C # e # s) = unescape e # unquote s"
  by (simp add: unquote.simps(2) getu4_escape)

lemma unquote_rune:
  assumes "valid_rune x" "x \<noteq> 0x5C"
  shows "unquote (encodeRune x @ s) = encodeRune x @ unquote s"
proof -
  obtain c t where e: "encodeRune x @ s = c # t"
    by (metis append_is_Nil_conv encodeRune_nonempty list.exhaust)
  have d: "decodeRune (c # t) = (Some x, s)" using decodeRune_encodeRune [OF assms(1), of s] e by simp
  have "c \<noteq> CHR 0x5C"
  proof
    assume c: "c = CHR 0x5C"
    then have "decodeRune (c # t) = (Some 0x5C, t)" by (simp add: byte_of_def)
    with d assms(2) show False by simp
  qed
  with d show ?thesis unfolding e by (simp add: unquote.simps(2) getu4_other)
qed

lemma unquote_quoteAscii:
  assumes "byte_of c < 0x80"
  shows "unquote (quoteAscii c @ s) = c # unquote s"
proof -
  have enc: "encodeRune (byte_of c) = [c]" using assms by (simp add: encodeRune_def valid_rune_def)
  have h: "hex4 CHR ''0'' CHR ''0'' (hexChar (byte_of c div 16)) (hexChar (byte_of c mod 16)) = byte_of c"
    using assms by (simp add: hex4_def)
  have hx: "isHex (hexChar (byte_of c div 16))" "isHex (hexChar (byte_of c mod 16))"
    using assms by simp_all
  have sur: "\<not> isSurrogate (byte_of c)" using assms by (simp add: isSurrogate_def)
  have plain: "c \<noteq> CHR 0x5C \<Longrightarrow> unquote (c # s) = c # unquote s"
  proof -
    assume "c \<noteq> CHR 0x5C"
    moreover have "byte_of (CHR 0x5C) = 0x5C" by (simp add: byte_of_def)
    ultimately have "byte_of c \<noteq> 0x5C" by (metis chr_byte_of)
    then show ?thesis using unquote_rune [of "byte_of c" s] assms enc by (simp add: valid_rune_def)
  qed
  have u: "unquote (CHR 0x5C # CHR ''u'' # CHR ''0'' # CHR ''0'' # hexChar (byte_of c div 16)
      # hexChar (byte_of c mod 16) # s) = c # unquote s"
    using unquote_u [OF _ _ hx, of "CHR ''0''" "CHR ''0''" s] h sur enc by simp
  have named: "byte_of c = 8 \<Longrightarrow> chr 8 = c" "byte_of c = 12 \<Longrightarrow> chr 12 = c"
    "byte_of c = 10 \<Longrightarrow> chr 10 = c" "byte_of c = 13 \<Longrightarrow> chr 13 = c" "byte_of c = 9 \<Longrightarrow> chr 9 = c"
    by (metis chr_byte_of)+
  have q: "c = CHR 0x22 \<or> c = CHR 0x5C \<Longrightarrow> unquote (CHR 0x5C # c # s) = c # unquote s"
    by (auto simp: unquote_escape unescape_def)
  show ?thesis
    unfolding quoteAscii_def using u plain q named
    by (simp add: unquote_escape unescape_def split: if_split)
qed

lemma unquote_quoteRune:
  assumes "\<And>x. r = Some x \<Longrightarrow> valid_rune x"
  shows "unquote (quoteRune r @ s) = encodeRune (case r of None \<Rightarrow> runeError | Some x \<Rightarrow> x) @ unquote s"
proof (cases r)
  case None
  have "hex4 CHR ''f'' CHR ''f'' CHR ''f'' CHR ''d'' = runeError"
    by (simp add: hex4_def hexVal_def isDigit_def byte_of_def runeError_def)
  with None show ?thesis
    using unquote_u [of "CHR ''f''" "CHR ''f''" "CHR ''f''" "CHR ''d''" s]
    by (simp add: quoteRune_def isSurrogate_def runeError_def)
next
  case (Some x)
  have h: "hex4 CHR ''2'' CHR ''0'' CHR ''2'' CHR ''8'' = 0x2028"
    "hex4 CHR ''2'' CHR ''0'' CHR ''2'' CHR ''9'' = 0x2029"
    by (simp_all add: hex4_def hexVal_def isDigit_def byte_of_def)
  have ascii: "x < 0x80 \<Longrightarrow> encodeRune x = [chr x]" "x < 0x80 \<Longrightarrow> byte_of (chr x) = x"
    by (simp_all add: encodeRune_def valid_rune_def byte_of_chr)
  show ?thesis
    using Some assms [OF Some] ascii unquote_rune [of x s] unquote_quoteAscii [of "chr x" s]
      unquote_u [of "CHR ''2''" "CHR ''0''" "CHR ''2''" "CHR ''8''" s]
      unquote_u [of "CHR ''2''" "CHR ''0''" "CHR ''2''" "CHR ''9''" s] h
    by (auto simp: quoteRune_def isSurrogate_def)
qed

text \<open>A string that is written and read back has its ill-formed bytes replaced by U+FFFD.\<close>

lemma unquote_quote: "unquote (quote s) = sanitize s"
proof -
  have "unquote (concat (map quoteRune rs)) = encodeRunes (map (\<lambda>r. case r of None \<Rightarrow> runeError | Some x \<Rightarrow> x) rs)"
    if "\<forall>x. Some x \<in> set rs \<longrightarrow> valid_rune x" for rs
    using that by (induction rs) (simp_all add: unquote_quoteRune)
  then show ?thesis using runes_opt_valid [of _ s] by (simp add: quote_def sanitize_def runes_def)
qed

corollary unquote_quote_valid: "validString s \<Longrightarrow> unquote (quote s) = s"
  by (simp add: unquote_quote sanitize_valid)

section \<open>Printed values scan back\<close>

definition stops :: "string \<Rightarrow> bool" where
  "stops s = (case s of [] \<Rightarrow> True | c # _ \<Rightarrow> c \<in> {CHR '','', CHR ''}'', CHR '']'', CHR 0x0A})"

definition numLit :: "string \<Rightarrow> bool" where
  "numLit l = (l \<noteq> [] \<and> (hd l = CHR ''-'' \<or> isDigit (hd l)) \<and>
     (\<forall>rest. stops rest \<longrightarrow> scanNumber (l @ rest) = Some (l, rest)))"

fun wfJson :: "json \<Rightarrow> bool" where
  "wfJson (JNum l) = numLit l"
| "wfJson (JStr raw) = rawString raw"
| "wfJson (JArr vs) = (\<forall>v \<in> set vs. wfJson v)"
| "wfJson (JObj ms) = (\<forall>m \<in> set ms. rawString (fst m) \<and> wfJson (snd m))"
| "wfJson _ = True"

lemma skipWs_nl [simp]: "skipWs (nl @ s) = skipWs s"
  by (simp add: nl_def skipWs_def isWs_def)

lemma skipWs_indent [simp]: "skipWs (indentation d @ s) = skipWs s"
  by (induction d) (simp_all add: indentation_def skipWs_def isWs_def)

lemma skipWs_id: "s \<noteq> [] \<Longrightarrow> \<not> isWs (hd s) \<Longrightarrow> skipWs s = s"
  by (cases s) (simp_all add: skipWs_def)

lemma skipWs_idem [simp]: "skipWs (skipWs s) = skipWs s"
  by (simp add: skipWs_def)

lemma scanValue_skip: "skipWs s = skipWs t \<Longrightarrow> scanValue n s = scanValue n t"
  by (cases n) (simp_all add: scanValue.simps)

lemma scanClose_skip: "skipWs s = skipWs t \<Longrightarrow> scanClose c s = scanClose c t"
  by (simp add: scanClose_def)

lemma stops_nl [simp]: "stops (nl @ s)"
  by (simp add: stops_def nl_def)

lemma stops_comma [simp]: "stops (CHR '','' # s)"
  by (simp add: stops_def)

lemma scansI: "scanValue n s = Some (v, r) \<Longrightarrow> scans s v r"
  by (auto simp: scans_def)

lemma scans_skip: "skipWs s = skipWs t \<Longrightarrow> scans s v r = scans t v r"
  by (simp add: scans_def scanValue_skip [of s t])

text \<open>How a list of elements, and one of members, is laid out.\<close>

definition elementText :: "nat \<Rightarrow> json \<Rightarrow> string" where
  "elementText d v = indentation d @ printJson d v"

definition memberText :: "nat \<Rightarrow> string \<times> json \<Rightarrow> string" where
  "memberText d m = indentation d @ CHR 0x22 # fst m @ [CHR 0x22] @ '': '' @ printJson d (snd m)"

lemma scanSep_comma: "scanSep c (CHR '','' # s) = Some (False, s)" if "c \<noteq> CHR '',''"
  using that by (simp add: scanSep_def skipWs_def isWs_def)

lemma scanSep_close: "c \<in> {CHR '']'', CHR ''}''} \<Longrightarrow> scanSep c (nl @ indentation d @ c # s) = Some (True, s)"
  by (auto simp: scanSep_def) (simp_all add: skipWs_def isWs_def)

lemma scanElements_print:
  assumes "vs \<noteq> []" "\<And>v rest. v \<in> set vs \<Longrightarrow> stops rest \<Longrightarrow> scans (printJson (Suc d) v @ rest) v rest"
  shows "\<exists>n. scanElements n (joinWith ('','' @ nl) (map (elementText (Suc d)) vs)
    @ nl @ indentation d @ CHR '']'' # rest) = Some (vs, rest)"
  using assms
proof (induction vs)
  case (Cons v vs)
  let ?close = "nl @ indentation d @ CHR '']'' # rest"
  have step: "\<exists>n. scanValue n (elementText (Suc d) v @ r) = Some (v, r)" if "stops r" for r
    using Cons.prems(2) [of v r] that
    by (simp add: scans_def elementText_def scanValue_skip [of "indentation _ @ _ @ r" "_ @ r"])
  show ?case
  proof (cases "vs = []")
    case True
    obtain n where "scanValue n (elementText (Suc d) v @ ?close) = Some (v, ?close)"
      using step [of ?close] by auto
    then have "scanElements (Suc n) (elementText (Suc d) v @ ?close) = Some ([v], rest)"
      by (simp add: scanElements.simps scanSep_close)
    with True show ?thesis by auto
  next
    case False
    let ?tail = "joinWith ('','' @ nl) (map (elementText (Suc d)) vs) @ ?close"
    obtain n where n: "scanElements n ?tail = Some (vs, rest)"
      using Cons.IH [OF False] Cons.prems(2) by auto
    obtain m where m: "scanValue m (elementText (Suc d) v @ CHR '','' # nl @ ?tail)
        = Some (v, CHR '','' # nl @ ?tail)"
      using step [of "CHR '','' # nl @ ?tail"] by auto
    have skip: "scanElements k (nl @ t) = scanElements k t" for k t
      by (cases k) (simp_all add: scanElements.simps scanValue_skip [of "nl @ t" t])
    have "scanElements (Suc (max m n)) (elementText (Suc d) v @ CHR '','' # nl @ ?tail) = Some (v # vs, rest)"
      using scanValue_le [OF m, of "max m n"] scanElements_le [OF n, of "max m n"]
      by (simp add: scanElements.simps scanSep_comma skip)
    moreover have "joinWith ('','' @ nl) (map (elementText (Suc d)) (v # vs)) @ ?close
        = elementText (Suc d) v @ CHR '','' # nl @ ?tail"
      using False by (cases vs) simp_all
    ultimately show ?thesis by metis
  qed
qed simp

lemma scanMembers_print:
  assumes "ms \<noteq> []" "\<And>m. m \<in> set ms \<Longrightarrow> rawString (fst m)"
    "\<And>m rest. m \<in> set ms \<Longrightarrow> stops rest \<Longrightarrow> scans (printJson (Suc d) (snd m) @ rest) (snd m) rest"
  shows "\<exists>n. scanMembers n (joinWith ('','' @ nl) (map (memberText (Suc d)) ms)
    @ nl @ indentation d @ CHR ''}'' # rest) = Some (ms, rest)"
  using assms
proof (induction ms)
  case (Cons m ms)
  let ?close = "nl @ indentation d @ CHR ''}'' # rest"
  have key: "scanKey (memberText (Suc d) m @ r) = Some (fst m, CHR '' '' # printJson (Suc d) (snd m) @ r)" for r
  proof -
    have "scanClose (CHR 0x22) (memberText (Suc d) m @ r)
        = Some (fst m @ CHR 0x22 # CHR '':'' # CHR '' '' # printJson (Suc d) (snd m) @ r)"
      by (simp add: scanClose_def memberText_def) (simp add: skipWs_def isWs_def)
    moreover have "scanString (fst m @ CHR 0x22 # t) = Some (fst m, t)" for t
      using Cons.prems(2) [of m] by (simp add: rawString_def)
    ultimately show ?thesis by (simp add: scanKey_def scanClose_def skipWs_def isWs_def)
  qed
  have sp: "skipWs (CHR '' '' # t) = skipWs t" for t by (simp add: skipWs_def isWs_def)
  have step: "\<exists>n. scanValue n (CHR '' '' # printJson (Suc d) (snd m) @ r) = Some (snd m, r)" if "stops r" for r
    using Cons.prems(3) [of m r] that by (simp add: scans_def scanValue_skip [OF sp])
  have skip: "scanMembers k (nl @ t) = scanMembers k t" for k t
    by (cases k) (simp_all add: scanMembers.simps scanKey_def scanClose_skip [of "nl @ t" t])
  show ?case
  proof (cases "ms = []")
    case True
    obtain n where "scanValue n (CHR '' '' # printJson (Suc d) (snd m) @ ?close) = Some (snd m, ?close)"
      using step [of ?close] by auto
    then have "scanMembers (Suc n) (memberText (Suc d) m @ ?close) = Some ([m], rest)"
      by (simp add: scanMembers.simps scanSep_close key)
    with True show ?thesis by auto
  next
    case False
    let ?tail = "joinWith ('','' @ nl) (map (memberText (Suc d)) ms) @ ?close"
    obtain n where n: "scanMembers n ?tail = Some (ms, rest)"
      using Cons.IH [OF False] Cons.prems(2,3) by auto
    obtain j where j: "scanValue j (CHR '' '' # printJson (Suc d) (snd m) @ CHR '','' # nl @ ?tail)
        = Some (snd m, CHR '','' # nl @ ?tail)"
      using step [of "CHR '','' # nl @ ?tail"] by auto
    have "scanMembers (Suc (max j n)) (memberText (Suc d) m @ CHR '','' # nl @ ?tail) = Some (m # ms, rest)"
      using scanValue_le [OF j, of "max j n"] scanMembers_le [OF n, of "max j n"]
      by (simp add: scanMembers.simps scanSep_comma skip key)
    moreover have "joinWith ('','' @ nl) (map (memberText (Suc d)) (m # ms)) @ ?close
        = memberText (Suc d) m @ CHR '','' # nl @ ?tail"
      using False by (cases ms) simp_all
    ultimately show ?thesis by metis
  qed
qed simp

lemma printJson_Arr: "vs \<noteq> [] \<Longrightarrow> printJson d (JArr vs) =
    ''['' @ nl @ joinWith ('','' @ nl) (map (elementText (Suc d)) vs) @ nl @ indentation d @ '']''"
proof -
  have "(\<lambda>v. indentation (Suc d) @ printJson (Suc d) v) = elementText (Suc d)"
    by (simp add: elementText_def fun_eq_iff)
  then show "vs \<noteq> [] \<Longrightarrow> ?thesis" by simp
qed

lemma printJson_Obj: "ms \<noteq> [] \<Longrightarrow> printJson d (JObj ms) =
    ''{'' @ nl @ joinWith ('','' @ nl) (map (memberText (Suc d)) ms) @ nl @ indentation d @ ''}''"
proof -
  have "(\<lambda>(k, v). indentation (Suc d) @ CHR 0x22 # k @ [CHR 0x22] @ '': '' @ printJson (Suc d) v)
      = memberText (Suc d)"
    by (simp add: memberText_def fun_eq_iff)
  then show "ms \<noteq> [] \<Longrightarrow> ?thesis" by simp
qed

lemma isDigit_lead: "c = CHR ''-'' \<or> isDigit c \<Longrightarrow> leadOf c = LNum \<and> \<not> isWs c \<and> c \<noteq> CHR '']''"
proof -
  have lits: "\<not> isDigit (CHR ''{'')" "\<not> isDigit (CHR ''['')" "\<not> isDigit (CHR 0x22)"
    "\<not> isDigit (CHR ''t'')" "\<not> isDigit (CHR ''f'')" "\<not> isDigit (CHR ''n'')" "\<not> isDigit (CHR '' '')"
    "\<not> isDigit (CHR 9)" "\<not> isDigit (CHR 10)" "\<not> isDigit (CHR 13)" "\<not> isDigit (CHR '']'')"
    by (simp_all add: isDigit_def byte_of_def)
  assume "c = CHR ''-'' \<or> isDigit c"
  then show ?thesis using lits by (fastforce simp: leadOf_def isWs_def)
qed

lemma printJson_first:
  "wfJson v \<Longrightarrow> \<exists>c t. printJson d v = c # t \<and> \<not> isWs c \<and> c \<noteq> CHR '']''"
proof (cases v)
  case (JNum l)
  then show "wfJson v \<Longrightarrow> ?thesis"
    using isDigit_lead [of "hd l"] by (cases l) (auto simp: numLit_def)
qed (auto simp: isWs_def)

lemma joinWith_first: "\<exists>t. joinWith sep (x # xs) = x @ t"
  by (cases xs) auto

lemma scanClose_first:
  "\<not> isWs c \<Longrightarrow> c \<noteq> e \<Longrightarrow> scanClose e (nl @ indentation d @ c # t) = None"
  by (simp add: scanClose_def) (simp add: skipWs_def)

lemma scanClose_elements:
  assumes "vs \<noteq> []" "\<forall>v \<in> set vs. wfJson v"
  shows "scanClose (CHR '']'') (nl @ joinWith sep (map (elementText (Suc d)) vs) @ r) = None"
proof -
  obtain v ws where vs: "vs = v # ws" using assms(1) by (cases vs) auto
  obtain t where "joinWith sep (map (elementText (Suc d)) vs) = elementText (Suc d) v @ t"
    using joinWith_first [of sep "elementText (Suc d) v"] vs by auto
  moreover obtain c u where "printJson (Suc d) v = c # u" "\<not> isWs c" "c \<noteq> CHR '']''"
    using printJson_first [of v "Suc d"] assms(2) vs by auto
  ultimately show ?thesis by (simp add: elementText_def scanClose_first)
qed

lemma scanClose_members:
  assumes "ms \<noteq> []"
  shows "scanClose (CHR ''}'') (nl @ joinWith sep (map (memberText (Suc d)) ms) @ r) = None"
proof -
  obtain m ns where ms: "ms = m # ns" using assms by (cases ms) auto
  obtain t where "joinWith sep (map (memberText (Suc d)) ms) = memberText (Suc d) m @ t"
    using joinWith_first [of sep "memberText (Suc d) m"] ms by auto
  then show ?thesis by (simp add: memberText_def scanClose_first isWs_def)
qed

lemma scanElements_skip: "skipWs s = skipWs t \<Longrightarrow> scanElements n s = scanElements n t"
  by (cases n) (simp_all only: scanElements.simps scanValue_skip [of s t])

lemma scanMembers_skip: "skipWs s = skipWs t \<Longrightarrow> scanMembers n s = scanMembers n t"
  by (cases n) (simp_all add: scanMembers.simps scanKey_def scanClose_skip [of s t])

lemma skipWs_open: "skipWs (CHR ''['' # t) = CHR ''['' # t" "skipWs (CHR ''{'' # t) = CHR ''{'' # t"
  by (simp_all add: skipWs_def isWs_def)

lemma lead_open: "leadOf (CHR ''['') = LArr" "leadOf (CHR ''{'') = LObj"
  by (simp_all add: leadOf_def)

text \<open>The main lemma: a printed value scans back, and the scan stops where the text of the value ends.\<close>

lemma scans_print: "wfJson v \<Longrightarrow> stops rest \<Longrightarrow> scans (printJson d v @ rest) v rest"
proof (induction v arbitrary: d rest)
  case (JNum l)
  then have "scanValue 1 (l @ rest) = Some (JNum l, rest)"
    using isDigit_lead [of "hd l"] by (cases l) (auto simp: scanValue.simps numLit_def skipWs_def)
  then show ?case by (auto intro: scansI)
next
  case (JStr raw)
  then have "scanValue 1 (printJson d (JStr raw) @ rest) = Some (JStr raw, rest)"
    by (simp add: scanValue.simps skipWs_def isWs_def leadOf_def rawString_def)
  then show ?case by (rule scansI)
next
  case (JArr vs)
  show ?case
  proof (cases "vs = []")
    case True
    have "scanValue 1 (''[]'' @ rest) = Some (JArr [], rest)"
      by (simp add: scanValue.simps skipWs_def isWs_def leadOf_def scanClose_def)
    with True show ?thesis by (auto intro: scansI)
  next
    case False
    let ?text = "joinWith ('','' @ nl) (map (elementText (Suc d)) vs) @ nl @ indentation d @ CHR '']'' # rest"
    have sc: "scans (printJson (Suc d) v @ r) v r" if "v \<in> set vs" "stops r" for v r
      using JArr that by simp
    obtain n where n: "scanElements n ?text = Some (vs, rest)"
      using scanElements_print [OF False sc] by blast
    have "scanClose (CHR '']'') (nl @ ?text) = None"
      using scanClose_elements [OF False] JArr.prems(1) by simp
    then have "scanValue (Suc n) (CHR ''['' # nl @ ?text) = Some (JArr vs, rest)"
      using n scanElements_skip [of "nl @ ?text" ?text]
      by (simp add: scanValue.simps skipWs_open lead_open)
    then show ?thesis using False by (auto simp: printJson_Arr simp del: printJson.simps intro: scansI)
  qed
next
  case (JObj ms)
  show ?case
  proof (cases "ms = []")
    case True
    have "scanValue 1 (''{}'' @ rest) = Some (JObj [], rest)"
      by (simp add: scanValue.simps skipWs_def isWs_def leadOf_def scanClose_def)
    with True show ?thesis by (auto intro: scansI)
  next
    case False
    let ?text = "joinWith ('','' @ nl) (map (memberText (Suc d)) ms) @ nl @ indentation d @ CHR ''}'' # rest"
    have sc: "scans (printJson (Suc d) (snd m) @ r) (snd m) r" if "m \<in> set ms" "stops r" for m r
      using JObj.IH [of m "snd m" r "Suc d"] JObj.prems that by (simp add: snds.simps)
    have raw: "rawString (fst m)" if "m \<in> set ms" for m using JObj.prems(1) that by simp
    obtain n where n: "scanMembers n ?text = Some (ms, rest)"
      using scanMembers_print [OF False raw sc] by blast
    have "scanClose (CHR ''}'') (nl @ ?text) = None" by (rule scanClose_members [OF False])
    then have "scanValue (Suc n) (CHR ''{'' # nl @ ?text) = Some (JObj ms, rest)"
      using n scanMembers_skip [of "nl @ ?text" ?text]
      by (simp add: scanValue.simps skipWs_open lead_open)
    then show ?thesis using False by (auto simp: printJson_Obj simp del: printJson.simps intro: scansI)
  qed
qed (auto simp: scans_def skipWs_def isWs_def leadOf_def scanLiteral_def scanValue.simps intro!: exI [of _ 1])

lemma decodeValue_print: "wfJson v \<Longrightarrow> stops rest \<Longrightarrow> decodeValue (printJson 0 v @ rest) = Some v"
  using scans_decode [OF scans_print [of v rest 0]] by (simp add: decodeValue_def)

end
