(* ===== verification/Errors.thy ===== *)
theory Errors
  imports GoTime
begin

text \<open>
  The error values of the program. An error that is only created and shown is
  \<open>Errorf\<close> with the format string of the source and its arguments; the errors the code
  tests for have constructors of their own; \<open>Wrapped\<close> is \<open>fmt.Errorf("...: %w", err)\<close>,
  through which \<open>errors.Is\<close> and \<open>errors.As\<close> look.
\<close>

type_synonym signal = nat

datatype arg = Str string | Num int | Dur duration | Sig signal

datatype goerr =
    Errorf string "arg list"
  | LockOwnershipLost
  | Interrupted signal string
  | ExitError int "signal option"
  | ContextCanceled
  | NotExist
  | NotDir
  | OSError
  | JSONError
  | ErrHelp
  | ExecNotFound
  | Wrapped string "arg list" goerr

abbreviation errorString :: "string \<Rightarrow> goerr" where
  "errorString m \<equiv> Errorf m []"

text \<open>\<open>errors.Is(err, errLockOwnershipLost)\<close>.\<close>

fun isOwnershipLost :: "goerr \<Rightarrow> bool" where
  "isOwnershipLost LockOwnershipLost = True"
| "isOwnershipLost (Wrapped _ _ e) = isOwnershipLost e"
| "isOwnershipLost _ = False"

text \<open>\<open>errors.As(err, &interruptedError)\<close>: the signal.\<close>

fun asInterrupted :: "goerr \<Rightarrow> signal option" where
  "asInterrupted (Interrupted s _) = Some s"
| "asInterrupted (Wrapped _ _ e) = asInterrupted e"
| "asInterrupted _ = None"

text \<open>\<open>errors.As(err, &exitError)\<close>: the exit code, negative when a signal ended the command.\<close>

fun asExitError :: "goerr \<Rightarrow> (int \<times> signal option) option" where
  "asExitError (ExitError c s) = Some (c, s)"
| "asExitError (Wrapped _ _ e) = asExitError e"
| "asExitError _ = None"

fun isNotExist :: "goerr \<Rightarrow> bool" where
  "isNotExist NotExist = True"
| "isNotExist (Wrapped _ _ e) = isNotExist e"
| "isNotExist _ = False"

fun isNotDir :: "goerr \<Rightarrow> bool" where
  "isNotDir NotDir = True"
| "isNotDir (Wrapped _ _ e) = isNotDir e"
| "isNotDir _ = False"

text \<open>\<open>errors.Is\<close> with \<open>flag.ErrHelp\<close> and with \<open>exec.ErrNotFound\<close>.\<close>

fun isErrHelp :: "goerr \<Rightarrow> bool" where
  "isErrHelp ErrHelp = True"
| "isErrHelp (Wrapped _ _ e) = isErrHelp e"
| "isErrHelp _ = False"

fun isExecNotFound :: "goerr \<Rightarrow> bool" where
  "isExecNotFound ExecNotFound = True"
| "isExecNotFound (Wrapped _ _ e) = isExecNotFound e"
| "isExecNotFound _ = False"

text \<open>Rclone exits with 3 for a missing directory and with 4 for a missing file.\<close>

definition isRcloneNotFound :: "goerr \<Rightarrow> bool" where
  "isRcloneNotFound err = (case asExitError err of
      None \<Rightarrow> False | Some (code, _) \<Rightarrow> code = 3 \<or> code = 4)"

definition commandError :: "goerr \<Rightarrow> string \<Rightarrow> goerr" where
  "commandError err output =
     (let message = trimSpace output
      in if message \<noteq> [] then Wrapped ''%w: %s'' [Str message] err else err)"

lemma commandError_transparent [simp]:
  "isOwnershipLost (commandError e s) = isOwnershipLost e"
  "isRcloneNotFound (commandError e s) = isRcloneNotFound e"
  "asInterrupted (commandError e s) = asInterrupted e"
  by (simp_all add: commandError_def isRcloneNotFound_def Let_def)

end
