(* ===== verification/StateFile.thy ===== *)
theory StateFile
  imports Json Errors
begin

text \<open>
  The state file of src/syncstate.go: its data, the comparisons the lock protocol rests on,
  and the codec, which works on the bytes of the file (\<open>encodeSyncFile\<close>,
  \<open>decodeSyncFile\<close>, and the local variant that \<open>writeLocalSyncFile\<close> marshals, which
  always holds the session marker). The interface the protocol needs of a codec is the
  locale \<open>state_codec\<close>; both codecs interpret it.
\<close>

record syncFileLock =
  Owner :: string
  Timestamp :: gotime
  TTL :: duration

record syncFileData =
  RepositoryID :: string
  Generation :: u64
  SyncID :: string
  Syncing :: bool
  Active :: bool
  Lock :: "syncFileLock option"

definition zeroData :: syncFileData where
  "zeroData = \<lparr>RepositoryID = [], Generation = 0, SyncID = [], Syncing = False, Active = False, Lock = None\<rparr>"

definition zeroLock :: syncFileLock where
  "zeroLock = \<lparr>Owner = [], Timestamp = zeroTime, TTL = 0\<rparr>"

section \<open>Comparisons\<close>

definition sameLock :: "syncFileLock option \<Rightarrow> syncFileLock option \<Rightarrow> bool" where
  "sameLock left right = (case (left, right) of
      (Some l, Some r) \<Rightarrow> Owner l = Owner r \<and> timeEqual (Timestamp l) (Timestamp r) \<and> TTL l = TTL r
    | (None, None) \<Rightarrow> True
    | _ \<Rightarrow> False)"

definition sameSyncFileData :: "syncFileData \<Rightarrow> syncFileData \<Rightarrow> bool" where
  "sameSyncFileData left right =
     (RepositoryID left = RepositoryID right \<and> Generation left = Generation right
      \<and> SyncID left = SyncID right \<and> Syncing left = Syncing right \<and> sameLock (Lock left) (Lock right))"

text \<open>A lock without a positive TTL falls back to the TTL of this process.\<close>

definition ttl :: "syncFileLock option \<Rightarrow> duration \<Rightarrow> duration" where
  "ttl l fallback = (case l of None \<Rightarrow> fallback | Some k \<Rightarrow> if TTL k \<le> 0 then fallback else TTL k)"

lemma timeEqual_refl [simp]: "timeEqual t t"
  by (simp add: timeEqual_def)

lemma timeEqual_sym: "timeEqual s t \<longleftrightarrow> timeEqual t s"
  by (auto simp: timeEqual_def)

lemma timeEqual_trans: "timeEqual s t \<Longrightarrow> timeEqual t u \<Longrightarrow> timeEqual s u"
  by (simp add: timeEqual_def)

lemma sameLock_refl [simp]: "sameLock l l"
  by (simp add: sameLock_def split: option.splits)

lemma sameLock_sym: "sameLock l r \<longleftrightarrow> sameLock r l"
  by (auto simp: sameLock_def timeEqual_sym split: option.splits)

lemma sameLock_trans: "sameLock a b \<Longrightarrow> sameLock b c \<Longrightarrow> sameLock a c"
  by (auto simp: sameLock_def split: option.splits elim: timeEqual_trans)

lemma sameLock_None [simp]: "sameLock None l \<longleftrightarrow> l = None" "sameLock l None \<longleftrightarrow> l = None"
  by (simp_all add: sameLock_def split: option.splits)

lemma sameSyncFileData_refl [simp]: "sameSyncFileData d d"
  by (simp add: sameSyncFileData_def)

lemma sameSyncFileData_sym: "sameSyncFileData a b \<longleftrightarrow> sameSyncFileData b a"
  by (auto simp: sameSyncFileData_def sameLock_sym)

lemma sameSyncFileData_trans: "sameSyncFileData a b \<Longrightarrow> sameSyncFileData b c \<Longrightarrow> sameSyncFileData a c"
  by (auto simp: sameSyncFileData_def intro: sameLock_trans)

lemma ttl_pos: "0 < fallback \<Longrightarrow> 0 < ttl l fallback"
  by (simp add: ttl_def split: option.splits)

section \<open>Encoding\<close>

definition jstr :: "string \<Rightarrow> json" where
  "jstr s = JStr (quote s)"

definition lockMembers :: "syncFileLock option \<Rightarrow> (string \<times> json) list" where
  "lockMembers l = (case l of None \<Rightarrow> [] | Some k \<Rightarrow>
     [(''lock'', JObj ([(''owner'', jstr (Owner k)),
         (''timestamp'', JStr (formatRFC3339Nano (Timestamp k)))]
        @ (if TTL k = 0 then [] else [(''ttl'', JNum (decInt (TTL k)))])))])"

definition baseMembers :: "syncFileData \<Rightarrow> (string \<times> json) list" where
  "baseMembers d = [(''repository_id'', jstr (RepositoryID d)), (''generation'', JNum (dec (unat (Generation d))))]
     @ (if SyncID d = [] then [] else [(''sync_id'', jstr (SyncID d))])
     @ [(''syncing'', JBool (Syncing d))]"

text \<open>\<open>Time.MarshalJSON\<close> refuses a year beyond 9999 and a zone offset of a day or more.\<close>

definition marshalTimeOk :: "syncFileLock option \<Rightarrow> bool" where
  "marshalTimeOk l = (case l of None \<Rightarrow> True
     | Some k \<Rightarrow> t_year (Timestamp k) \<le> 9999 \<and> \<bar>t_off (Timestamp k)\<bar> < 24 * 60)"

definition marshalIndent :: "syncFileLock option \<Rightarrow> (string \<times> json) list \<Rightarrow> goerr + string" where
  "marshalIndent l ms = (if marshalTimeOk l then Inr (printJson 0 (JObj ms)) else Inl JSONError)"

definition encodeSyncFile :: "syncFileData \<Rightarrow> goerr + string" where
  "encodeSyncFile d =
     (if RepositoryID d = [] then Inl (errorString ''repository ID must be set'')
      else (case marshalIndent (Lock d)
               (baseMembers d @ (if Active d then [(''active'', JBool True)] else []) @ lockMembers (Lock d)) of
              Inl e \<Rightarrow> Inl e
            | Inr contents \<Rightarrow> Inr (contents @ nl)))"

text \<open>
  What \<open>writeLocalSyncFile\<close> marshals and writes: the anonymous struct that embeds the
  data puts its own \<open>active\<close> last, whatever its value.
\<close>

definition marshalLocal :: "syncFileData \<Rightarrow> goerr + string" where
  "marshalLocal d =
     (case marshalIndent (Lock d) (baseMembers d @ lockMembers (Lock d) @ [(''active'', JBool (Active d))]) of
        Inl e \<Rightarrow> Inl e
      | Inr contents \<Rightarrow> Inr (contents @ nl))"

section \<open>Decoding\<close>

definition foldRune :: "rune \<Rightarrow> rune" where
  "foldRune r = (if 65 \<le> r \<and> r \<le> 90 then r + 32 else if r = 0x17F then 115
     else if r = 0x212A then 107 else r)"

text \<open>Keys match the field names exactly or up to case folding.\<close>

definition keyOf :: "string \<Rightarrow> string" where
  "keyOf raw = encodeRunes (map foldRune (runes (unquote raw)))"

definition storeString :: "json \<Rightarrow> string \<Rightarrow> string option" where
  "storeString v old = (case v of JStr raw \<Rightarrow> Some (unquote raw) | JNull \<Rightarrow> Some old | _ \<Rightarrow> None)"

definition storeBool :: "json \<Rightarrow> bool \<Rightarrow> bool option" where
  "storeBool v old = (case v of JBool b \<Rightarrow> Some b | JNull \<Rightarrow> Some old | _ \<Rightarrow> None)"

definition storeUint64 :: "json \<Rightarrow> u64 \<Rightarrow> u64 option" where
  "storeUint64 v old = (case v of JNum l \<Rightarrow> parseUint64 l | JNull \<Rightarrow> Some old | _ \<Rightarrow> None)"

definition storeInt64 :: "json \<Rightarrow> int \<Rightarrow> int option" where
  "storeInt64 v old = (case v of JNum l \<Rightarrow> parseInt64 l | JNull \<Rightarrow> Some old | _ \<Rightarrow> None)"

definition storeTime :: "json \<Rightarrow> gotime \<Rightarrow> gotime option" where
  "storeTime v old = (case v of JStr raw \<Rightarrow> parseRFC3339 raw | JNull \<Rightarrow> Some old | _ \<Rightarrow> None)"

fun storeLock :: "(string \<times> json) list \<Rightarrow> syncFileLock \<Rightarrow> syncFileLock option" where
  "storeLock [] l = Some l"
| "storeLock ((k, v) # ms) l =
     (let key = keyOf k in
      if key = ''owner'' then
        (case storeString v (Owner l) of None \<Rightarrow> None | Some x \<Rightarrow> storeLock ms (l\<lparr>Owner := x\<rparr>))
      else if key = ''timestamp'' then
        (case storeTime v (Timestamp l) of None \<Rightarrow> None | Some x \<Rightarrow> storeLock ms (l\<lparr>Timestamp := x\<rparr>))
      else if key = ''ttl'' then
        (case storeInt64 v (TTL l) of None \<Rightarrow> None | Some x \<Rightarrow> storeLock ms (l\<lparr>TTL := x\<rparr>))
      else None)"

definition storeLockPtr :: "json \<Rightarrow> syncFileLock option \<Rightarrow> syncFileLock option option" where
  "storeLockPtr v old = (case v of
      JNull \<Rightarrow> Some None
    | JObj ms \<Rightarrow> map_option Some (storeLock ms (case old of None \<Rightarrow> zeroLock | Some l \<Rightarrow> l))
    | _ \<Rightarrow> None)"

fun storeData :: "(string \<times> json) list \<Rightarrow> syncFileData \<Rightarrow> syncFileData option" where
  "storeData [] d = Some d"
| "storeData ((k, v) # ms) d =
     (let key = keyOf k in
      if key = ''repository_id'' then
        (case storeString v (RepositoryID d) of None \<Rightarrow> None | Some x \<Rightarrow> storeData ms (d\<lparr>RepositoryID := x\<rparr>))
      else if key = ''generation'' then
        (case storeUint64 v (Generation d) of None \<Rightarrow> None | Some x \<Rightarrow> storeData ms (d\<lparr>Generation := x\<rparr>))
      else if key = ''sync_id'' then
        (case storeString v (SyncID d) of None \<Rightarrow> None | Some x \<Rightarrow> storeData ms (d\<lparr>SyncID := x\<rparr>))
      else if key = ''syncing'' then
        (case storeBool v (Syncing d) of None \<Rightarrow> None | Some x \<Rightarrow> storeData ms (d\<lparr>Syncing := x\<rparr>))
      else if key = ''active'' then
        (case storeBool v (Active d) of None \<Rightarrow> None | Some x \<Rightarrow> storeData ms (d\<lparr>Active := x\<rparr>))
      else if key = ''lock'' then
        (case storeLockPtr v (Lock d) of None \<Rightarrow> None | Some x \<Rightarrow> storeData ms (d\<lparr>Lock := x\<rparr>))
      else None)"

definition decodeSyncFile :: "string \<Rightarrow> goerr + syncFileData" where
  "decodeSyncFile contents =
     (case (case decodeValue contents of
              Some (JObj ms) \<Rightarrow> storeData ms zeroData
            | Some JNull \<Rightarrow> Some zeroData
            | _ \<Rightarrow> None) of
        None \<Rightarrow> Inl JSONError
      | Some d \<Rightarrow>
          if RepositoryID d = [] then Inl (errorString ''repository ID must be set'')
          else if (case Lock d of None \<Rightarrow> False | Some l \<Rightarrow> Owner l = [] \<or> isZeroTime (Timestamp l))
            then Inl (errorString ''lock owner and timestamp must be set'')
          else if (case Lock d of None \<Rightarrow> False | Some l \<Rightarrow> TTL l < 0)
            then Inl (errorString ''lock TTL must not be negative'')
          else Inr d)"

section \<open>Round trips\<close>

text \<open>The data that a codec keeps: what \<open>decodeSyncFile\<close> accepts, with well-formed texts.\<close>

definition validLock :: "syncFileLock option \<Rightarrow> bool" where
  "validLock l = (case l of None \<Rightarrow> True | Some k \<Rightarrow> Owner k \<noteq> [] \<and> validString (Owner k)
     \<and> validTime (Timestamp k) \<and> \<not> isZeroTime (Timestamp k) \<and> 0 \<le> TTL k \<and> TTL k < 2 ^ 63)"

definition validData :: "syncFileData \<Rightarrow> bool" where
  "validData d = (RepositoryID d \<noteq> [] \<and> validString (RepositoryID d) \<and> validString (SyncID d)
     \<and> validLock (Lock d))"

text \<open>The names of the fields are read back as they are.\<close>

definition nameChar :: "char \<Rightarrow> bool" where
  "nameChar c = (byte_of c = 95 \<or> 97 \<le> byte_of c \<and> byte_of c \<le> 122)"

lemma nameChar_ne: "nameChar c \<Longrightarrow> c \<noteq> CHR 0x5C \<and> c \<noteq> CHR 0x22 \<and> byte_of c \<noteq> 0x5C \<and> byte_of c < 0x80"
  by (auto simp: nameChar_def byte_of_def)

lemma encodeRune_byte: "byte_of c < 0x80 \<Longrightarrow> encodeRune (byte_of c) = [c]"
  by (simp add: encodeRune_def valid_rune_def)

lemma unquote_name: "list_all nameChar s \<Longrightarrow> unquote s = s"
proof (induction s)
  case (Cons c s)
  then show ?case
    using unquote_rune [of "byte_of c" s] nameChar_ne [of c] encodeRune_byte [of c]
    by (simp add: valid_rune_def)
qed simp

lemma runes_name: "list_all nameChar s \<Longrightarrow> runes s = map byte_of s"
  by (induction s) (simp_all add: runes_def nameChar_ne)

lemma keyOf_name: "list_all nameChar s \<Longrightarrow> keyOf s = s"
proof -
  assume n: "list_all nameChar s"
  have "encodeRunes (map foldRune (map byte_of s)) = s"
    using n
  proof (induction s)
    case (Cons c s)
    have "foldRune (byte_of c) = byte_of c" using Cons.prems by (auto simp: foldRune_def nameChar_def)
    with Cons show ?case by (simp add: encodeRune_byte nameChar_ne)
  qed simp
  then show ?thesis using n by (simp add: keyOf_def unquote_name runes_name)
qed

lemma fieldNames [simp]:
  "list_all nameChar ''repository_id''" "list_all nameChar ''generation''"
  "list_all nameChar ''sync_id''" "list_all nameChar ''syncing''" "list_all nameChar ''active''"
  "list_all nameChar ''lock''" "list_all nameChar ''owner''" "list_all nameChar ''timestamp''"
  "list_all nameChar ''ttl''"
  by (simp_all add: nameChar_def byte_of_def)

lemmas keyOf_names [simp] = fieldNames [THEN keyOf_name]

lemma rawString_plain:
  assumes "\<forall>c \<in> set s. c \<noteq> CHR 0x22 \<and> c \<noteq> CHR 0x5C \<and> 0x20 \<le> byte_of c"
  shows "rawString s"
proof -
  have "scanString (s @ CHR 0x22 # rest) = Some (s, rest)" for rest
    using assms by (induction s) auto
  then show ?thesis by (simp add: rawString_def)
qed

lemma rawString_name: "list_all nameChar s \<Longrightarrow> rawString s"
  by (rule rawString_plain) (auto simp: list_all_iff nameChar_def byte_of_def)

lemmas rawString_names [simp] = fieldNames [THEN rawString_name]

lemma rawString_time: "rawString (formatRFC3339Nano t)"
proof (rule rawString_plain, intro ballI)
  fix c assume "c \<in> set (formatRFC3339Nano t)"
  then consider "isDigit c" | "c \<in> set ''-T:.Z+''" using formatRFC3339Nano_plain by blast
  then show "c \<noteq> CHR 0x22 \<and> c \<noteq> CHR 0x5C \<and> 0x20 \<le> byte_of c"
    by cases (auto simp: isDigit_def byte_of_def)
qed

lemma stops_end: "stops rest \<Longrightarrow> takeWhile isDigit rest = [] \<and> dropWhile isDigit rest = rest
    \<and> scanFrac rest = Some ([], rest) \<and> scanExp rest = Some ([], rest)"
  by (auto simp: stops_def scanFrac_def scanExp_def isDigit_def byte_of_def split: list.splits)

lemma scanInt_dec: "stops rest \<Longrightarrow> scanInt (dec n @ rest) = Some (dec n, rest)"
proof -
  assume st: "stops rest"
  obtain c t where ct: "dec n = c # t" by (meson dec_nonempty list.exhaust)
  have digits: "list_all isDigit (c # t)" using dec_digits [of n] ct by simp
  have split: "digitsPrefix (dec n @ rest) = (dec n, rest)"
    using dec_digits [of n] stops_end [OF st]
    by (simp add: digitsPrefix_def list_all_iff takeWhile_append2 dropWhile_append2)
  show ?thesis
  proof (cases "n = 0")
    case True
    moreover have "dec 0 = ''0''" by code_simp
    ultimately show ?thesis by (simp add: scanInt_def)
  next
    case False
    then have "c \<noteq> CHR ''0''" using hd_dec_nonzero [of n] ct by simp
    then show ?thesis using split digits ct by (simp add: scanInt_def)
  qed
qed

lemma numLit_dec: "numLit (dec n)"
proof -
  obtain c t where ct: "dec n = c # t" by (meson dec_nonempty list.exhaust)
  have "isDigit c" using dec_hd_digit [of n] ct by simp
  moreover have "scanInt (c # t @ rest) = Some (c # t, rest)" if "stops rest" for rest
    using scanInt_dec [OF that, of n] ct by simp
  ultimately show ?thesis
    using isDigit_not_sign [of c] by (auto simp: numLit_def scanNumber_def stops_end ct)
qed

lemma numLit_decInt: "numLit (decInt i)"
proof (cases "i < 0")
  case True
  then show ?thesis by (simp add: decInt_def numLit_def scanNumber_def scanInt_dec stops_end)
qed (simp add: decInt_def numLit_dec)

lemma wfJson_jstr [simp]: "wfJson (jstr s)"
  by (simp add: jstr_def rawString_quote)

lemma wfJson_members:
  "m \<in> set (baseMembers d) \<Longrightarrow> rawString (fst m) \<and> wfJson (snd m)"
  "m \<in> set (lockMembers l) \<Longrightarrow> rawString (fst m) \<and> wfJson (snd m)"
  by (auto simp: baseMembers_def lockMembers_def numLit_dec numLit_decInt rawString_time
      split: if_splits option.splits)

lemma storeString_jstr: "validString s \<Longrightarrow> storeString (jstr s) old = Some s"
  by (simp add: storeString_def jstr_def unquote_quote_valid)

lemma storeUint64_dec: "storeUint64 (JNum (dec (unat g))) old = Some g"
  by (simp add: storeUint64_def parseUint64_dec)

lemma storeInt64_decInt: "0 \<le> i \<Longrightarrow> i < 2 ^ 63 \<Longrightarrow> storeInt64 (JNum (decInt i)) old = Some i"
  by (simp add: storeInt64_def parseInt64_decInt)

lemma storeTime_format: "validTime t \<Longrightarrow> storeTime (JStr (formatRFC3339Nano t)) old = Some t"
  by (simp add: storeTime_def parse_format)

lemmas store_simps = storeString_jstr storeUint64_dec storeInt64_decInt storeTime_format storeBool_def

lemma storeData_lock:
  assumes "validLock l" "Lock d = None"
  shows "storeData (lockMembers l @ ms) d = storeData ms (d\<lparr>Lock := l\<rparr>)"
proof (cases l)
  case (Some k)
  define ks where "ks = [(''owner'', jstr (Owner k)), (''timestamp'', JStr (formatRFC3339Nano (Timestamp k)))]
      @ (if TTL k = 0 then [] else [(''ttl'', JNum (decInt (TTL k)))])"
  have "storeLock ks zeroLock = Some k"
    using assms Some by (auto simp: ks_def validLock_def store_simps zeroLock_def)
  then have "storeLockPtr (JObj ks) (Lock d) = Some (Some k)"
    using assms(2) by (simp add: storeLockPtr_def)
  moreover have "lockMembers l = [(''lock'', JObj ks)]" using Some by (simp add: lockMembers_def ks_def)
  ultimately show ?thesis using Some by simp
qed (use assms in \<open>cases d, simp add: lockMembers_def\<close>)

lemma storeData_base:
  assumes "validData d"
  shows "storeData (baseMembers d @ ms) zeroData
    = storeData ms \<lparr>RepositoryID = RepositoryID d, Generation = Generation d, SyncID = SyncID d,
        Syncing = Syncing d, Active = False, Lock = None\<rparr>"
  using assms by (auto simp: validData_def baseMembers_def store_simps zeroData_def)

text \<open>A decoded document passes the checks of \<open>decodeSyncFile\<close> when the data is valid.\<close>

lemma decodeSyncFile_members:
  assumes "validData d" "storeData ms zeroData = Some d"
    "\<And>m. m \<in> set ms \<Longrightarrow> rawString (fst m) \<and> wfJson (snd m)"
  shows "decodeSyncFile (printJson 0 (JObj ms) @ nl) = Inr d"
proof -
  have "decodeValue (printJson 0 (JObj ms) @ nl) = Some (JObj ms)"
    using assms(3) by (intro decodeValue_print) (auto simp: stops_def nl_def)
  then show ?thesis
    using assms(1,2) by (auto simp: decodeSyncFile_def validData_def validLock_def split: option.splits)
qed

lemma marshalTimeOk_valid: "validData d \<Longrightarrow> marshalTimeOk (Lock d)"
  by (auto simp: validData_def validLock_def marshalTimeOk_def validTime_def split: option.splits)

lemma data_eqI: "RepositoryID d = r \<Longrightarrow> Generation d = g \<Longrightarrow> SyncID d = i \<Longrightarrow> Syncing d = y \<Longrightarrow>
   Active d = a \<Longrightarrow> Lock d = l \<Longrightarrow>
   \<lparr>RepositoryID = r, Generation = g, SyncID = i, Syncing = y, Active = a, Lock = l\<rparr> = d"
  by (cases d) simp

lemma encode_decode:
  assumes "validData d" "encodeSyncFile d = Inr s"
  shows "decodeSyncFile s = Inr d"
proof -
  define ms where "ms = baseMembers d @ (if Active d then [(''active'', JBool True)] else []) @ lockMembers (Lock d)"
  have "s = printJson 0 (JObj ms) @ nl"
    using assms by (auto simp: encodeSyncFile_def marshalIndent_def ms_def split: if_splits)
  moreover have "storeData ms zeroData = Some d"
    using storeData_lock [of "Lock d" _ "[]"] assms(1)
    by (auto simp: ms_def storeData_base [OF assms(1)] store_simps validData_def data_eqI)
  moreover have "rawString (fst m) \<and> wfJson (snd m)" if "m \<in> set ms" for m
    using that by (auto simp: ms_def dest: wfJson_members split: if_splits)
  ultimately show ?thesis using decodeSyncFile_members [OF assms(1)] by simp
qed

lemma encode_total: "validData d \<Longrightarrow> \<exists>s. encodeSyncFile d = Inr s"
  using marshalTimeOk_valid [of d] by (simp add: encodeSyncFile_def marshalIndent_def validData_def)

lemma marshalLocal_decode:
  assumes "validData d" "marshalLocal d = Inr s"
  shows "decodeSyncFile s = Inr d"
proof -
  define ms where "ms = baseMembers d @ lockMembers (Lock d) @ [(''active'', JBool (Active d))]"
  have "s = printJson 0 (JObj ms) @ nl"
    using assms by (auto simp: marshalLocal_def marshalIndent_def ms_def split: if_splits)
  moreover have "storeData ms zeroData = Some d"
    using storeData_lock [of "Lock d" _ "[(''active'', JBool (Active d))]"] assms(1)
    by (simp add: ms_def storeData_base [OF assms(1)] store_simps validData_def data_eqI)
  moreover have "rawString (fst m) \<and> wfJson (snd m)" if "m \<in> set ms" for m
    using that by (auto simp: ms_def dest: wfJson_members)
  ultimately show ?thesis using decodeSyncFile_members [OF assms(1)] by simp
qed

lemma marshalLocal_total: "validData d \<Longrightarrow> \<exists>s. marshalLocal d = Inr s"
  using marshalTimeOk_valid [of d] by (simp add: marshalLocal_def marshalIndent_def)

text \<open>An encoded document is never empty, which is how \<open>readRemote\<close> tells it from a missing object.\<close>

lemma encode_nonempty: "encodeSyncFile d = Inr s \<Longrightarrow> s \<noteq> []"
  by (auto simp: encodeSyncFile_def nl_def split: if_splits sum.splits)

lemma marshalLocal_nonempty: "marshalLocal d = Inr s \<Longrightarrow> s \<noteq> []"
  by (auto simp: marshalLocal_def nl_def split: sum.splits)

section \<open>The interface of a codec\<close>

text \<open>
  What the protocol relies on: valid data is encoded, what is encoded decodes to the same
  data and is not empty. Decoding is therefore injective on documents of valid data and
  a state that was read back equal was the one written.
\<close>

locale state_codec =
  fixes enc :: "syncFileData \<Rightarrow> goerr + string"
    and dec :: "string \<Rightarrow> goerr + syncFileData"
    and valid :: "syncFileData \<Rightarrow> bool"
  assumes enc_total: "valid d \<Longrightarrow> \<exists>s. enc d = Inr s"
    and dec_enc: "valid d \<Longrightarrow> enc d = Inr s \<Longrightarrow> dec s = Inr d"
    and enc_nonempty: "enc d = Inr s \<Longrightarrow> s \<noteq> []"
begin

lemma enc_inject: "valid d \<Longrightarrow> valid e \<Longrightarrow> enc d = enc e \<Longrightarrow> d = e"
  by (metis dec_enc enc_total sum.inject(2))

lemma enc_obtains:
  assumes "valid d" obtains s where "enc d = Inr s" "s \<noteq> []" "dec s = Inr d"
  using enc_total [OF assms] dec_enc [OF assms] enc_nonempty [of d] by blast

end

interpretation remote_codec: state_codec encodeSyncFile decodeSyncFile validData
  by unfold_locales (auto simp: encode_total encode_decode encode_nonempty)

interpretation local_codec: state_codec marshalLocal decodeSyncFile validData
  by unfold_locales (auto simp: marshalLocal_total marshalLocal_decode marshalLocal_nonempty)

end
