(* ===== verification/GoPath.thy ===== *)
theory GoPath
  imports GoStrings
begin

text \<open>
  The functions of \<open>path\<close> and \<open>path/filepath\<close> that the program calls, for the slash
  separated paths of Linux, where both packages agree and \<open>ToSlash\<close> and \<open>FromSlash\<close> are
  the identity. A path is cleaned component by component over a stack.
\<close>

abbreviation slash :: char where "slash \<equiv> CHR ''/''"
abbreviation dot :: string where "dot \<equiv> ''.''"
abbreviation dotdot :: string where "dotdot \<equiv> ''..''"

definition isAbs :: "string \<Rightarrow> bool" where
  "isAbs p = (case p of c # _ \<Rightarrow> c = slash | [] \<Rightarrow> False)"

text \<open>The stack holds the components kept so far, the innermost first.\<close>

fun cleanComps :: "bool \<Rightarrow> string list \<Rightarrow> string list \<Rightarrow> string list" where
  "cleanComps rooted stack [] = stack"
| "cleanComps rooted stack (c # cs) =
     (if c = [] \<or> c = dot then cleanComps rooted stack cs
      else if c = dotdot then
        (case stack of
           [] \<Rightarrow> cleanComps rooted (if rooted then [] else [c]) cs
         | inner # outer \<Rightarrow> cleanComps rooted (if inner = dotdot then c # stack else outer) cs)
      else cleanComps rooted (c # stack) cs)"

definition comps :: "string \<Rightarrow> string list" where
  "comps p = rev (cleanComps (isAbs p) [] (splitOn slash p))"

definition unComps :: "bool \<Rightarrow> string list \<Rightarrow> string" where
  "unComps rooted cs =
     (let out = (if rooted then ''/'' else []) @ joinWith ''/'' cs in if out = [] then dot else out)"

definition pathClean :: "string \<Rightarrow> string" where
  "pathClean p = unComps (isAbs p) (comps p)"

definition pathJoin :: "string list \<Rightarrow> string" where
  "pathJoin elems = (let xs = filter (\<lambda>e. e \<noteq> []) elems in
     if xs = [] then [] else pathClean (joinWith ''/'' xs))"

text \<open>What stands before and after the last slash.\<close>

definition upToLastSlash :: "string \<Rightarrow> string" where
  "upToLastSlash p = rev (dropWhile (\<lambda>c. c \<noteq> slash) (rev p))"

definition pathDir :: "string \<Rightarrow> string" where
  "pathDir p = pathClean (upToLastSlash p)"

definition pathBase :: "string \<Rightarrow> string" where
  "pathBase p = (if p = [] then dot
     else (let q = rev (dropWhile (\<lambda>c. c = slash) (rev p)) in
       if q = [] then ''/'' else rev (takeWhile (\<lambda>c. c \<noteq> slash) (rev q))))"

text \<open>\<open>filepath.Abs\<close>, given the working directory.\<close>

definition filepathAbs :: "string \<Rightarrow> string \<Rightarrow> string" where
  "filepathAbs cwd p = (if isAbs p then pathClean p else pathJoin [cwd, p])"

text \<open>
  \<open>filepath.Rel\<close>: drop the common components of the two cleaned paths, then climb once for
  each that is left of the base. \<open>None\<close> is the error of a base that cannot be left.
\<close>

fun stripCommon :: "string list \<Rightarrow> string list \<Rightarrow> string list \<times> string list" where
  "stripCommon (b # bs) (t # ts) = (if b = t then stripCommon bs ts else (b # bs, t # ts))"
| "stripCommon bs ts = (bs, ts)"

definition filepathRel :: "string \<Rightarrow> string \<Rightarrow> string option" where
  "filepathRel base targ =
     (if pathClean base = pathClean targ then Some dot
      else if isAbs base \<noteq> isAbs targ then None
      else (case stripCommon (comps base) (comps targ) of (bs, ts) \<Rightarrow>
        if bs \<noteq> [] \<and> hd bs = dotdot then None
        else Some (joinWith ''/'' (replicate (length bs) dotdot @ ts))))"

section \<open>Cleaned components\<close>

text \<open>A component of a cleaned path: not empty, no slash, not a dot.\<close>

definition plainComp :: "string \<Rightarrow> bool" where
  "plainComp c = (c \<noteq> [] \<and> c \<noteq> dot \<and> slash \<notin> set c)"

text \<open>
  The normal form of a stack (innermost first): parent references only at the outer end,
  and none in a rooted path.
\<close>

fun normalStack :: "bool \<Rightarrow> string list \<Rightarrow> bool" where
  "normalStack rooted [] = True"
| "normalStack rooted (c # st) = (plainComp c \<and> normalStack rooted st
     \<and> (c = dotdot \<longrightarrow> \<not> rooted \<and> (\<forall>d \<in> set st. d = dotdot)))"

lemma cleanComps_normal:
  "normalStack rooted st \<Longrightarrow> \<forall>c \<in> set cs. slash \<notin> set c \<Longrightarrow> normalStack rooted (cleanComps rooted st cs)"
proof (induction rooted st cs rule: cleanComps.induct)
  case (2 rooted stack c cs)
  show ?case
  proof (cases "c = [] \<or> c = dot")
    case True
    with 2 show ?thesis by auto
  next
    case plain: False
    show ?thesis
    proof (cases "c = dotdot")
      case False
      with plain 2 show ?thesis by (simp add: plainComp_def)
    next
      case True
      with plain 2 show ?thesis
        by (cases stack) (auto simp: plainComp_def)
    qed
  qed
qed simp

lemma splitOn_comps: "c \<in> set (splitOn slash p) \<Longrightarrow> slash \<notin> set c"
  by (rule splitOn_noSep)

lemma comps_normal: "normalStack (isAbs p) (rev (comps p))"
  unfolding comps_def using cleanComps_normal [of "isAbs p" "[]"] splitOn_comps by simp


lemma comps_plain: "c \<in> set (comps p) \<Longrightarrow> plainComp c"
proof -
  have "normalStack r st \<Longrightarrow> c \<in> set st \<Longrightarrow> plainComp c" for r st by (induction st) auto
  then show "c \<in> set (comps p) \<Longrightarrow> plainComp c" using comps_normal [of p] by (metis set_rev)
qed

text \<open>A rooted path has no parent references left.\<close>

lemma comps_rooted: "isAbs p \<Longrightarrow> c \<in> set (comps p) \<Longrightarrow> c \<noteq> dotdot"
proof -
  have "normalStack True st \<Longrightarrow> c \<in> set st \<Longrightarrow> c \<noteq> dotdot" for st by (induction st) auto
  then show "isAbs p \<Longrightarrow> c \<in> set (comps p) \<Longrightarrow> c \<noteq> dotdot" using comps_normal [of p] by (metis set_rev)
qed

lemma cleanComps_plain:
  "\<forall>c \<in> set cs. plainComp c \<and> c \<noteq> dotdot \<Longrightarrow> cleanComps rooted st cs = rev cs @ st"
  by (induction cs arbitrary: st) (auto simp: plainComp_def)

lemma isAbs_unComps [simp]: "isAbs (unComps True cs)"
  by (simp add: unComps_def isAbs_def)

lemma comps_unComps:
  assumes "\<forall>c \<in> set cs. plainComp c \<and> c \<noteq> dotdot"
  shows "comps (unComps True cs) = cs"
proof -
  have "splitOn slash (slash # joinWith ''/'' cs) = [] # splitOn slash (joinWith ''/'' cs)" by simp
  moreover have "cs \<noteq> [] \<Longrightarrow> splitOn slash (joinWith ''/'' cs) = cs"
    using assms by (intro splitOn_joinWith) (auto simp: plainComp_def)
  ultimately show ?thesis
    using cleanComps_plain [OF assms, of True "[]"]
    by (cases "cs = []") (simp_all add: comps_def unComps_def isAbs_def)
qed

lemma isAbs_pathClean: "isAbs p \<Longrightarrow> isAbs (pathClean p)"
  by (simp add: pathClean_def)

lemma comps_pathClean: "isAbs p \<Longrightarrow> comps (pathClean p) = comps p"
  using comps_unComps [of "comps p"] comps_plain [of _ p] comps_rooted [of p] by (simp add: pathClean_def)

lemma pathClean_idem: "isAbs p \<Longrightarrow> pathClean (pathClean p) = pathClean p"
  using comps_pathClean [of p] isAbs_pathClean [of p] by (simp add: pathClean_def)

lemma pathClean_eq_iff: "isAbs p \<Longrightarrow> isAbs q \<Longrightarrow> pathClean p = pathClean q \<longleftrightarrow> comps p = comps q"
proof -
  assume a: "isAbs p" "isAbs q"
  have "comps (pathClean p) = comps p" "comps (pathClean q) = comps q"
    using a by (simp_all add: comps_pathClean)
  moreover have "pathClean p = unComps True (comps p)" "pathClean q = unComps True (comps q)"
    using a by (simp_all add: pathClean_def)
  ultimately show ?thesis by metis
qed

section \<open>Relative paths\<close>

lemma stripCommon_spec:
  "stripCommon bs ts = (bs', ts') \<Longrightarrow>
    \<exists>cs. bs = cs @ bs' \<and> ts = cs @ ts' \<and> (bs' = [] \<or> ts' = [] \<or> hd bs' \<noteq> hd ts')"
  by (induction bs ts rule: stripCommon.induct) (auto split: if_splits intro: exI [of _ "_ # _"])

lemma joinWith_slash_nonempty: "\<forall>c \<in> set cs. c \<noteq> [] \<Longrightarrow> cs \<noteq> [] \<Longrightarrow> joinWith ''/'' cs \<noteq> []"
  using joinWith_splitOn [of slash] by (cases cs; cases "tl cs") auto

text \<open>Inside the base, the relative path is the rest of the components.\<close>

lemma filepathRel_inside:
  assumes "isAbs base" "isAbs targ" "comps targ = comps base @ ts" "ts \<noteq> []"
  shows "filepathRel base targ = Some (joinWith ''/'' ts)"
proof -
  have "stripCommon xs (xs @ ts) = ([], ts)" for xs by (induction xs) (cases ts, auto)
  then show ?thesis using assms by (simp add: filepathRel_def pathClean_eq_iff)
qed

text \<open>Outside it, the relative path starts with a parent reference.\<close>

lemma filepathRel_outside:
  assumes "isAbs base" "isAbs targ" "comps targ \<noteq> comps base" "\<not> prefix (comps base) (comps targ)"
    "filepathRel base targ = Some r"
  shows "r = dotdot \<or> prefix ''../'' r"
proof -
  obtain bs ts where st: "stripCommon (comps base) (comps targ) = (bs, ts)" by fastforce
  have "bs \<noteq> []" using stripCommon_spec [OF st] assms(4) by (auto simp: prefix_def)
  moreover have "r = joinWith ''/'' (replicate (length bs) dotdot @ ts)"
    using assms st by (auto simp: filepathRel_def pathClean_eq_iff split: if_splits)
  ultimately show ?thesis
    by (cases bs; cases "replicate (length (tl bs)) dotdot @ ts") auto
qed

section \<open>A file and its directory\<close>

text \<open>A cleaned rooted path that names something below the root.\<close>

definition cleanFile :: "string \<Rightarrow> bool" where
  "cleanFile p = (isAbs p \<and> pathClean p = p \<and> comps p \<noteq> [])"

lemma joinWith_snoc: "xs \<noteq> [] \<Longrightarrow> joinWith s (xs @ [x]) = joinWith s xs @ s @ x"
  by (induction s xs rule: joinWith.induct) auto

lemma unComps_snoc: "unComps True (ds @ [b]) = (if ds = [] then ''/'' else unComps True ds @ ''/'') @ b"
  by (simp add: unComps_def joinWith_snoc)

lemma cleanFile_split:
  assumes "cleanFile p"
  obtains ds b where "p = unComps True (ds @ [b])" "comps p = ds @ [b]"
    "\<forall>c \<in> set ds. plainComp c \<and> c \<noteq> dotdot" "plainComp b" "b \<noteq> dotdot"
proof -
  obtain ds b where c: "comps p = ds @ [b]" using assms by (metis cleanFile_def rev_exhaust)
  have "p = unComps True (comps p)" using assms unfolding cleanFile_def by (metis pathClean_def)
  moreover have "\<forall>c \<in> set (comps p). plainComp c \<and> c \<noteq> dotdot"
    using assms comps_plain [of _ p] comps_rooted [of p] by (auto simp: cleanFile_def)
  ultimately show ?thesis using that c by auto
qed

lemma cleanComps_append: "cleanComps r st (xs @ ys) = cleanComps r (cleanComps r st xs) ys"
  by (induction r st xs rule: cleanComps.induct) (auto split: list.splits)

lemma splitOn_sep: "splitOn c (s @ c # t) = splitOn c s @ splitOn c t"
  by (induction s) (auto split: list.splits)

lemma isAbs_append: "isAbs p \<Longrightarrow> isAbs (p @ q)"
  by (cases p) (simp_all add: isAbs_def)

lemma comps_slash: "isAbs p \<Longrightarrow> comps (p @ slash # q) = rev (cleanComps True (rev (comps p)) (splitOn slash q))"
  by (simp add: comps_def isAbs_append splitOn_sep cleanComps_append)

lemma rooted_dirname:
  assumes "\<forall>c \<in> set ds. plainComp c \<and> c \<noteq> dotdot"
  shows "pathClean (if ds = [] then ''/'' else unComps True ds @ ''/'') = unComps True ds"
proof (cases "ds = []")
  case True
  then show ?thesis by (simp add: pathClean_def unComps_def comps_def isAbs_def)
next
  case False
  have "isAbs (unComps True ds @ ''/'')" by (simp add: isAbs_append)
  then show ?thesis
    using False comps_slash [of "unComps True ds" "[]"] comps_unComps [OF assms] by (simp add: pathClean_def)
qed

lemma upToLastSlash_snoc: "slash \<notin> set b \<Longrightarrow> upToLastSlash (d @ slash # b) = d @ [slash]"
proof -
  assume "slash \<notin> set b"
  then have "dropWhile (\<lambda>c. c \<noteq> slash) (rev b @ slash # rev d) = slash # rev d"
    by (subst dropWhile_append2) auto
  then show ?thesis by (simp add: upToLastSlash_def)
qed

lemma pathDir_unComps:
  assumes "\<forall>c \<in> set ds. plainComp c \<and> c \<noteq> dotdot" "slash \<notin> set b"
  shows "pathDir (unComps True (ds @ [b])) = unComps True ds"
proof (cases "ds = []")
  case True
  then show ?thesis
    using rooted_dirname [OF assms(1)] upToLastSlash_snoc [OF assms(2), of "[]"]
    by (simp add: pathDir_def unComps_def)
next
  case False
  then show ?thesis
    using rooted_dirname [OF assms(1)] upToLastSlash_snoc [OF assms(2), of "unComps True ds"]
    by (simp add: pathDir_def unComps_snoc)
qed

lemma pathBase_unComps:
  assumes "plainComp b"
  shows "pathBase (unComps True (ds @ [b])) = b"
proof -
  obtain x y where b: "b = x @ [y]" "slash \<notin> set b" using assms by (metis plainComp_def rev_exhaust)
  define d where "d = (if ds = [] then [] else unComps True ds)"
  have p: "unComps True (ds @ [b]) = d @ slash # b" by (simp add: unComps_snoc d_def)
  have "dropWhile (\<lambda>c. c = slash) (rev (d @ slash # b)) = rev (d @ slash # b)" using b by auto
  moreover have "takeWhile (\<lambda>c. c \<noteq> slash) (rev (d @ slash # b)) = rev b"
    using b(2) by (simp add: takeWhile_append)
  ultimately show ?thesis by (simp add: pathBase_def p)
qed

text \<open>A sibling of a file: same directory, the name extended.\<close>

lemma pathJoin_sibling:
  assumes "cleanFile p" "slash \<notin> set x" "x \<noteq> []" "length x \<noteq> 1"
  shows "pathJoin [pathDir p, pathBase p @ x] = unComps True (butlast (comps p) @ [last (comps p) @ x])"
    "pathJoin [pathDir p, pathBase p @ x] \<noteq> p" "pathDir p \<noteq> p"
    "pathDir p \<noteq> pathJoin [pathDir p, pathBase p @ x]"
proof -
  obtain ds b where p: "p = unComps True (ds @ [b])" "comps p = ds @ [b]"
    and ds: "\<forall>c \<in> set ds. plainComp c \<and> c \<noteq> dotdot" and b: "plainComp b" "b \<noteq> dotdot"
    by (rule cleanFile_split [OF assms(1)])
  have dir: "pathDir p = unComps True ds" and base: "pathBase p = b"
    using p ds b by (simp_all add: pathDir_unComps pathBase_unComps plainComp_def)
  have bx: "plainComp (b @ x)" "b @ x \<noteq> dotdot"
    using b assms(2,3,4) by (auto simp: plainComp_def append_eq_Cons_conv)
  then have all: "\<forall>c \<in> set (ds @ [b @ x]). plainComp c \<and> c \<noteq> dotdot" using ds by auto
  have "isAbs (joinWith ''/'' [unComps True ds, b @ x])" by (simp add: isAbs_append)
  moreover have "comps (joinWith ''/'' [unComps True ds, b @ x]) = ds @ [b @ x]"
    using bx comps_slash [of "unComps True ds" "b @ x"] comps_unComps [OF ds]
    by (simp add: splitOn_single plainComp_def)
  ultimately have j: "pathJoin [pathDir p, pathBase p @ x] = unComps True (ds @ [b @ x])"
    using bx dir base by (simp add: pathJoin_def pathClean_def plainComp_def unComps_def)
  show "pathJoin [pathDir p, pathBase p @ x] = unComps True (butlast (comps p) @ [last (comps p) @ x])"
    using j p by simp
  show "pathJoin [pathDir p, pathBase p @ x] \<noteq> p"
    using comps_unComps [OF all] j p assms(3) by auto
  show "pathDir p \<noteq> p" using comps_unComps [OF ds] p dir by auto
  show "pathDir p \<noteq> pathJoin [pathDir p, pathBase p @ x]"
    using comps_unComps [OF ds] comps_unComps [OF all] dir j by auto
qed

end
