(* ===== verification/SyncPath.thy ===== *)
theory SyncPath
  imports GoPath Errors
begin

text \<open>
  src/syncpath.go: where the state file lies on both sides, the filters that keep it out of
  payload transfers, and the parser of rclone connection strings. The functions return a
  sum: every \<open>errors.New\<close> of the source is a branch.
\<close>

definition defaultStateFile :: string where
  "defaultStateFile = ''.rcw-state''"

record syncFilePaths =
  p_local :: string
  p_remote :: string
  p_localFilter :: string
  p_remoteFilter :: string

record remoteSpec =
  rs_name :: string
  rs_options :: "string \<Rightarrow> string option"
  rs_colon :: "nat option"

definition noRemoteSpec :: remoteSpec where
  "noRemoteSpec = \<lparr>rs_name = [], rs_options = Map.empty, rs_colon = None\<rparr>"

section \<open>Connection strings\<close>

text \<open>The text of a quoted option value and what follows its closing quote.\<close>

fun quotedText :: "char \<Rightarrow> string \<Rightarrow> (string \<times> string) option" where
  "quotedText q [] = None"
| "quotedText q [c] = (if c = q then Some ([], []) else None)"
| "quotedText q (c # d # s) =
     (if c = q then
        (if d = q then map_option (\<lambda>(t, r). (q # t, r)) (quotedText q s) else Some ([], d # s))
      else map_option (\<lambda>(t, r). (c # t, r)) (quotedText q (d # s)))"

lemma quotedText_length: "quotedText q s = Some (t, r) \<Longrightarrow> length r < length s"
  by (induction q s arbitrary: t r rule: quotedText.induct) (fastforce split: if_splits)+

text \<open>The value of an option after its \<open>=\<close>, and the rest.\<close>

definition optionValue :: "string \<Rightarrow> goerr + (string \<times> string)" where
  "optionValue u = (case u of
      q # v \<Rightarrow>
        if q = CHR 0x27 \<or> q = CHR 0x22 then
          (case quotedText q v of
             None \<Rightarrow> Inl (errorString ''unterminated remote connection-string quote'')
           | Some p \<Rightarrow> Inr p)
        else Inr (takeWhile (\<lambda>c. c \<noteq> CHR '','' \<and> c \<noteq> CHR '':'') u,
                  dropWhile (\<lambda>c. c \<noteq> CHR '','' \<and> c \<noteq> CHR '':'') u)
    | [] \<Rightarrow> Inr ([], []))"

lemma optionValue_length:
  assumes "optionValue u = Inr (t, r)" shows "length r \<le> length u"
proof (cases u)
  case (Cons q v)
  show ?thesis
  proof (cases "q = CHR 0x27 \<or> q = CHR 0x22")
    case True
    then have "quotedText q v = Some (t, r)"
      using assms Cons by (auto simp: optionValue_def split: option.splits)
    with Cons show ?thesis using quotedText_length by fastforce
  next
    case False
    then have "r = dropWhile (\<lambda>c. c \<noteq> CHR '','' \<and> c \<noteq> CHR '':'') u"
      using assms Cons by (simp add: optionValue_def)
    then show ?thesis by (simp only: length_dropWhile_le)
  qed
qed (use assms in \<open>simp add: optionValue_def\<close>)

definition keyEnd :: "char \<Rightarrow> bool" where
  "keyEnd c = (c = CHR ''='' \<or> c = CHR '','' \<or> c = CHR '':'')"

text \<open>
  The options from the position of a comma or of the colon that ends the remote: the
  options read, and the text that starts with that colon.
\<close>

function parseOptions :: "string \<Rightarrow> (string \<Rightarrow> string option) \<Rightarrow> goerr + ((string \<Rightarrow> string option) \<times> string)" where
  "parseOptions s opts =
     (case s of
        c # t \<Rightarrow>
          if c = CHR '','' then
            (let key = takeWhile (\<lambda>c. \<not> keyEnd c) t;
                 after = dropWhile (\<lambda>c. \<not> keyEnd c) t
             in if key = [] \<or> after = [] then Inl (errorString ''invalid remote connection-string option'')
                else
                  (case (if hd after = CHR ''='' then optionValue (tl after) else Inr (''true'', after)) of
                     Inl e \<Rightarrow> Inl e
                   | Inr (option, rest) \<Rightarrow>
                       if rest = [] \<or> (hd rest \<noteq> CHR '','' \<and> hd rest \<noteq> CHR '':'')
                       then Inl (errorString ''remote connection string needs a trailing colon'')
                       else parseOptions rest (opts(key \<mapsto> option))))
          else Inr (opts, s)
      | [] \<Rightarrow> Inr (opts, s))"
  by pat_completeness auto
termination
proof (relation "measure (\<lambda>(s, opts). length s)")
  fix s opts c t key after b option rest
  assume "s = c # t" "after = dropWhile (\<lambda>c. \<not> keyEnd c) t" "\<not> (key = [] \<or> after = [])"
    "(if hd after = CHR ''='' then optionValue (tl after) else Inr (''true'', after)) = Inr b"
    "(option, rest) = b"
  then have "length rest \<le> length after" "length after \<le> length t"
    using optionValue_length [of "tl after" option rest]
    by (auto simp: length_dropWhile_le split: if_splits)
  then show "((rest, opts(key \<mapsto> option)), s, opts) \<in> measure (\<lambda>(s, opts). length s)"
    using \<open>s = c # t\<close> by simp
qed simp

declare parseOptions.simps [simp del]

definition nameEnd :: "char \<Rightarrow> bool" where
  "nameEnd c = (c \<in> {CHR '':'', CHR '','', slash, CHR 0x5C})"

definition parseRemote :: "string \<Rightarrow> goerr + remoteSpec" where
  "parseRemote value =
     (if CHR '':'' \<notin> set value then Inr noRemoteSpec
      else
        let start = (if prefix '':'' value then 1 else 0);
            rest = dropWhile (\<lambda>c. \<not> nameEnd c) (drop start value)
        in if rest = [] \<or> hd rest = slash \<or> hd rest = CHR 0x5C then Inr noRemoteSpec
           else (case parseOptions rest Map.empty of
                   Inl e \<Rightarrow> Inl e
                 | Inr (opts, rest') \<Rightarrow>
                     Inr \<lparr>rs_name = take (length value - length rest) value, rs_options = opts,
                          rs_colon = Some (length value - length rest')\<rparr>))"

section \<open>Paths of the state file\<close>

definition hasLineBreak :: "string \<Rightarrow> bool" where
  "hasLineBreak s = (\<exists>c \<in> set s. c = CHR 0x0D \<or> c = CHR 0x0A)"

definition relativeLocalPath :: "string \<Rightarrow> string \<Rightarrow> string" where
  "relativeLocalPath root target = (case filepathRel root target of
      None \<Rightarrow> []
    | Some relative \<Rightarrow> if relative = dotdot \<or> prefix ''../'' relative then [] else relative)"

definition relativeSlashPath :: "string \<Rightarrow> string \<Rightarrow> string" where
  "relativeSlashPath root target = (case filepathRel root target of
      None \<Rightarrow> []
    | Some relative \<Rightarrow> if relative = dotdot \<or> prefix ''../'' relative then [] else relative)"

definition resolveLocalSyncFile :: "string \<Rightarrow> string \<Rightarrow> string \<Rightarrow> goerr + (string \<times> string)" where
  "resolveLocalSyncFile cwd root relative =
     (if hasLineBreak relative then Inl (errorString ''state file paths must not contain line breaks'')
      else if relative = [] \<or> isAbs relative
        then Inl (errorString ''local state file path must be a non-empty relative path'')
      else let resolved = filepathAbs cwd (pathJoin [root, relative]) in
        if resolved = pathClean root
        then Inl (errorString ''local state file path resolves to the source directory'')
        else Inr (resolved, relativeLocalPath root resolved))"

definition resolveRemoteSyncFile :: "string \<Rightarrow> string \<Rightarrow> goerr + (string \<times> string)" where
  "resolveRemoteSyncFile root relative =
     (if hasLineBreak relative then Inl (errorString ''state file paths must not contain line breaks'')
      else if relative = [] \<or> isAbs relative
        then Inl (errorString ''remote state file path must be a non-empty relative path'')
      else (case parseRemote root of
        Inl e \<Rightarrow> Inl e
      | Inr remote \<Rightarrow>
          (case rs_colon remote of
             None \<Rightarrow>
               let resolved = pathClean (pathJoin [root, relative]) in
               if resolved = pathClean root
               then Inl (errorString ''remote state file path resolves to the destination directory'')
               else Inr (resolved, relativeLocalPath root resolved)
           | Some colon \<Rightarrow>
               let pre = take (colon + 1) root;
                   remoteRoot = drop (colon + 1) root;
                   rootPath = pathClean (''/'' @ remoteRoot);
                   resolvedPath = pathClean (pathJoin [rootPath, relative])
               in if resolvedPath = rootPath
                  then Inl (errorString ''remote state file path resolves to the destination directory'')
                  else let flt = relativeSlashPath rootPath resolvedPath in
                    if prefix ''/'' remoteRoot then Inr (pre @ resolvedPath, flt)
                    else Inr (pre @ trimPrefix resolvedPath ''/'', flt))))"

definition resolveSyncFilePaths ::
    "string \<Rightarrow> string \<Rightarrow> string \<Rightarrow> string \<Rightarrow> string \<Rightarrow> goerr + syncFilePaths" where
  "resolveSyncFilePaths cwd source destination localRelative remoteRelative =
     (case resolveLocalSyncFile cwd source localRelative of
        Inl e \<Rightarrow> Inl e
      | Inr (l, lf) \<Rightarrow>
          (case resolveRemoteSyncFile destination remoteRelative of
             Inl e \<Rightarrow> Inl e
           | Inr (r, rf) \<Rightarrow> Inr \<lparr>p_local = l, p_remote = r, p_localFilter = lf, p_remoteFilter = rf\<rparr>))"

section \<open>The filters name the state file\<close>

lemma joinWith_no_parent:
  assumes "\<forall>c \<in> set ts. plainComp c \<and> c \<noteq> dotdot" "ts \<noteq> []"
  shows "joinWith ''/'' ts \<noteq> dotdot" "\<not> prefix ''../'' (joinWith ''/'' ts)"
proof -
  have sp: "splitOn slash (joinWith ''/'' ts) = ts"
    using assms by (intro splitOn_joinWith) (auto simp: plainComp_def)
  show "joinWith ''/'' ts \<noteq> dotdot"
  proof
    assume "joinWith ''/'' ts = dotdot"
    then have "ts = [dotdot]" using sp by simp
    then show False using assms(1) by simp
  qed
  show "\<not> prefix ''../'' (joinWith ''/'' ts)"
  proof
    assume "prefix ''../'' (joinWith ''/'' ts)"
    then obtain z where "joinWith ''/'' ts = dotdot @ slash # z" by (auto simp: prefix_def)
    then have "ts = dotdot # splitOn slash z" using sp splitOn_append [of slash dotdot z] by simp
    then show False using assms(1) by simp
  qed
qed

text \<open>
  The relative path of a target under an absolute root: empty exactly for a target that is
  not strictly inside the root, and otherwise the remaining components.
\<close>

lemma relativeLocalPath_inside:
  assumes "isAbs root" "isAbs target" "comps target = comps root @ ts" "ts \<noteq> []"
  shows "relativeLocalPath root target = joinWith ''/'' ts"
proof -
  have "\<forall>c \<in> set ts. plainComp c \<and> c \<noteq> dotdot"
    using assms comps_plain [of _ target] comps_rooted [of target] by auto
  then show ?thesis
    using filepathRel_inside [OF assms] joinWith_no_parent [OF _ assms(4)]
    by (simp add: relativeLocalPath_def)
qed

lemma relativeLocalPath_outside:
  assumes "isAbs root" "isAbs target" "comps target \<noteq> comps root"
    "\<not> strict_prefix (comps root) (comps target)"
  shows "relativeLocalPath root target = []"
proof -
  have "\<not> prefix (comps root) (comps target)" using assms(3,4) by (auto simp: strict_prefix_def)
  then show ?thesis
    using filepathRel_outside [OF assms(1,2,3)] by (auto simp: relativeLocalPath_def split: option.splits)
qed

lemma resolveLocalSyncFile_Inr:
  assumes "resolveLocalSyncFile cwd root relative = Inr (resolved, flt)" "isAbs root"
  shows "isAbs resolved" "comps resolved \<noteq> comps root" "flt = relativeLocalPath root resolved"
    "\<not> hasLineBreak relative"
proof -
  have r: "resolved = filepathAbs cwd (pathJoin [root, relative])" "resolved \<noteq> pathClean root"
    "flt = relativeLocalPath root resolved" "\<not> hasLineBreak relative" "relative \<noteq> []"
    using assms(1) by (auto simp: resolveLocalSyncFile_def Let_def split: if_splits)
  have root: "root \<noteq> []" using assms(2) by (auto simp: isAbs_def)
  have "pathJoin [root, relative] = pathClean (root @ ''/'' @ relative)"
    using root r(5) by (simp add: pathJoin_def)
  moreover have abs: "isAbs (root @ ''/'' @ relative)"
    using assms(2) by (auto simp: isAbs_def split: list.splits)
  ultimately have res: "resolved = pathClean (root @ ''/'' @ relative)"
    using r(1) by (simp add: filepathAbs_def isAbs_pathClean pathClean_idem)
  show "isAbs resolved" using res abs by (simp add: isAbs_pathClean)
  show "comps resolved \<noteq> comps root"
    using res r(2) abs assms(2) pathClean_eq_iff [of resolved root] pathClean_idem [OF abs]
    by (auto simp: isAbs_pathClean)
  show "flt = relativeLocalPath root resolved" "\<not> hasLineBreak relative" by (fact r)+
qed

end
