(* ===== verification/World.thy ===== *)
theory World
  imports Errors GoPath
begin

text \<open>
  The surroundings of the program. The environment (\<open>env\<close>) holds what the code cannot
  decide: the rclone program (src/main.go runs it through \<open>commandRunner\<close>; it is not part
  of the repository, so it is a function parameter that may change the local disk and the
  state of the remote service, and that other writers may act through), the passing of
  time, the readings of the wall clock, random bytes, signals, and which calls of the
  operating system fail. Every interaction takes the next index of these schedules. The
  world (\<open>world\<close>) is the state they act on; the fields of a running session extend it.
  The list of executed commands is kept for the statements about them; nothing reads it.
\<close>

datatype node = File string | Dir

type_synonym disk = "string \<Rightarrow> node option"

record cmdResult =
  r_err :: "goerr option"
  r_stdout :: string
  r_stderr :: string

record 'r env =
  rclone :: "string list \<Rightarrow> disk \<Rightarrow> 'r \<Rightarrow> cmdResult \<times> disk \<times> 'r"
  elapse :: "nat \<Rightarrow> nat"
  wallClock :: "nat \<Rightarrow> gotime"
  randText :: "nat \<Rightarrow> string"
  randNumber :: "nat \<Rightarrow> nat"
  randByte :: "nat \<Rightarrow> nat \<Rightarrow> 8 word"
  arriving :: "nat \<Rightarrow> signal option"
  fault :: "nat \<Rightarrow> bool"
  tempDir :: string

record cmd =
  c_args :: "string list"
  c_disk :: disk
  c_time :: int
  c_result :: cmdResult

record 'r world =
  w_service :: 'r
  w_disk :: disk
  w_clock :: int
  w_calls :: nat
  w_cancelled :: bool
  w_watchdog :: "(int \<times> bool) option"
  w_fired :: bool
  w_cmds :: "cmd list"

section \<open>Time, randomness and the operating system\<close>

text \<open>One interaction: the next index, after which time has passed.\<close>

definition tick :: "'r env \<Rightarrow> (('r, 'z) world_scheme, nat) state" where
  "tick E = State (\<lambda>w. (w_calls w,
     w\<lparr>w_calls := Suc (w_calls w), w_clock := w_clock w + int (elapse E (w_calls w))\<rparr>))"

definition timeNow :: "'r env \<Rightarrow> (('r, 'z) world_scheme, int) state" where
  "timeNow E = do { tick E; gets w_clock }"

text \<open>\<open>time.Now().UTC()\<close> as it is stored: the wall clock, which need not agree with the monotonic one.\<close>

definition wallNow :: "'r env \<Rightarrow> (('r, 'z) world_scheme, gotime) state" where
  "wallNow E = do { n \<leftarrow> tick E; State_Monad.return (wallClock E n) }"

definition randomText :: "'r env \<Rightarrow> (('r, 'z) world_scheme, string) state" where
  "randomText E = do { n \<leftarrow> tick E; State_Monad.return (randText E n) }"

text \<open>Whether a call of the operating system fails for a reason outside the model.\<close>

definition osFails :: "'r env \<Rightarrow> (('r, 'z) world_scheme, bool) state" where
  "osFails E = do { n \<leftarrow> tick E; State_Monad.return (fault E n) }"

text \<open>
  A timer of the given length raced against the signal channel: the signal that arrived, or
  \<open>None\<close> when the timer fired, in which case at least that time has passed.
\<close>

definition waitTimer :: "'r env \<Rightarrow> duration \<Rightarrow> (('r, 'z) world_scheme, signal option) state" where
  "waitTimer E d = do {
     n \<leftarrow> tick E;
     (case arriving E n of
        Some sig \<Rightarrow> State_Monad.return (Some sig)
      | None \<Rightarrow> do {
          modify (\<lambda>w. w\<lparr>w_clock := w_clock w + max d 0\<rparr>);
          State_Monad.return None }) }"

section \<open>Files\<close>

definition readFile :: "'r env \<Rightarrow> string \<Rightarrow> (('r, 'z) world_scheme, goerr + string) state" where
  "readFile E path = do {
     bad \<leftarrow> osFails E;
     if bad then State_Monad.return (Inl OSError)
     else gets (\<lambda>w. case w_disk w path of
            None \<Rightarrow> Inl NotExist
          | Some Dir \<Rightarrow> Inl OSError
          | Some (File contents) \<Rightarrow> Inr contents) }"

definition mkdirAll :: "'r env \<Rightarrow> string \<Rightarrow> (('r, 'z) world_scheme, goerr option) state" where
  "mkdirAll E path = do {
     bad \<leftarrow> osFails E;
     if bad then State_Monad.return (Some OSError)
     else do {
       d \<leftarrow> gets w_disk;
       (case d path of
          Some (File _) \<Rightarrow> State_Monad.return (Some NotDir)
        | _ \<Rightarrow> do { modify (\<lambda>w. w\<lparr>w_disk := (w_disk w)(path \<mapsto> Dir)\<rparr>); State_Monad.return None }) } }"

text \<open>
  \<open>os.CreateTemp\<close>: an empty file whose name is the pattern with a random number; a name
  that is taken fails here, where the library would draw again.
\<close>

definition createTemp :: "'r env \<Rightarrow> string \<Rightarrow> string \<Rightarrow> (('r, 'z) world_scheme, goerr + string) state" where
  "createTemp E dir pat = do {
     bad \<leftarrow> osFails E;
     n \<leftarrow> tick E;
     d \<leftarrow> gets w_disk;
     let name = pathJoin [dir, pat @ dec (randNumber E n)] in
     if bad \<or> d name \<noteq> None then State_Monad.return (Inl OSError)
     else do {
       modify (\<lambda>w. w\<lparr>w_disk := (w_disk w)(name \<mapsto> File [])\<rparr>);
       State_Monad.return (Inr name) } }"

definition fileWrite :: "'r env \<Rightarrow> string \<Rightarrow> string \<Rightarrow> (('r, 'z) world_scheme, goerr option) state" where
  "fileWrite E name contents = do {
     bad \<leftarrow> osFails E;
     if bad then State_Monad.return (Some OSError)
     else do {
       modify (\<lambda>w. w\<lparr>w_disk := (w_disk w)(name \<mapsto> File contents)\<rparr>);
       State_Monad.return None } }"

text \<open>\<open>Sync\<close>, \<open>Close\<close> and \<open>Open\<close> change nothing the model sees, but they can fail.\<close>

definition fileOp :: "'r env \<Rightarrow> (('r, 'z) world_scheme, goerr option) state" where
  "fileOp E = do { bad \<leftarrow> osFails E; State_Monad.return (if bad then Some OSError else None) }"

definition osRename :: "'r env \<Rightarrow> string \<Rightarrow> string \<Rightarrow> (('r, 'z) world_scheme, goerr option) state" where
  "osRename E old new = do {
     bad \<leftarrow> osFails E;
     d \<leftarrow> gets w_disk;
     if bad \<or> d old = None \<or> d new = Some Dir then State_Monad.return (Some OSError)
     else do {
       modify (\<lambda>w. w\<lparr>w_disk := (w_disk w)(new := d old, old := None)\<rparr>);
       State_Monad.return None } }"

text \<open>A deferred \<open>os.Remove\<close>: its error is ignored, and a failing call leaves the file.\<close>

definition osRemove :: "'r env \<Rightarrow> string \<Rightarrow> (('r, 'z) world_scheme, unit) state" where
  "osRemove E name = do {
     bad \<leftarrow> osFails E;
     if bad then State_Monad.return () else modify (\<lambda>w. w\<lparr>w_disk := (w_disk w)(name := None)\<rparr>) }"

text \<open>
  \<open>os.Lstat\<close>: whether the path names a directory. The error tells a missing entry from a
  path below a file (\<open>below\<close> finds such an ancestor) and from any other failure.
\<close>

definition below :: "disk \<Rightarrow> string \<Rightarrow> bool" where
  "below d path = (\<exists>k < length path. path ! k = slash \<and> (case d (take k path) of Some (File _) \<Rightarrow> True | _ \<Rightarrow> False))"

definition osLstat :: "'r env \<Rightarrow> string \<Rightarrow> (('r, 'z) world_scheme, goerr + bool) state" where
  "osLstat E path = do {
     bad \<leftarrow> osFails E;
     if bad then State_Monad.return (Inl OSError)
     else gets (\<lambda>w. if below (w_disk w) path then Inl NotDir
            else (case w_disk w path of
                    None \<Rightarrow> Inl NotExist
                  | Some Dir \<Rightarrow> Inr True
                  | Some (File _) \<Rightarrow> Inr False)) }"

section \<open>Commands\<close>

text \<open>
  \<open>rcloneCommand\<close> of src/main.go. A cancelled context fails without starting the program.
  The flag \<open>--s3-no-check-bucket\<close> is added to every command. An armed watchdog
  (\<open>time.AfterFunc\<close>; the flag says whether its function cancels the runner) fires at the
  first step at or after its time, and from then on no further cancellable command starts; a
  command that is running then may end in any way rclone can.
\<close>

definition noCheckBucket :: string where
  "noCheckBucket = ''--s3-no-check-bucket''"

definition fireWatchdog :: "('r, 'z) world_scheme \<Rightarrow> ('r, 'z) world_scheme" where
  "fireWatchdog w = (case w_watchdog w of
      None \<Rightarrow> w
    | Some (deadline, cancels) \<Rightarrow>
        if deadline \<le> w_clock w
        then w\<lparr>w_watchdog := None, w_fired := True, w_cancelled := w_cancelled w \<or> cancels\<rparr> else w)"

definition armWatchdog :: "int \<Rightarrow> bool \<Rightarrow> (('r, 'z) world_scheme, unit) state" where
  "armWatchdog deadline cancels = modify (\<lambda>w. w\<lparr>w_watchdog := Some (deadline, cancels), w_fired := False\<rparr>)"

text \<open>\<open>Timer.Stop\<close>: whether the watchdog had fired by now.\<close>

definition stopWatchdog :: "'r env \<Rightarrow> (('r, 'z) world_scheme, bool) state" where
  "stopWatchdog E = do {
     tick E;
     modify fireWatchdog;
     fired \<leftarrow> gets w_fired;
     modify (\<lambda>w. w\<lparr>w_watchdog := None, w_fired := False\<rparr>);
     State_Monad.return fired }"

definition rcloneRun :: "'r env \<Rightarrow> bool \<Rightarrow> string list \<Rightarrow> (('r, 'z) world_scheme, cmdResult) state" where
  "rcloneRun E cancellable args = do {
     tick E;
     modify fireWatchdog;
     w \<leftarrow> State_Monad.get;
     if cancellable \<and> w_cancelled w
     then State_Monad.return \<lparr>r_err = Some ContextCanceled, r_stdout = [], r_stderr = []\<rparr>
     else (case rclone E (args @ [noCheckBucket]) (w_disk w) (w_service w) of (r, d, svc) \<Rightarrow> do {
       modify (\<lambda>w'. w'\<lparr>w_disk := d, w_service := svc,
         w_cmds := \<lparr>c_args = args @ [noCheckBucket], c_disk = w_disk w, c_time = w_clock w, c_result = r\<rparr> # w_cmds w'\<rparr>);
       State_Monad.return r }) }"

text \<open>Without a writer the output is captured and added to the error.\<close>

definition runCaptured :: "'r env \<Rightarrow> bool \<Rightarrow> string list \<Rightarrow> (('r, 'z) world_scheme, goerr option) state" where
  "runCaptured E cancellable args = do {
     r \<leftarrow> rcloneRun E cancellable args;
     State_Monad.return (case r_err r of
         None \<Rightarrow> None
       | Some err \<Rightarrow>
           let message = trimSpace (r_stdout r @ r_stderr r)
           in Some (if message \<noteq> [] then Wrapped ''%w: %s'' [Str message] err else err)) }"

abbreviation cancelRunner :: "(('r, 'z) world_scheme, unit) state" where
  "cancelRunner \<equiv> modify (\<lambda>w. w\<lparr>w_cancelled := True\<rparr>)"

section \<open>What every primitive keeps\<close>

text \<open>
  Time does not run backwards and the list of commands only grows: the relation between
  the worlds before and after any program of the model.
\<close>

definition later :: "('r, 'z) world_scheme \<Rightarrow> ('r, 'z) world_scheme \<Rightarrow> bool" where
  "later w v = (w_clock w \<le> w_clock v \<and> suffix (w_cmds w) (w_cmds v))"

interpretation later: effect later
  by unfold_locales (auto simp: later_def intro: order_trans suffix_order.order_trans)

lemmas os_defs = timeNow_def wallNow_def randomText_def osFails_def waitTimer_def
  readFile_def mkdirAll_def createTemp_def fileWrite_def fileOp_def osRename_def osRemove_def osLstat_def

text \<open>Only the fields of the world change, whatever extends them.\<close>

definition framed :: "('r, 'z) world_scheme \<Rightarrow> ('r, 'z) world_scheme \<Rightarrow> bool" where
  "framed w v = (world.more v = world.more w)"

interpretation framed: effect framed
  by unfold_locales (auto simp: framed_def)

text \<open>The commands that are added satisfy a predicate.\<close>

definition adds :: "(cmd \<Rightarrow> bool) \<Rightarrow> ('r, 'z) world_scheme \<Rightarrow> ('r, 'z) world_scheme \<Rightarrow> bool" where
  "adds P w v = (\<exists>xs. w_cmds v = xs @ w_cmds w \<and> (\<forall>c \<in> set xs. P c))"

interpretation adds: effect "adds P" for P
proof unfold_locales
  show "adds P s s" for s by (simp add: adds_def)
  show "adds P s t \<Longrightarrow> adds P t u \<Longrightarrow> adds P s u" for s t u
    unfolding adds_def by (metis Un_iff append.assoc set_append)
qed

text \<open>Each added command satisfies a predicate of it and the commands before it.\<close>

definition addsAfter :: "(cmd \<Rightarrow> cmd list \<Rightarrow> bool) \<Rightarrow> ('r, 'z) world_scheme \<Rightarrow> ('r, 'z) world_scheme \<Rightarrow> bool" where
  "addsAfter P w t = (\<exists>xs. w_cmds t = xs @ w_cmds w \<and> (\<forall>ys d zs. xs = ys @ d # zs \<longrightarrow> P d (zs @ w_cmds w)))"

interpretation addsAfter: effect "addsAfter P" for P
proof unfold_locales
  show "addsAfter P s s" for s by (simp add: addsAfter_def)
  show "addsAfter P s u" if st: "addsAfter P s t" and tu: "addsAfter P t u" for s t u
  proof -
    obtain xs where xs: "w_cmds t = xs @ w_cmds s" "\<And>ys d zs. xs = ys @ d # zs \<Longrightarrow> P d (zs @ w_cmds s)"
      using st unfolding addsAfter_def by auto
    obtain us where us: "w_cmds u = us @ w_cmds t" "\<And>ys d zs. us = ys @ d # zs \<Longrightarrow> P d (zs @ w_cmds t)"
      using tu unfolding addsAfter_def by auto
    have "P d (zs @ w_cmds s)" if eq: "us @ xs = ys @ d # zs" for ys d zs
    proof -
      from eq consider (new) vs where "us = ys @ d # vs" "zs = vs @ xs" | (old) vs where "xs = vs @ d # zs"
        by (auto simp: append_eq_append_conv2 append_eq_Cons_conv)
      then show ?thesis
      proof cases
        case new
        then show ?thesis using us(2) [of ys d vs] xs(1) by simp
      next
        case old
        then show ?thesis using xs(2) by blast
      qed
    qed
    then show ?thesis using xs us unfolding addsAfter_def by (intro exI [of _ "us @ xs"]) simp
  qed
qed

lemma adds_addsAfter: "adds P w t \<Longrightarrow> (\<And>c older. P c \<Longrightarrow> Q c older) \<Longrightarrow> addsAfter Q w t"
  by (auto simp: adds_def addsAfter_def)

lemma tick_effects [intro!]:
  "state_io_rel later (tick E)" "state_io_rel framed (tick E)" "state_io_rel (adds P) (tick E)"
  by (simp_all add: tick_def state_io_rel_def later_def framed_def adds_def)

lemma fireWatchdog_simps [simp]:
  "world.more (fireWatchdog w) = world.more w" "w_clock (fireWatchdog w) = w_clock w"
  "w_cmds (fireWatchdog w) = w_cmds w" "w_disk (fireWatchdog w) = w_disk w"
  "w_service (fireWatchdog w) = w_service w" "w_calls (fireWatchdog w) = w_calls w"
  by (simp_all add: fireWatchdog_def split: option.splits)

lemma watchdog_effects [intro!]:
  "state_io_rel framed (armWatchdog t b)" "state_io_rel framed (stopWatchdog E)" "state_io_rel framed cancelRunner"
  "state_io_rel later (armWatchdog t b)" "state_io_rel later (stopWatchdog E)" "state_io_rel later cancelRunner"
  "state_io_rel (adds P) (armWatchdog t b)" "state_io_rel (adds P) (stopWatchdog E)"
  "state_io_rel (adds P) cancelRunner"
  unfolding armWatchdog_def stopWatchdog_def
  by (auto intro!: framed.rules framed.modify_rule later.rules later.modify_rule adds.rules adds.modify_rule
      simp: framed_def later_def adds_def)

text \<open>The operations of the system run no command and keep the extension.\<close>

lemma os_framed [intro!]:
  "state_io_rel framed (timeNow E)" "state_io_rel framed (wallNow E)" "state_io_rel framed (randomText E)"
  "state_io_rel framed (osFails E)" "state_io_rel framed (waitTimer E d)" "state_io_rel framed (readFile E p)"
  "state_io_rel framed (mkdirAll E p)" "state_io_rel framed (createTemp E p q)"
  "state_io_rel framed (fileWrite E p c)" "state_io_rel framed (fileOp E)"
  "state_io_rel framed (osRename E p q)" "state_io_rel framed (osRemove E p)" "state_io_rel framed (osLstat E p)"
  unfolding os_defs
  by (auto intro!: framed.rules framed.modify_rule simp: framed_def Let_def split: node.split)

lemma os_later [intro!]:
  "state_io_rel later (timeNow E)" "state_io_rel later (wallNow E)" "state_io_rel later (randomText E)"
  "state_io_rel later (osFails E)" "state_io_rel later (waitTimer E d)" "state_io_rel later (readFile E p)"
  "state_io_rel later (mkdirAll E p)" "state_io_rel later (createTemp E p q)"
  "state_io_rel later (fileWrite E p c)" "state_io_rel later (fileOp E)"
  "state_io_rel later (osRename E p q)" "state_io_rel later (osRemove E p)" "state_io_rel later (osLstat E p)"
  unfolding os_defs
  by (auto intro!: later.rules later.modify_rule simp: later_def Let_def split: node.split)

lemma os_adds [intro!]:
  "state_io_rel (adds P) (timeNow E)" "state_io_rel (adds P) (wallNow E)" "state_io_rel (adds P) (randomText E)"
  "state_io_rel (adds P) (osFails E)" "state_io_rel (adds P) (waitTimer E d)" "state_io_rel (adds P) (readFile E p)"
  "state_io_rel (adds P) (mkdirAll E p)" "state_io_rel (adds P) (createTemp E p q)"
  "state_io_rel (adds P) (fileWrite E p c)" "state_io_rel (adds P) (fileOp E)"
  "state_io_rel (adds P) (osRename E p q)" "state_io_rel (adds P) (osRemove E p)" "state_io_rel (adds P) (osLstat E p)"
  unfolding os_defs
  by (auto intro!: adds.rules adds.modify_rule simp: adds_def Let_def split: node.split)

lemma rcloneRun_framed [intro!]: "state_io_rel framed (rcloneRun E b args)"
  unfolding rcloneRun_def by (auto intro!: framed.rules framed.modify_rule simp: framed_def)

lemma rcloneRun_later [intro!]: "state_io_rel later (rcloneRun E b args)"
  by (auto simp: state_io_rel_def rcloneRun_def tick_def later_def suffix_def modify_def
      split: prod.splits)

lemma rcloneRun_adds:
  assumes "\<And>c. c_args c = args @ [noCheckBucket] \<Longrightarrow> P c"
  shows "state_io_rel (adds P) (rcloneRun E b args)"
  using assms by (auto simp: state_io_rel_def rcloneRun_def tick_def adds_def modify_def split: prod.splits)

end
