(* ===== verification/LocalState.thy ===== *)
theory LocalState
  imports StateFile World
begin

text \<open>
  The local state file of src/syncstate.go: \<open>readLocalSyncFile\<close> and the atomic
  replacement in \<open>writeLocalSyncFile\<close>. The lemmas show that a write, whatever step of it
  fails, leaves the old file or the complete new one, and that a later read returns what
  was written.
\<close>

definition localStateTempPrefix :: string where
  "localStateTempPrefix = ''.rcw-tmp-''"

definition readLocalSyncFile :: "'r env \<Rightarrow> string \<Rightarrow> (('r, 'z) world_scheme, goerr + (syncFileData \<times> bool)) state" where
  "readLocalSyncFile E path = do {
     c \<leftarrow> readFile E path;
     State_Monad.return (case c of
         Inl err \<Rightarrow> if isNotExist err then Inr (zeroData, False)
                    else Inl (Wrapped ''read local state file: %w'' [] err)
       | Inr contents \<Rightarrow>
           (case decodeSyncFile contents of
              Inl err \<Rightarrow> Inl (Wrapped ''invalid local state file: %w'' [] err)
            | Inr data \<Rightarrow>
                if Generation data = 0
                then Inl (errorString ''invalid local state file: generation must be at least 1'')
                else Inr (data, True))) }"

text \<open>The body of \<open>writeLocalSyncFile\<close> once the temporary file exists.\<close>

definition replaceFile :: "'r env \<Rightarrow> string \<Rightarrow> string \<Rightarrow> string \<Rightarrow> (('r, 'z) world_scheme, goerr option) state" where
  "replaceFile E name path contents = do {
     e \<leftarrow> fileWrite E name contents;
     (case e of Some err \<Rightarrow> State_Monad.return (Some err) | None \<Rightarrow> do {
     e \<leftarrow> fileOp E;
     (case e of Some err \<Rightarrow> State_Monad.return (Some err) | None \<Rightarrow> do {
     e \<leftarrow> fileOp E;
     (case e of Some err \<Rightarrow> State_Monad.return (Some err) | None \<Rightarrow> do {
     e \<leftarrow> osRename E name path;
     (case e of Some err \<Rightarrow> State_Monad.return (Some err) | None \<Rightarrow> do {
     e \<leftarrow> fileOp E;
     (case e of Some err \<Rightarrow> State_Monad.return (Some err) | None \<Rightarrow> fileOp E) }) }) }) }) }"

definition writeLocalSyncFile :: "'r env \<Rightarrow> string \<Rightarrow> syncFileData \<Rightarrow> (('r, 'z) world_scheme, goerr option) state" where
  "writeLocalSyncFile E path data =
     (if RepositoryID data = [] then State_Monad.return (Some (errorString ''repository ID must be set''))
      else if Generation data = 0 then State_Monad.return (Some (errorString ''generation must be at least 1''))
      else (case marshalLocal data of
        Inl err \<Rightarrow> State_Monad.return (Some err)
      | Inr contents \<Rightarrow> do {
          m \<leftarrow> mkdirAll E (pathDir path);
          (case m of Some err \<Rightarrow> State_Monad.return (Some err) | None \<Rightarrow> do {
          f \<leftarrow> createTemp E (pathDir path) (pathBase path @ localStateTempPrefix);
          (case f of Inl err \<Rightarrow> State_Monad.return (Some err) | Inr name \<Rightarrow> do {
          e \<leftarrow> replaceFile E name path contents;
          osRemove E name;
          State_Monad.return e }) }) }))"

section \<open>Reads and writes of the local state\<close>

lemma local_effects [intro!]:
  "state_io_rel framed (readLocalSyncFile E p)" "state_io_rel framed (writeLocalSyncFile E p d)"
  "state_io_rel framed (replaceFile E name p c)"
  "state_io_rel later (readLocalSyncFile E p)" "state_io_rel later (writeLocalSyncFile E p d)"
  "state_io_rel later (replaceFile E name p c)"
  "state_io_rel (adds P) (readLocalSyncFile E p)" "state_io_rel (adds P) (writeLocalSyncFile E p d)"
  "state_io_rel (adds P) (replaceFile E name p c)"
  unfolding readLocalSyncFile_def writeLocalSyncFile_def replaceFile_def
  by (auto intro!: framed.rules later.rules adds.rules)

definition holdsLocal :: "disk \<Rightarrow> string \<Rightarrow> syncFileData \<Rightarrow> bool" where
  "holdsLocal d path data = (\<exists>contents. d path = Some (File contents) \<and> marshalLocal data = Inr contents)"

text \<open>The old file or the new one, and the new one when there is no error.\<close>

definition replacedFile :: "string \<Rightarrow> string \<Rightarrow> ('r, 'z) world_scheme \<Rightarrow> goerr option \<Rightarrow> ('r, 'z) world_scheme \<Rightarrow> bool" where
  "replacedFile path contents w r t =
     (w_disk t path = Some (File contents) \<or> (r \<noteq> None \<and> w_disk t path = w_disk w path))"

lemma replaceFile_wp:
  assumes "name \<noteq> path" and "w_disk v path = w_disk w path"
  shows "wp (replaceFile E name path contents) (replacedFile path contents w) v"
  using assms
  by (auto simp: replaceFile_def wp_simps fileWrite_def fileOp_def osRename_def osFails_def tick_def replacedFile_def)

lemma sibling_temp:
  assumes "cleanFile path"
  shows "pathJoin [pathDir path, (pathBase path @ localStateTempPrefix) @ dec n] \<noteq> path"
    "pathDir path \<noteq> path"
proof -
  have "slash \<notin> set (localStateTempPrefix @ dec n)"
    using dec_digits [of n] by (auto simp: localStateTempPrefix_def list_all_iff isDigit_def byte_of_def)
  then show "pathJoin [pathDir path, (pathBase path @ localStateTempPrefix) @ dec n] \<noteq> path" "pathDir path \<noteq> path"
    using pathJoin_sibling [OF assms, of "localStateTempPrefix @ dec n"] by (simp_all add: localStateTempPrefix_def)
qed

lemma osRemove_disk: "name \<noteq> path \<Longrightarrow> wp (osRemove E name) (\<lambda>_ t. w_disk t path = w_disk w path) w"
  by (simp add: osRemove_def osFails_def tick_def wp_simps)

lemma writeLocalSyncFile_disk:
  assumes "cleanFile path"
  shows "wp (writeLocalSyncFile E path data) (\<lambda>r t.
    holdsLocal (w_disk t) path data \<or> (r \<noteq> None \<and> w_disk t path = w_disk w path)) w"
proof -
  have rest: "wp (replaceFile E name path contents) (\<lambda>e. wp (osRemove E name) (\<lambda>_ t.
      (w_disk t path = Some (File contents) \<or> (\<exists>y. e = Some y) \<and> w_disk t path = w_disk w path))) v"
    if "w_disk v path = w_disk w path" "name \<noteq> path" for v :: "('a, 'b) world_scheme" and name contents
    by (rule wp_mono [OF replaceFile_wp [OF that(2,1)]], rule wp_mono [OF osRemove_disk [OF that(2)]])
      (auto simp: replacedFile_def)
  show ?thesis
    using sibling_temp [OF assms] sibling_temp(1) [OF assms, THEN not_sym]
    by (auto simp: writeLocalSyncFile_def wp_simps mkdirAll_def createTemp_def osFails_def tick_def Let_def
        holdsLocal_def intro!: rest split: sum.split option.split node.split)
qed

lemma readLocalSyncFile_holds:
  assumes "holdsLocal (w_disk w) path data" and "validData data" and "Generation data \<noteq> 0"
  shows "wp (readLocalSyncFile E path) (\<lambda>r _. r = Inr (data, True) \<or> isInl r) w"
  using assms marshalLocal_decode [of data]
  by (auto simp: readLocalSyncFile_def wp_simps readFile_def osFails_def tick_def holdsLocal_def)

end
