(* ===== verification/Filters.thy ===== *)
theory Filters
  imports GoPath
begin

text \<open>
  The filter patterns of src/payload.go: literal patterns for the state files, the escaped
  names of a scoped sync and the arguments common to every payload transfer. All of them
  are pure functions on byte strings that range over runes, as the code does.
\<close>

definition globMeta :: "rune \<Rightarrow> bool" where
  "globMeta c = (c \<in> {0x5C, 0x2A, 0x3F, 0x5B, 0x5D, 0x7B, 0x7D})"

definition literalRune :: "rune \<Rightarrow> string" where
  "literalRune c = (if globMeta c then [CHR 0x5C] else []) @ encodeRune c"

definition literalFilterPath :: "string \<Rightarrow> string" where
  "literalFilterPath path = concat (map literalRune (runes path))"

definition payloadSyncArgs :: "string \<Rightarrow> string \<Rightarrow> string list \<Rightarrow> string list \<Rightarrow> string list" where
  "payloadSyncArgs source destination stateFilters excludes =
     [''sync'', source, destination, ''--create-empty-src-dirs'', ''--delete-before'', ''--ignore-times'']
     @ concat (map (\<lambda>f. [''--exclude'', ''/'' @ f]) stateFilters)
     @ concat (map (\<lambda>p. [''--exclude'', p]) excludes)"

section \<open>Standard encoding of names\<close>

definition quoteRuneChar :: rune where "quoteRuneChar = 0x201B"

definition repeatRune :: "nat \<Rightarrow> rune \<Rightarrow> string" where
  "repeatRune n r = concat (replicate n (encodeRune r))"

definition standardRune :: "rune \<Rightarrow> string" where
  "standardRune c =
     (if 0 < c \<and> c < 32 then encodeRune (0x2400 + c)
      else if c = 127 then encodeRune 0x2421
      else if 0x2400 < c \<and> c \<le> 0x241F \<or> c = 0x2421 then encodeRune quoteRuneChar @ encodeRune c
      else encodeRune c)"

text \<open>One name; \<open>quotes\<close> counts the quote runes that have been read and not yet written.\<close>

fun standardName :: "nat \<Rightarrow> rune list \<Rightarrow> string" where
  "standardName quotes [] = repeatRune (quotes + quotes mod 2) quoteRuneChar"
| "standardName quotes (c # cs) =
     (if c = quoteRuneChar then standardName (Suc quotes) cs
      else let q = (if c \<noteq> 0x2400 \<and> c \<noteq> 0xFF0F then quotes + quotes mod 2 else quotes)
           in repeatRune q quoteRuneChar @ standardRune c @ standardName 0 cs)"

definition sharedDotNames :: "string list" where
  "sharedDotNames = map encodeRunes [[0xFF0E], [0xFF0E, 0xFF0E], [0x201B, 0xFF0E], [0x201B, 0xFF0E, 0x201B, 0xFF0E]]"

definition standardLocalPath :: "string \<Rightarrow> string" where
  "standardLocalPath relative = joinWith ''/''
     (map (\<lambda>name. if name \<in> set sharedDotNames then name else standardName 0 (runes name))
        (splitOn slash relative))"

text \<open>Two lower case hexadecimal digits.\<close>

definition hexDigit :: "nat \<Rightarrow> char" where
  "hexDigit n = (if n < 10 then chr (48 + n) else chr (87 + n))"

definition hex2 :: "nat \<Rightarrow> string" where
  "hex2 n = [hexDigit (n div 16), hexDigit (n mod 16)]"

definition scopeRune :: "rune \<Rightarrow> string" where
  "scopeRune c =
     (if c < 128 \<and> (isSpace c \<or> globMeta c) then CHR 0x5C # CHR ''x'' # hex2 c
      else if isSpace c then ''['' @ encodeRune c @ '']''
      else encodeRune c)"

definition scopeFilterPath :: "string \<Rightarrow> string" where
  "scopeFilterPath relative = concat (map scopeRune (runes (standardLocalPath relative)))"

section \<open>Literal patterns\<close>

text \<open>
  A glob without wildcards as rclone reads it: a backslash makes the next character
  literal, an unescaped metacharacter is not a literal pattern.
\<close>

fun literalGlob :: "rune list \<Rightarrow> rune list option" where
  "literalGlob [] = Some []"
| "literalGlob (c # cs) =
     (if c = 0x5C then (case cs of [] \<Rightarrow> None | d # ds \<Rightarrow> map_option ((#) d) (literalGlob ds))
      else if globMeta c then None else map_option ((#) c) (literalGlob cs))"

lemma runes_literal: "runes (literalFilterPath p) = concat (map (\<lambda>c. (if globMeta c then [0x5C] else []) @ [c]) (runes p))"
proof -
  let ?f = "\<lambda>c. (if globMeta c then [0x5C] else []) @ [c]"
  have "encodeRune 0x5C = [CHR 0x5C]"
    using chr_byte_of [of "CHR 0x5C"] by (simp add: encodeRune_def valid_rune_def byte_of_def)
  then have "literalRune c = encodeRunes (?f c)" for c by (simp add: literalRune_def)
  then have "concat (map literalRune rs) = encodeRunes (concat (map ?f rs))" for rs
    by (induction rs) simp_all
  moreover have "\<forall>r \<in> set (concat (map ?f (runes p))). valid_rune r"
    using runes_valid [of _ p] by (auto simp: valid_rune_def split: if_splits)
  ultimately show ?thesis by (simp add: literalFilterPath_def runes_encodeRunes)
qed

lemma literalGlob_literal: "literalGlob (runes (literalFilterPath p)) = Some (runes p)"
proof -
  have "literalGlob (concat (map (\<lambda>c. (if globMeta c then [0x5C] else []) @ [c]) rs)) = Some rs" for rs
    by (induction rs) (auto simp: globMeta_def)
  then show ?thesis by (simp add: runes_literal)
qed

section \<open>Scope lines\<close>

lemma byte_hexDigit: "n < 16 \<Longrightarrow> byte_of (hexDigit n) = (if n < 10 then 48 + n else 87 + n)"
  by (simp add: hexDigit_def byte_of_chr)

lemma encodeRune_no_low: "128 \<le> c \<Longrightarrow> x \<in> set (encodeRune c) \<Longrightarrow> 128 \<le> byte_of x"
  by (auto simp: encodeRune_def Let_def byte_of_chr valid_rune_def runeError_def split: if_splits)

text \<open>No byte of an escaped name is ASCII white space or a control character that ends a line.\<close>

lemma scopeRune_bytes: "x \<in> set (scopeRune c) \<Longrightarrow> byte_of x \<notin> {9, 10, 11, 12, 13, 32}"
proof -
  have hex: "\<lbrakk>c < 128; x \<in> set (hex2 c)\<rbrakk> \<Longrightarrow> 48 \<le> byte_of x"
    by (auto simp: hex2_def byte_hexDigit)
  have lits: "byte_of (CHR ''x'') = 120" "byte_of (CHR 0x5C) = 92" "byte_of (CHR ''['') = 91"
    "byte_of (CHR '']'') = 93" by (simp_all add: byte_of_def)
  have low: "c < 128 \<Longrightarrow> encodeRune c = [chr c]" "c < 128 \<Longrightarrow> byte_of (chr c) = c"
    by (simp_all add: encodeRune_def valid_rune_def byte_of_chr)
  assume x: "x \<in> set (scopeRune c)"
  consider "c < 128 \<and> (isSpace c \<or> globMeta c)" | "c < 128" "\<not> isSpace c" "\<not> globMeta c" | "128 \<le> c" by linarith
  then show ?thesis
  proof cases
    case 1
    then have "x = CHR 0x5C \<or> x = CHR ''x'' \<or> x \<in> set (hex2 c)" using x by (auto simp: scopeRune_def)
    then show ?thesis using 1 hex lits by (elim disjE) auto
  next
    case 2
    then show ?thesis using x low lits by (auto simp: scopeRune_def isSpace_def split: if_splits)
  next
    case 3
    then show ?thesis using x lits encodeRune_no_low [of c x]
      by (auto simp: scopeRune_def split: if_splits)
  qed
qed

lemma scopeFilterPath_bytes: "x \<in> set (scopeFilterPath p) \<Longrightarrow> byte_of x \<notin> {9, 10, 11, 12, 13, 32}"
  using scopeRune_bytes by (auto simp: scopeFilterPath_def)

end
