(* ===== verification/GoDuration.thy ===== *)
theory GoDuration
  imports GoTime
begin

text \<open>
  \<open>Duration.String\<close> and \<open>time.ParseDuration\<close>. Fractions are computed in double precision, as the library does:
  \<open>roundDouble\<close> rounds a positive fraction to 53 significant bits, ties to even. All values
  that occur are in the normal range and below the powers of ten a double represents
  exactly.
\<close>

section \<open>Printing\<close>

text \<open>\<open>Duration.String\<close>.\<close>

definition trimZeros :: "string \<Rightarrow> string" where
  "trimZeros s = rev (dropWhile (\<lambda>c. c = CHR ''0'') (rev s))"

definition fracText :: "nat \<Rightarrow> nat \<Rightarrow> string" where
  "fracText digits v = dec (v div 10 ^ digits) @
     (let f = trimZeros (padDec digits (v mod 10 ^ digits)) in if f = [] then [] else CHR ''.'' # f)"

definition durationText :: "nat \<Rightarrow> string" where
  "durationText u =
     (if u = 0 then ''0s''
      else if u < 1000 then dec u @ ''ns''
      else if u < 1000000 then fracText 3 u @ encodeRune 0xB5 @ ''s''
      else if u < 1000000000 then fracText 6 u @ ''ms''
      else
        (let secs = u div 1000000000; mins = secs div 60
         in (if mins div 60 = 0 then [] else dec (mins div 60) @ ''h'')
            @ (if mins = 0 then [] else dec (mins mod 60) @ ''m'')
            @ fracText 9 (u mod 60000000000) @ ''s''))"

definition durationString :: "duration \<Rightarrow> string" where
  "durationString d = (if d < 0 then ''-'' else []) @ durationText (nat \<bar>d\<bar>)"

section \<open>Double precision\<close>

function bitLength :: "int \<Rightarrow> nat" where
  "bitLength n = (if n \<le> 0 then 0 else Suc (bitLength (n div 2)))"
  by auto
termination by (relation "measure nat") auto

declare bitLength.simps [simp del]

definition floorLog :: "int \<Rightarrow> int \<Rightarrow> int" where
  "floorLog n d = (let a = bitLength n; b = bitLength d in
     if d * 2 ^ a \<le> n * 2 ^ b then int a - int b else int a - int b - 1)"

definition roundHalfEven :: "int \<Rightarrow> int \<Rightarrow> int" where
  "roundHalfEven n d = (let q = n div d; r = n mod d in
     if 2 * r < d \<or> (2 * r = d \<and> even q) then q else q + 1)"

text \<open>A number is a fraction \<open>(n, d)\<close> with \<open>0 < d\<close>.\<close>

definition roundDouble :: "int \<times> int \<Rightarrow> int \<times> int" where
  "roundDouble x = (case x of (n, d) \<Rightarrow>
     if n = 0 then (0, 1)
     else (let k = 52 - floorLog n d in
       if 0 \<le> k then (roundHalfEven (n * 2 ^ nat k) d, 2 ^ nat k)
       else (roundHalfEven n (d * 2 ^ nat (- k)) * 2 ^ nat (- k), 1)))"

definition fracMul :: "int \<times> int \<Rightarrow> int \<times> int \<Rightarrow> int \<times> int" where
  "fracMul x y = roundDouble (fst x * fst y, snd x * snd y)"

definition fracDiv :: "int \<times> int \<Rightarrow> int \<times> int \<Rightarrow> int \<times> int" where
  "fracDiv x y = roundDouble (fst x * snd y, snd x * fst y)"

text \<open>\<open>uint64(float64(f) * (float64(unit) / scale))\<close>.\<close>

definition fractionNanos :: "int \<Rightarrow> int \<Rightarrow> int \<Rightarrow> int" where
  "fractionNanos f unit scale =
     (let x = fracMul (roundDouble (f, 1)) (fracDiv (roundDouble (unit, 1)) (roundDouble (scale, 1)))
      in fst x div snd x)"

section \<open>Parsing\<close>

definition maxUint63 :: int where
  "maxUint63 = 2 ^ 63"

text \<open>Leading digits; \<open>None\<close> on overflow.\<close>

fun leadingInt :: "int \<Rightarrow> string \<Rightarrow> (int \<times> string) option" where
  "leadingInt x [] = Some (x, [])"
| "leadingInt x (c # s) =
     (if \<not> isDigit c then Some (x, c # s)
      else if x > maxUint63 div 10 then None
      else (let x' = x * 10 + int (digitVal c) in if x' > maxUint63 then None else leadingInt x' s))"

text \<open>The digits of a fraction that fit, and the power of ten they are over.\<close>

fun leadingFraction :: "bool \<Rightarrow> int \<Rightarrow> int \<Rightarrow> string \<Rightarrow> int \<times> int \<times> string" where
  "leadingFraction over x scale [] = (x, scale, [])"
| "leadingFraction over x scale (c # s) =
     (if \<not> isDigit c then (x, scale, c # s)
      else if over \<or> x > (maxUint63 - 1) div 10 then leadingFraction True x scale s
      else (let y = x * 10 + int (digitVal c) in
        if y > maxUint63 then leadingFraction True x scale s else leadingFraction False y (scale * 10) s))"

definition unitNanos :: "string \<Rightarrow> int option" where
  "unitNanos u =
     (if u = ''ns'' then Some 1
      else if u = ''us'' \<or> u = encodeRune 0xB5 @ ''s'' \<or> u = encodeRune 0x3BC @ ''s'' then Some 1000
      else if u = ''ms'' then Some 1000000
      else if u = ''s'' then Some 1000000000
      else if u = ''m'' then Some 60000000000
      else if u = ''h'' then Some 3600000000000
      else None)"

definition unitChar :: "char \<Rightarrow> bool" where
  "unitChar c = (c \<noteq> CHR ''.'' \<and> \<not> isDigit c)"

text \<open>The number before a unit, as \<open>(v, f, scale)\<close>, and what follows.\<close>

definition parseNumber :: "string \<Rightarrow> (int \<times> int \<times> int \<times> string) option" where
  "parseNumber s =
     (case leadingInt 0 s of
        None \<Rightarrow> None
      | Some (v, s1) \<Rightarrow>
          (let pre = (length s1 \<noteq> length s) in
           case (if s1 \<noteq> [] \<and> hd s1 = CHR ''.'' then
                   (case leadingFraction False 0 1 (tl s1) of (f, scale, s2) \<Rightarrow>
                      (f, scale, s2, length s2 \<noteq> length (tl s1)))
                 else (0, 1, s1, False))
           of (f, scale, s2, post) \<Rightarrow> if \<not> pre \<and> \<not> post then None else Some (v, f, scale, s2)))"

text \<open>The nanoseconds of one number with its unit; \<open>None\<close> is an unknown unit or an overflow.\<close>

definition termNanos :: "int \<Rightarrow> int \<Rightarrow> int \<Rightarrow> string \<Rightarrow> int option" where
  "termNanos v f scale u =
     (case unitNanos u of
        None \<Rightarrow> None
      | Some unit \<Rightarrow>
          if v > maxUint63 div unit then None
          else (let x = v * unit + (if f > 0 then fractionNanos f unit scale else 0) in
            if x > maxUint63 then None else Some x))"

function parseTerms :: "int \<Rightarrow> string \<Rightarrow> int option" where
  "parseTerms d s =
     (if s = [] then Some d
      else if \<not> (hd s = CHR ''.'' \<or> isDigit (hd s)) then None
      else (case parseNumber s of
        None \<Rightarrow> None
      | Some (v, f, scale, s1) \<Rightarrow>
          (let u = takeWhile unitChar s1; s2 = dropWhile unitChar s1 in
           if u = [] \<or> length s \<le> length s2 then None
           else (case termNanos v f scale u of
               None \<Rightarrow> None
             | Some x \<Rightarrow> if d + x > maxUint63 then None else parseTerms (d + x) s2))))"
  by auto
termination by (relation "measure (length \<circ> snd)") auto

declare parseTerms.simps [simp del]

definition parseDuration :: "string \<Rightarrow> duration option" where
  "parseDuration orig =
     (let neg = (orig \<noteq> [] \<and> hd orig = CHR ''-'');
          s = (if orig \<noteq> [] \<and> (hd orig = CHR ''-'' \<or> hd orig = CHR ''+'') then tl orig else orig)
      in if s = ''0'' then Some 0
         else if s = [] then None
         else (case parseTerms 0 s of
             None \<Rightarrow> None
           | Some d \<Rightarrow> if neg then Some (- d)
                     else if d > maxUint63 - 1 then None else Some d))"

section \<open>Bounds\<close>

lemma leadingInt_length: "leadingInt x s = Some (v, t) \<Longrightarrow> length t \<le> length s"
  by (induction x s rule: leadingInt.induct) (auto simp: Let_def split: if_splits)

lemma leadingFraction_length: "leadingFraction over x scale s = (f, k, t) \<Longrightarrow> length t \<le> length s"
  by (induction over x scale s rule: leadingFraction.induct) (auto simp: Let_def split: if_splits)

lemma parseNumber_length: "parseNumber s = Some (v, f, k, t) \<Longrightarrow> length t < length s"
proof -
  assume p: "parseNumber s = Some (v, f, k, t)"
  then obtain x s1 where s1: "leadingInt 0 s = Some (x, s1)" by (auto simp: parseNumber_def split: option.splits)
  have le: "length s1 \<le> length s" by (rule leadingInt_length [OF s1])
  show ?thesis
  proof (cases "s1 \<noteq> [] \<and> hd s1 = CHR ''.''")
    case True
    then show ?thesis
      using p s1 le leadingFraction_length [of False 0 1 "tl s1"]
      by (cases s1) (auto simp: parseNumber_def Let_def split: prod.splits if_splits)
  next
    case False
    then show ?thesis using p s1 le by (auto simp: parseNumber_def Let_def split: if_splits)
  qed
qed

text \<open>The guard on the length in \<open>parseTerms\<close> never decides.\<close>

lemma parseTerms_shorter: "parseNumber s = Some (v, f, k, t) \<Longrightarrow> length (dropWhile unitChar t) < length s"
  using parseNumber_length [of s] length_dropWhile_le [of unitChar t] by fastforce

definition isFrac :: "int \<times> int \<Rightarrow> bool" where
  "isFrac x = (0 \<le> fst x \<and> 0 \<le> snd x)"

lemma div_nonneg: "0 \<le> n \<Longrightarrow> 0 \<le> d \<Longrightarrow> 0 \<le> n div d" for n d :: int
  by (cases "d = 0") (simp_all add: pos_imp_zdiv_nonneg_iff)

lemma roundDouble_frac: "isFrac x \<Longrightarrow> isFrac (roundDouble x)"
  by (auto simp: isFrac_def roundDouble_def roundHalfEven_def Let_def div_nonneg split: prod.split)

lemma fractionNanos_nonneg: "0 \<le> f \<Longrightarrow> 0 \<le> unit \<Longrightarrow> 0 \<le> scale \<Longrightarrow> 0 \<le> fractionNanos f unit scale"
proof -
  assume a: "0 \<le> f" "0 \<le> unit" "0 \<le> scale"
  have mul: "isFrac (fracMul x y)" "isFrac (fracDiv x y)" if "isFrac x" "isFrac y" for x y
    using that roundDouble_frac by (auto simp: fracMul_def fracDiv_def isFrac_def [of "(_, _)"] isFrac_def [of x] isFrac_def [of y])
  have "isFrac (roundDouble (n, 1))" if "0 \<le> n" for n
    using that roundDouble_frac [of "(n, 1)"] by (simp add: isFrac_def)
  then show ?thesis
    using a mul by (auto simp: fractionNanos_def Let_def div_nonneg isFrac_def)
qed

lemma leadingInt_nonneg: "leadingInt x s = Some (v, t) \<Longrightarrow> 0 \<le> x \<Longrightarrow> 0 \<le> v"
  by (induction x s rule: leadingInt.induct) (auto simp: Let_def split: if_splits)

lemma leadingFraction_nonneg:
  "leadingFraction over x scale s = (f, k, t) \<Longrightarrow> 0 \<le> x \<Longrightarrow> 0 < scale \<Longrightarrow> 0 \<le> f \<and> 0 < k"
  by (induction over x scale s rule: leadingFraction.induct) (auto simp: Let_def split: if_splits)

lemma parseNumber_nonneg: "parseNumber s = Some (v, f, k, t) \<Longrightarrow> 0 \<le> v \<and> 0 \<le> f \<and> 0 < k"
  by (auto simp: parseNumber_def Let_def dest: leadingInt_nonneg leadingFraction_nonneg split: option.splits prod.splits if_splits)

lemma unitNanos_pos: "unitNanos u = Some n \<Longrightarrow> 0 < n"
  by (auto simp: unitNanos_def split: if_splits)

lemma termNanos_bounds:
  "termNanos v f k u = Some x \<Longrightarrow> 0 \<le> v \<Longrightarrow> 0 \<le> f \<Longrightarrow> 0 < k \<Longrightarrow> 0 \<le> x \<and> x \<le> maxUint63"
  using fractionNanos_nonneg [of f _ k] unitNanos_pos [of u]
  by (fastforce simp: termNanos_def Let_def intro: add_nonneg_nonneg split: option.splits if_splits)

lemma parseTerms_bound: "parseTerms d s = Some n \<Longrightarrow> 0 \<le> d \<Longrightarrow> d \<le> maxUint63 \<Longrightarrow> 0 \<le> n \<and> n \<le> maxUint63"
proof (induction "length s" arbitrary: d s rule: less_induct)
  case less
  show ?case
  proof (cases "s = []")
    case True
    then show ?thesis using less.prems by (simp add: parseTerms.simps [of d "[]"])
  next
    case False
    then obtain v f k t x where p: "parseNumber s = Some (v, f, k, t)" "termNanos v f k (takeWhile unitChar t) = Some x"
      "d + x \<le> maxUint63" "parseTerms (d + x) (dropWhile unitChar t) = Some n"
      using less.prems(1) by (subst (asm) parseTerms.simps) (auto simp: Let_def split: if_splits option.splits prod.splits)
    then have "0 \<le> x" using termNanos_bounds parseNumber_nonneg by blast
    then show ?thesis
      using less.hyps [OF parseTerms_shorter [OF p(1)] p(4)] less.prems p(3) by simp
  qed
qed

lemma parseDuration_bounds:
  assumes "parseDuration s = Some d"
  shows "- (2 ^ 63) \<le> d \<and> d < 2 ^ 63"
proof -
  have b: "0 \<le> n \<and> n \<le> 2 ^ 63" if "parseTerms 0 t = Some n" for t n
    using parseTerms_bound [OF that] by (simp add: maxUint63_def)
  show ?thesis
    using assms b [of "tl s"] b [of s]
    by (fastforce simp: parseDuration_def Let_def maxUint63_def split: if_splits option.splits)
qed

lemma parseDuration_unsigned:
  assumes "parseDuration s = Some d" "s \<noteq> []" "hd s \<noteq> CHR ''-''"
  shows "0 \<le> d"
proof -
  have "parseTerms 0 t = Some n \<Longrightarrow> 0 \<le> n" for t n
    using parseTerms_bound [of 0 t n] by (simp add: maxUint63_def)
  then show ?thesis using assms by (auto simp: parseDuration_def Let_def split: if_splits option.splits)
qed

end
