(* ===== verification/Options.thy ===== *)
theory Options
  imports Errors GoDuration
begin

text \<open>
  The flag values of src/options.go: how long startup waits for a lock (\<open>lockWait\<close>) and the
  list of exclusion patterns. \<open>Set\<close> returns the new value or the error; the receiver a
  failing \<open>Set\<close> leaves behind is not used, because parsing stops. The lemmas bound what a
  value that is accepted can be.
\<close>

section \<open>Exclusion patterns\<close>

definition excludeSet :: "string list \<Rightarrow> string \<Rightarrow> goerr + string list" where
  "excludeSet patterns value =
     (if value = [] then Inl (errorString ''exclude pattern must not be empty'')
      else Inr (patterns @ [value]))"

definition excludeString :: "string list \<Rightarrow> string" where
  "excludeString patterns = joinWith '','' patterns"

section \<open>Waiting for a lock\<close>

record lockWait =
  wait_duration :: duration
  wait_infinite :: bool
  wait_explicit :: bool

definition noLockWait :: lockWait where
  "noLockWait = \<lparr>wait_duration = 0, wait_infinite = False, wait_explicit = False\<rparr>"

definition hasMillis :: "string \<Rightarrow> bool" where
  "hasMillis value = (\<exists>k < length value. prefix ''ms'' (drop k value))"

definition waitRune :: "rune \<Rightarrow> bool" where
  "waitRune r = ((48 \<le> r \<and> r \<le> 57) \<or> r = 46 \<or> r = 115 \<or> r = 109 \<or> r = 104)"

definition lockWaitSet :: "string \<Rightarrow> goerr + lockWait" where
  "lockWaitSet value =
     (if value = ''inf'' then Inr \<lparr>wait_duration = 0, wait_infinite = True, wait_explicit = True\<rparr>
      else if value = ''0'' then Inr \<lparr>wait_duration = 0, wait_infinite = False, wait_explicit = True\<rparr>
      else if value = [] then Inl (errorString ''lock wait must be 0, a duration, or inf'')
      else if hasMillis value
      then Inl (Errorf ''invalid lock wait %q: use only s, m, and h duration units'' [Str value])
      else if \<not> list_all waitRune (runes value)
      then Inl (Errorf ''invalid lock wait %q: use only s, m, and h duration units'' [Str value])
      else (case parseDuration value of
        None \<Rightarrow> Inl (Errorf ''invalid lock wait %q: use 0, a positive duration with s/m/h units, or inf'' [Str value])
      | Some d \<Rightarrow>
          if d \<le> 0
          then Inl (Errorf ''invalid lock wait %q: use 0, a positive duration with s/m/h units, or inf'' [Str value])
          else Inr \<lparr>wait_duration = d, wait_infinite = False, wait_explicit = True\<rparr>))"

definition lockWaitString :: "lockWait option \<Rightarrow> string" where
  "lockWaitString receiver =
     (case receiver of
        None \<Rightarrow> ''default''
      | Some w \<Rightarrow>
          if wait_infinite w then ''inf''
          else if wait_duration w = 0 then (if \<not> wait_explicit w then ''default'' else ''0'')
          else trimSpace (durationString (wait_duration w)))"

text \<open>An accepted value is explicit, and infinite, zero or a positive 64-bit duration.\<close>

definition validWait :: "lockWait \<Rightarrow> bool" where
  "validWait w = (if wait_infinite w then wait_duration w = 0 else 0 \<le> wait_duration w \<and> wait_duration w < 2 ^ 63)"

lemma lockWaitSet_valid: "lockWaitSet value = Inr w \<Longrightarrow> wait_explicit w \<and> validWait w \<and>
    (wait_duration w = 0 \<and> \<not> wait_infinite w \<longleftrightarrow> value = ''0'')"
  using parseDuration_bounds [of "value"]
  by (auto simp: lockWaitSet_def validWait_def split: if_splits option.splits)

lemma noLockWait_valid: "validWait noLockWait"
  by (simp add: validWait_def noLockWait_def)

end
