(* ===== verification/Scopes.thy ===== *)
theory Scopes
  imports GoPath Filters
begin

text \<open>
  The pure part of the scoped synchronisation in src/payload.go: which changed paths are
  valid, their ancestors, and how overlapping scopes collapse (\<open>reconciliationScopes\<close>), and
  the lines of the filter file (\<open>syncScopeGroup\<close>). The lemmas show that collapsing keeps
  every path covered and leaves no scope below another, and that rclone reads back from the
  file the lines that were meant.
\<close>

section \<open>Paths and their ancestors\<close>

definition validChange :: "string \<Rightarrow> bool" where
  "validChange relative = (\<not> (relative = [] \<or> isAbs relative \<or> pathClean relative \<noteq> relative \<or>
     relative = dotdot \<or> prefix ''../'' relative))"

text \<open>
  The parents the loops \<open>for parent := path.Dir(relative); parent != "."; ...\<close> visit. On an
  absolute path, which has been rejected before, \<open>path.Dir\<close> would stay at the root: the
  list ends there.
\<close>

function ancestors :: "string \<Rightarrow> string list" where
  "ancestors p =
     (let parent = pathDir p in
      if parent = dot \<or> length p \<le> length parent then [] else parent # ancestors parent)"
  by auto
termination by (relation "measure length") auto

declare ancestors.simps [simp del]

text \<open>The nearest ancestor, or the path itself, whose name is valid UTF-8; the root is.\<close>

definition representable :: "string \<Rightarrow> string" where
  "representable relative =
     (case find validString (relative # ancestors relative) of None \<Rightarrow> dot | Some p \<Rightarrow> p)"

section \<open>Collapsing\<close>

fun collapse :: "string list \<Rightarrow> string list \<Rightarrow> string list" where
  "collapse selected [] = []"
| "collapse selected (relative # rest) =
     (if relative \<in> set selected \<or> (\<exists>parent \<in> set (ancestors relative). parent \<in> set selected)
      then collapse selected rest
      else relative # collapse (relative # selected) rest)"

definition collapseScopes :: "string list \<Rightarrow> string list" where
  "collapseScopes normalized = collapse [] (sort normalized)"

section \<open>The filter file\<close>

text \<open>Each pattern is written once, in the order of its first use.\<close>

fun firstUses :: "string list \<Rightarrow> string list \<Rightarrow> string list" where
  "firstUses written [] = []"
| "firstUses written (pattern # rest) =
     (if pattern \<in> set written then firstUses written rest
      else pattern # firstUses (pattern # written) rest)"

definition scopePatterns :: "bool \<Rightarrow> string \<Rightarrow> string list" where
  "scopePatterns createDirectories relative =
     (let literal = scopeFilterPath relative in
      [literal, literal @ ''/**''] @ (if createDirectories then map scopeFilterPath (ancestors relative) else []))"

definition scopeLines :: "bool \<Rightarrow> string list \<Rightarrow> string list" where
  "scopeLines createDirectories scopes =
     map (\<lambda>pattern. ''+ /'' @ pattern) (firstUses [] (concat (map (scopePatterns createDirectories) scopes)))
     @ [''- /**'']"

definition newline :: char where
  "newline = CHR 0x0A"

definition scopeFile :: "bool \<Rightarrow> string list \<Rightarrow> string" where
  "scopeFile createDirectories scopes =
     concat (map (\<lambda>line. line @ [newline]) (scopeLines createDirectories scopes))"

section \<open>Relative paths by their components\<close>

definition relPath :: "string list \<Rightarrow> bool" where
  "relPath cs = (\<forall>c \<in> set cs. plainComp c \<and> c \<noteq> dotdot)"

abbreviation rel :: "string list \<Rightarrow> string" where
  "rel \<equiv> unComps False"

lemma relPath_append [simp]: "relPath (xs @ ys) \<longleftrightarrow> relPath xs \<and> relPath ys"
  by (auto simp: relPath_def)

lemma rel_snoc: "rel (ds @ [b]) = (if ds = [] \<and> b = [] then dot else if ds = [] then b else joinWith ''/'' ds @ ''/'' @ b)"
  by (simp add: unComps_def joinWith_snoc)

lemma rel_nonempty: "relPath cs \<Longrightarrow> cs \<noteq> [] \<Longrightarrow> rel cs = joinWith ''/'' cs \<and> rel cs \<noteq> []"
  using joinWith_slash_nonempty [of cs] by (auto simp: unComps_def relPath_def plainComp_def)

lemma comps_rel: "relPath cs \<Longrightarrow> comps (rel cs) = cs"
proof (cases "cs = []")
  case True
  then show ?thesis by (simp add: comps_def unComps_def isAbs_def)
next
  case False
  assume cs: "relPath cs"
  have "splitOn slash (rel cs) = cs"
    using rel_nonempty [OF cs False] cs False splitOn_joinWith [of cs slash] by (auto simp: relPath_def plainComp_def)
  then show ?thesis
    using cleanComps_plain [of cs "isAbs (rel cs)" "[]"] cs by (simp add: comps_def relPath_def)
qed

lemma rel_inject: "relPath cs \<Longrightarrow> relPath ds \<Longrightarrow> rel cs = rel ds \<longleftrightarrow> cs = ds"
  using comps_rel by metis

lemma isAbs_rel: "relPath cs \<Longrightarrow> \<not> isAbs (rel cs)"
  using rel_nonempty [of cs]
  by (cases cs; cases "hd cs"; cases "tl cs") (auto simp: isAbs_def unComps_def relPath_def plainComp_def)

lemma pathClean_rel: "relPath cs \<Longrightarrow> pathClean (rel cs) = rel cs"
  by (simp add: pathClean_def isAbs_rel comps_rel)

lemma normalStack_dotdot:
  assumes "normalStack r (rev cs)" "c \<in> set cs" "c = dotdot"
  shows "hd cs = dotdot"
  using assms
proof (induction cs rule: rev_induct)
  case (snoc x xs)
  have all: "c = x \<Longrightarrow> \<forall>d \<in> set xs. d = dotdot" and x: "normalStack r (rev xs)"
    using snoc.prems(1,3) by simp_all
  show ?case
  proof (cases "c \<in> set xs")
    case True
    then have "hd xs = dotdot" using snoc.IH [OF x] snoc.prems(3) by blast
    then show ?thesis using True by (cases xs) auto
  next
    case False
    then have "c = x" using snoc.prems(2) by simp
    then show ?thesis using all snoc.prems(3) by (cases xs) auto
  qed
qed simp

lemma validChange_comps:
  assumes "validChange p"
  shows "relPath (comps p) \<and> p = rel (comps p)"
proof -
  have p: "p = rel (comps p)" "\<not> isAbs p" using assms by (auto simp: validChange_def pathClean_def)
  have "c \<noteq> dotdot" if c: "c \<in> set (comps p)" for c
  proof
    assume "c = dotdot"
    then have hd: "hd (comps p) = dotdot" using normalStack_dotdot [OF comps_normal] c by auto
    obtain x xs where cs: "comps p = x # xs" using c by (cases "comps p") auto
    then have "x = dotdot" using hd by simp
    then have "p = dotdot \<or> prefix ''../'' p" using p(1) cs by (cases xs) (auto simp: unComps_def)
    then show False using assms by (auto simp: validChange_def)
  qed
  then have "relPath (comps p)" using comps_plain [of _ p] by (simp add: relPath_def)
  then show ?thesis using p by simp
qed

lemma validChange_rel: "relPath cs \<Longrightarrow> validChange (rel cs)"
proof -
  assume cs: "relPath cs"
  have "rel cs = dotdot \<or> prefix ''../'' (rel cs) \<Longrightarrow> False"
  proof -
    assume up: "rel cs = dotdot \<or> prefix ''../'' (rel cs)"
    then obtain rest where "rel cs = dotdot \<or> rel cs = dotdot @ slash # rest" by (auto simp: prefix_def)
    then have "hd (splitOn slash (rel cs)) = dotdot" by auto
    moreover have "cs \<noteq> [] \<Longrightarrow> splitOn slash (rel cs) = cs"
      using rel_nonempty [OF cs] cs splitOn_joinWith [of cs slash] by (auto simp: relPath_def plainComp_def)
    ultimately show False
      using cs up by (cases cs) (auto simp: relPath_def unComps_def)
  qed
  moreover have "rel cs \<noteq> []" using rel_nonempty [OF cs] by (cases cs) (auto simp: unComps_def)
  ultimately show ?thesis using cs by (auto simp: validChange_def isAbs_rel pathClean_rel)
qed

lemma pathDir_plain: "slash \<notin> set b \<Longrightarrow> pathDir b = dot"
proof -
  assume "slash \<notin> set b"
  then have "upToLastSlash b = []" by (auto simp: upToLastSlash_def)
  then show ?thesis by (simp add: pathDir_def pathClean_def unComps_def comps_def isAbs_def)
qed

lemma pathDir_rel:
  assumes "relPath (ds @ [b])"
  shows "pathDir (rel (ds @ [b])) = rel ds"
proof (cases "ds = []")
  case True
  have "slash \<notin> set b" "b \<noteq> []" using assms by (auto simp: relPath_def plainComp_def)
  then show ?thesis using True by (simp add: pathDir_plain unComps_def)
next
  case False
  have ds: "relPath ds" and b: "slash \<notin> set b" using assms by (auto simp: relPath_def plainComp_def)
  have join: "joinWith ''/'' ds \<noteq> []" "rel ds = joinWith ''/'' ds" using rel_nonempty [OF ds False] by auto
  have "rel (ds @ [b]) = rel ds @ slash # b" using False join by (simp add: rel_snoc)
  then have up: "upToLastSlash (rel (ds @ [b])) = rel ds @ [slash]" using upToLastSlash_snoc [OF b] by simp
  have abs: "\<not> isAbs (rel ds @ [slash])" using isAbs_rel [OF ds] join by (simp add: isAbs_def split: list.splits)
  have "splitOn slash (rel ds) = ds"
    using join ds False splitOn_joinWith [of ds slash] by (auto simp: relPath_def plainComp_def)
  then have "comps (rel ds @ [slash]) = ds"
    using abs ds splitOn_sep [of slash "rel ds" "[]"] cleanComps_plain [of ds False "[]"]
    by (simp add: comps_def cleanComps_append relPath_def)
  then show ?thesis using up abs by (simp add: pathDir_def pathClean_def)
qed

lemma rel_dot: "relPath cs \<Longrightarrow> rel cs = dot \<longleftrightarrow> cs = []"
  using rel_inject [of cs "[]"] by (auto simp: unComps_def relPath_def)

lemma ancestors_rel:
  assumes "relPath (ds @ [b])"
  shows "ancestors (rel (ds @ [b])) = (if ds = [] then [] else rel ds # ancestors (rel ds))"
proof (cases "ds = []")
  case True
  have "rel [] = dot" by (simp add: unComps_def)
  then show ?thesis using True pathDir_rel [OF assms] by (subst ancestors.simps) simp
next
  case False
  have "rel ds \<noteq> dot" using assms False rel_dot [of ds] by auto
  moreover have "length (rel ds) < length (rel (ds @ [b]))"
    using rel_nonempty [of ds] assms False by (simp add: rel_snoc)
  ultimately show ?thesis using False pathDir_rel [OF assms] by (subst ancestors.simps) (simp add: Let_def)
qed

lemma ancestors_root [simp]: "ancestors dot = []"
  by (simp add: ancestors.simps [of dot] pathDir_def upToLastSlash_def pathClean_def comps_def isAbs_def unComps_def)

text \<open>The ancestors of a relative path are its proper prefixes, by components.\<close>

lemma set_ancestors_rel:
  assumes "relPath cs"
  shows "set (ancestors (rel cs)) = {rel ds |ds. ds \<noteq> [] \<and> strict_prefix ds cs}"
  using assms
proof (induction cs rule: rev_induct)
  case Nil
  then show ?case by (simp add: unComps_def)
next
  case (snoc b ds)
  have "strict_prefix es (ds @ [b]) \<longleftrightarrow> es = ds \<or> strict_prefix es ds" for es
    by (auto simp: strict_prefix_def)
  then show ?case using snoc ancestors_rel [of ds b] by (cases "ds = []") auto
qed


section \<open>What collapsing keeps\<close>

lemma joinWith_append: "xs \<noteq> [] \<Longrightarrow> ys \<noteq> [] \<Longrightarrow> joinWith s (xs @ ys) = joinWith s xs @ s @ joinWith s ys"
  by (induction xs rule: induct_list012) (auto simp: neq_Nil_conv)

lemma rel_strict_prefix:
  assumes "relPath cs" "strict_prefix ds cs" "ds \<noteq> []"
  shows "\<exists>rest. rel cs = rel ds @ slash # rest"
proof -
  obtain zs where "cs = ds @ zs" "zs \<noteq> []" using assms(2) by (auto simp: strict_prefix_def prefix_def)
  then obtain b es where cs: "cs = ds @ b # es" by (cases zs) auto
  have join: "joinWith ''/'' (ds @ b # es) = joinWith ''/'' ds @ slash # joinWith ''/'' (b # es)"
    using joinWith_append [of ds "b # es" "''/''"] assms(3) by simp
  then show ?thesis
    using assms cs rel_nonempty [of cs] rel_nonempty [of ds] by auto
qed

lemma ancestor_less:
  assumes "relPath cs" "q \<in> set (ancestors (rel cs))"
  shows "q < rel cs"
proof -
  obtain ds where "q = rel ds" "ds \<noteq> []" "strict_prefix ds cs" using assms by (auto simp: set_ancestors_rel)
  then obtain rest where "rel cs = q @ slash # rest" using rel_strict_prefix [OF assms(1)] by blast
  then show ?thesis by (simp add: list_less_def lexord_append_rightI)
qed

lemma set_collapse: "set (collapse selected ps) \<subseteq> set ps"
  by (induction selected ps rule: collapse.induct) auto

lemma collapse_covers:
  "p \<in> set ps \<Longrightarrow> \<exists>q \<in> set selected \<union> set (collapse selected ps). q = p \<or> q \<in> set (ancestors p)"
  by (induction selected ps rule: collapse.induct) (auto split: if_splits)

lemma collapse_fresh:
  "p \<in> set (collapse selected ps) \<Longrightarrow> q \<in> set selected \<Longrightarrow> q \<noteq> p \<and> q \<notin> set (ancestors p)"
  by (induction selected ps rule: collapse.induct) (auto split: if_splits)

lemma collapse_distinct: "distinct (collapse selected ps)"
  by (induction selected ps rule: collapse.induct) (auto dest: collapse_fresh)

lemma collapse_antichain:
  assumes "sorted ps" "\<forall>p \<in> set ps. validChange p"
    and "p \<in> set (collapse selected ps)" "q \<in> set (collapse selected ps)"
  shows "q \<notin> set (ancestors p)"
  using assms
proof (induction selected ps arbitrary: p q rule: collapse.induct)
  case (2 selected r rest)
  show ?case
  proof (cases "r \<in> set selected \<or> (\<exists>parent \<in> set (ancestors r). parent \<in> set selected)")
    case True
    then show ?thesis using "2.IH"(1) [OF True, of p q] "2.prems" by simp
  next
    case False
    have tail: "r \<le> x" if "x \<in> set (collapse (r # selected) rest)" for x
      using that "2.prems"(1) set_collapse [of "r # selected" rest] by fastforce
    have below: "x \<notin> set (ancestors r)" if "r \<le> x" for x
    proof
      assume "x \<in> set (ancestors r)"
      moreover have "relPath (comps r)" "r = rel (comps r)" using "2.prems"(2) validChange_comps [of r] by auto
      ultimately have "x < r" using ancestor_less by metis
      then show False using that by simp
    qed
    have ih: "y \<notin> set (ancestors x)" if "x \<in> set (collapse (r # selected) rest)" "y \<in> set (collapse (r # selected) rest)" for x y
      using that "2.IH"(2) [OF False, of x y] "2.prems"(1,2) by simp
    have pq: "p = r \<or> p \<in> set (collapse (r # selected) rest)" "q = r \<or> q \<in> set (collapse (r # selected) rest)"
      using "2.prems"(3,4) False by simp_all
    then show ?thesis
      using below [OF order_refl] below [OF tail] collapse_fresh [of p "r # selected" rest r] ih by auto
  qed
qed simp

lemma set_firstUses: "set (firstUses written ps) = set ps - set written"
  by (induction written ps rule: firstUses.induct) auto

lemma distinct_firstUses: "distinct (firstUses written ps)"
  by (induction written ps rule: firstUses.induct) (auto simp: set_firstUses)

section \<open>Reading the filter file back\<close>

text \<open>Rclone reads such a file line by line and trims each line.\<close>

definition readLines :: "string \<Rightarrow> string list" where
  "readLines contents = map trimSpace (splitOn newline contents)"

lemma segments_encodeRunes:
  "\<forall>r \<in> set rs. valid_rune r \<Longrightarrow> segments (encodeRunes rs) = map (\<lambda>r. (Some r, encodeRune r)) rs"
proof (induction rs)
  case (Cons r rs)
  obtain c t where ct: "encodeRune r = c # t" using encodeRune_nonempty by (metis list.exhaust)
  have "decodeRune (c # t @ encodeRunes rs) = (Some r, encodeRunes rs)"
    using decodeRune_encodeRune [of r "encodeRunes rs"] Cons.prems ct by simp
  then show ?case using Cons ct by simp
qed simp

lemma trimSpace_encodeRunes:
  assumes "\<forall>r \<in> set rs. valid_rune r" "rs \<noteq> [] \<Longrightarrow> \<not> isSpace (hd rs) \<and> \<not> isSpace (last rs)"
  shows "trimSpace (encodeRunes rs) = encodeRunes rs"
proof (cases rs)
  case Nil
  then show ?thesis by (simp add: trimSpace_def)
next
  case (Cons x xs)
  then obtain ys y where y: "rs = ys @ [y]" by (metis list.distinct(1) rev_exhaust)
  let ?g = "\<lambda>r. (Some r, encodeRune r)"
  have "dropWhile isSpaceSeg (map ?g rs) = map ?g rs" using assms(2) Cons by (simp add: isSpaceSeg_def)
  moreover have "dropWhile isSpaceSeg (rev (map ?g rs)) = rev (map ?g rs)"
    using assms(2) y by (simp add: isSpaceSeg_def)
  ultimately show ?thesis
    using segments_encodeRunes [OF assms(1)] by (simp add: trimSpace_def comp_def encodeRunes_def)
qed

definition scopeRunes :: "rune \<Rightarrow> rune list" where
  "scopeRunes c =
     (if c < 128 \<and> (isSpace c \<or> globMeta c) then map byte_of (CHR 0x5C # CHR ''x'' # hex2 c)
      else if isSpace c then [0x5B, c, 0x5D] else [c])"

lemma encodeRunes_ascii: "\<forall>c \<in> set s. byte_of c < 128 \<Longrightarrow> encodeRunes (map byte_of s) = s"
  by (induction s) (auto simp: encodeRune_def valid_rune_def)

lemma hexDigit_byte: "n < 16 \<Longrightarrow> 48 \<le> byte_of (hexDigit n) \<and> byte_of (hexDigit n) < 103"
  by (simp add: byte_hexDigit)

lemma encode_scopeRunes: "encodeRunes (scopeRunes c) = scopeRune c"
proof -
  have brackets: "encodeRune 0x5B = ''[''" "encodeRune 0x5D = '']''"
    using chr_byte_of [of "CHR ''[''"] chr_byte_of [of "CHR '']''"]
    by (simp_all add: encodeRune_def valid_rune_def byte_of_def)
  have "c < 128 \<Longrightarrow> \<forall>x \<in> set (CHR 0x5C # CHR ''x'' # hex2 c). byte_of x < 128"
    using hexDigit_byte [of "c div 16"] hexDigit_byte [of "c mod 16"] less_mult_imp_div_less [of c 16 16]
    by (auto simp: hex2_def byte_of_def [of "CHR 0x5C"] byte_of_def [of "CHR ''x''"])
  from encodeRunes_ascii [OF this] show ?thesis
    using brackets by (auto simp: scopeRunes_def scopeRune_def simp del: list.map)
qed

lemma scopeRunes_valid: "valid_rune c \<Longrightarrow> \<forall>r \<in> set (scopeRunes c). valid_rune r"
  by (auto simp: scopeRunes_def valid_rune_def intro: less_trans [OF byte_of_less])

lemma scopeRunes_nonspace: "scopeRunes c \<noteq> [] \<and> \<not> isSpace (last (scopeRunes c))"
proof -
  have "c < 128 \<Longrightarrow> \<not> isSpace (byte_of (hexDigit (c mod 16)))"
    using hexDigit_byte [of "c mod 16"] by (auto simp: isSpace_def)
  then show ?thesis by (auto simp: scopeRunes_def hex2_def isSpace_def)
qed

definition patternRunes :: "string \<Rightarrow> rune list" where
  "patternRunes relative = concat (map scopeRunes (runes (standardLocalPath relative)))"

lemma encode_patternRunes: "encodeRunes (patternRunes p) = scopeFilterPath p"
proof -
  have "encodeRunes (concat (map scopeRunes rs)) = concat (map scopeRune rs)" for rs
    by (induction rs) (simp_all add: encode_scopeRunes)
  then show ?thesis by (simp add: patternRunes_def scopeFilterPath_def)
qed

lemma patternRunes_valid: "\<forall>r \<in> set (patternRunes p). valid_rune r"
  using scopeRunes_valid runes_valid by (fastforce simp: patternRunes_def)

lemma patternRunes_last: "patternRunes p \<noteq> [] \<Longrightarrow> \<not> isSpace (last (patternRunes p))"
proof -
  have "concat (map scopeRunes rs) \<noteq> [] \<Longrightarrow> \<not> isSpace (last (concat (map scopeRunes rs)))" for rs
    using scopeRunes_nonspace by (induction rs rule: rev_induct) auto
  then show "patternRunes p \<noteq> [] \<Longrightarrow> \<not> isSpace (last (patternRunes p))" by (simp add: patternRunes_def)
qed

text \<open>Every line is made of valid runes, starts and ends with no white space and has no line break.\<close>

definition wholeLine :: "string \<Rightarrow> bool" where
  "wholeLine l = (newline \<notin> set l \<and> trimSpace l = l)"

lemma wholeLine_last: "wholeLine ''- /**''"
proof -
  define l where "l = ''- /**''"
  have ascii: "\<forall>c \<in> set l. byte_of c < 128" by (simp add: l_def byte_of_def)
  then have "\<forall>r \<in> set (map byte_of l). valid_rune r" by (auto simp: valid_rune_def)
  then have "trimSpace (encodeRunes (map byte_of l)) = encodeRunes (map byte_of l)"
    by (rule trimSpace_encodeRunes) (simp add: l_def byte_of_def isSpace_def)
  then have "trimSpace l = l" using encodeRunes_ascii [OF ascii] by simp
  moreover have "newline \<notin> set l" by (simp add: l_def newline_def)
  ultimately show ?thesis by (simp add: wholeLine_def l_def)
qed

lemma wholeLine_pattern:
  assumes "ending = [] \<or> ending = ''/**''"
  shows "wholeLine (''+ /'' @ scopeFilterPath p @ ending)"
proof -
  define lead where "lead = ''+ /''"
  let ?rs = "map byte_of lead @ patternRunes p @ map byte_of ending"
  have ascii: "\<forall>c \<in> set lead. byte_of c < 128" "\<forall>c \<in> set ending. byte_of c < 128"
    using assms by (auto simp: byte_of_def lead_def)
  then have enc: "encodeRunes ?rs = lead @ scopeFilterPath p @ ending"
    using encodeRunes_ascii encode_patternRunes by simp
  have valid: "\<forall>r \<in> set ?rs. valid_rune r"
    using patternRunes_valid [of p] by (auto simp: valid_rune_def intro: less_trans [OF byte_of_less])
  have "\<not> isSpace (hd ?rs) \<and> \<not> isSpace (last ?rs)"
    using assms patternRunes_last [of p] by (auto simp: byte_of_def isSpace_def lead_def)
  then have "trimSpace (encodeRunes ?rs) = encodeRunes ?rs" by (intro trimSpace_encodeRunes [OF valid])
  then have "trimSpace (lead @ scopeFilterPath p @ ending) = lead @ scopeFilterPath p @ ending" by (simp only: enc)
  moreover have "newline \<notin> set (scopeFilterPath p)" using scopeFilterPath_bytes [of newline p] by (auto simp: newline_def byte_of_def)
  moreover have "newline \<notin> set lead" "newline \<notin> set ending" using assms by (auto simp: newline_def lead_def)
  ultimately show ?thesis by (simp add: wholeLine_def lead_def)
qed

lemma wholeLine_scopeLines: "l \<in> set (scopeLines b scopes) \<Longrightarrow> wholeLine l"
proof -
  assume "l \<in> set (scopeLines b scopes)"
  then consider p where "l = ''+ /'' @ scopeFilterPath p @ []" | p where "l = ''+ /'' @ scopeFilterPath p @ ''/**''"
    | "l = ''- /**''"
    by (auto simp: scopeLines_def set_firstUses scopePatterns_def Let_def split: if_splits)
  then show ?thesis
  proof cases
    case (1 p)
    then show ?thesis using wholeLine_pattern [of "[]" p] by simp
  next
    case (2 p)
    then show ?thesis using wholeLine_pattern [of "''/**''" p] by simp
  next
    case 3
    then show ?thesis using wholeLine_last by simp
  qed
qed

lemma splitOn_lines:
  "\<forall>l \<in> set ls. newline \<notin> set l \<Longrightarrow> splitOn newline (concat (map (\<lambda>l. l @ [newline]) ls)) = ls @ [[]]"
  by (induction ls) (auto simp: splitOn_append)

lemma scopeFile_readLines: "readLines (scopeFile b scopes) = scopeLines b scopes @ [[]]"
proof -
  have "trimSpace [] = []" by code_simp
  moreover have "map trimSpace (scopeLines b scopes) = scopeLines b scopes"
    using wholeLine_scopeLines [of _ b scopes] by (auto simp: wholeLine_def intro: map_idI)
  ultimately show ?thesis
    using wholeLine_scopeLines [of _ b scopes] splitOn_lines [of "scopeLines b scopes"]
    by (simp add: readLines_def scopeFile_def wholeLine_def)
qed

end
