(* ===== verification/SyncState.thy ===== *)
theory SyncState
  imports LocalState SyncPath Filters Options "HOL-Library.Signed_Division"
begin

text \<open>
  \<open>syncState\<close> of src/syncstate.go. Its fields that never change after \<open>newSyncState\<close> are
  the record \<open>syncConfig\<close>; those the operations change (\<open>remote\<close>, \<open>lockExpiry\<close>,
  \<open>pending\<close>, \<open>pendingExpiry\<close>, the choice of the runner, the result of \<open>Close\<close>) extend the
  world to a \<open>session\<close>. A \<open>time.Time\<close> on the monotonic clock that may be zero is an
  \<open>int option\<close>. Each method is one definition that takes the environment and the
  configuration; an error result is \<open>Some\<close> or \<open>Inl\<close>. The mutexes make the methods
  that hold \<open>updateMu\<close> atomic with respect to each other; log output is left out.
\<close>

section \<open>Data\<close>

record remoteSyncFile =
  rf_data :: syncFileData
  rf_etag :: string
  rf_exists :: bool

definition noRemote :: remoteSyncFile where
  "noRemote = \<lparr>rf_data = zeroData, rf_etag = [], rf_exists = False\<rparr>"

record syncConfig =
  cf_paths :: syncFilePaths
  cf_source :: string
  cf_dest :: string
  cf_timeout :: duration
  cf_wait :: lockWait
  cf_pollInterval :: duration
  cf_consistentWrites :: bool
  cf_failOnIncomplete :: bool
  cf_logs :: bool
  cf_owner :: string
  cf_repositoryID :: string
  cf_persistent :: bool
  cf_excludes :: "string list"
  cf_forceDelete :: bool
  cf_hasCancel :: bool
  cf_hasReleaseRunner :: bool

record 'r session = "'r world" +
  s_remote :: remoteSyncFile
  s_lockExpiry :: "int option"
  s_pending :: "syncFileData option"
  s_pendingExpiry :: "int option"
  s_releaseRunner :: bool
  s_closed :: "goerr option option"

type_synonym ('r, 'a) prog = "('r session, 'a) state"

definition lockPollInterval :: duration where
  "lockPollInterval = second"

section \<open>Identifiers\<close>

definition hexBytes :: "8 word list \<Rightarrow> string" where
  "hexBytes bs = concat (map (\<lambda>b. hex2 (unat b)) bs)"

text \<open>The bits of a version 4 UUID set in 16 random bytes, and its text.\<close>

definition uuidBytes :: "8 word list \<Rightarrow> 8 word list" where
  "uuidBytes bs = (bs[6 := or (and (bs ! 6) 0x0f) 0x40])[8 := or (and (bs ! 8) 0x3f) 0x80]"

definition slice :: "nat \<Rightarrow> nat \<Rightarrow> 'a list \<Rightarrow> 'a list" where
  "slice i j xs = take (j - i) (drop i xs)"

definition uuidText :: "8 word list \<Rightarrow> string" where
  "uuidText bs = joinWith ''-'' (map hexBytes
     [slice 0 4 bs, slice 4 6 bs, slice 6 8 bs, slice 8 10 bs, slice 10 16 bs])"

definition randRead :: "'r env \<Rightarrow> (('r, 'z) world_scheme, goerr + 8 word list) state" where
  "randRead E = do {
     n \<leftarrow> tick E;
     State_Monad.return (if fault E n then Inl OSError else Inr (map (randByte E n) [0..<16])) }"

definition newRepositoryID :: "'r env \<Rightarrow> (('r, 'z) world_scheme, goerr + string) state" where
  "newRepositoryID E = do {
     r \<leftarrow> randRead E;
     State_Monad.return (case r of
         Inl err \<Rightarrow> Inl (Wrapped ''create repository ID: %w'' [] err)
       | Inr bs \<Rightarrow> Inr (uuidText (uuidBytes bs))) }"

definition newSyncState ::
    "'r env \<Rightarrow> syncFilePaths \<Rightarrow> string \<Rightarrow> string \<Rightarrow> duration \<Rightarrow> lockWait \<Rightarrow> bool \<Rightarrow> bool \<Rightarrow> bool \<Rightarrow> string
     \<Rightarrow> (('r, 'z) world_scheme, goerr + syncConfig) state" where
  "newSyncState E paths source destination timeout wait consistentWrites failOnIncomplete logs persistentID = do {
     ow \<leftarrow> (if persistentID = [] then do {
             r \<leftarrow> randRead E;
             State_Monad.return (case r of
                 Inl err \<Rightarrow> Inl (Wrapped ''create lock owner token: %w'' [] err)
               | Inr bs \<Rightarrow> Inr (hexBytes bs)) }
           else State_Monad.return (Inr persistentID));
     (case ow of
        Inl err \<Rightarrow> State_Monad.return (Inl err)
      | Inr owner \<Rightarrow> do {
          i \<leftarrow> newRepositoryID E;
          State_Monad.return (case i of
              Inl err \<Rightarrow> Inl err
            | Inr repositoryID \<Rightarrow> Inr
                \<lparr>cf_paths = paths, cf_source = source, cf_dest = destination, cf_timeout = timeout,
                 cf_wait = wait, cf_pollInterval = lockPollInterval,
                 cf_consistentWrites = consistentWrites, cf_failOnIncomplete = failOnIncomplete,
                 cf_logs = logs, cf_owner = owner, cf_repositoryID = repositoryID,
                 cf_persistent = (persistentID \<noteq> []), cf_excludes = [], cf_forceDelete = False,
                 cf_hasCancel = False, cf_hasReleaseRunner = False\<rparr>) }) }"

section \<open>Locks\<close>

definition lockTTL :: "remoteSyncFile \<Rightarrow> duration \<Rightarrow> duration" where
  "lockTTL r fallback = ttl (Lock (rf_data r)) fallback"

definition ownedBy :: "remoteSyncFile \<Rightarrow> string \<Rightarrow> bool" where
  "ownedBy r owner = (rf_exists r \<and> (case Lock (rf_data r) of None \<Rightarrow> False | Some l \<Rightarrow> Owner l = owner))"

definition nul :: string where "nul = [CHR 0x00]"

definition lockIdentity :: "remoteSyncFile \<Rightarrow> string" where
  "lockIdentity r = (case Lock (rf_data r) of None \<Rightarrow> []
     | Some l \<Rightarrow> Owner l @ nul @ formatRFC3339Nano (Timestamp l) @ nul @ durationString (TTL l))"

definition newLock :: "'r env \<Rightarrow> syncConfig \<Rightarrow> ('r, syncFileLock) prog" where
  "newLock E s = do {
     t \<leftarrow> wallNow E;
     State_Monad.return \<lparr>Owner = cf_owner s, Timestamp = t, TTL = cf_timeout s\<rparr> }"

section \<open>Commands\<close>

definition runnerRun :: "'r env \<Rightarrow> string list \<Rightarrow> ('r, cmdResult) prog" where
  "runnerRun E args = do { rel \<leftarrow> gets s_releaseRunner; rcloneRun E (\<not> rel) args }"

definition stateRun :: "'r env \<Rightarrow> syncConfig \<Rightarrow> string list \<Rightarrow> ('r, goerr option) prog" where
  "stateRun E s args = do {
     r \<leftarrow> runnerRun E args;
     State_Monad.return (case r_err r of
         None \<Rightarrow> None
       | Some err \<Rightarrow> Some (if cf_logs s then err else commandError err (r_stderr r))) }"

section \<open>The remote state file\<close>

fun responseETagLines :: "string list \<Rightarrow> string" where
  "responseETagLines [] = []"
| "responseETagLines (line # ls) =
     (case cutAt (CHR '':'') (trimSpace line) of (key, value, found) \<Rightarrow>
        if found \<and> map toLower key = ''etag'' then trimChar (CHR 0x22) (trimSpace value)
        else responseETagLines ls)"

definition responseETag :: "string \<Rightarrow> string" where
  "responseETag output = responseETagLines (splitOn (CHR 0x0A) output)"

definition storePath :: "(string \<times> json) list \<Rightarrow> string option" where
  "storePath ms = fold (\<lambda>(k, v) acc. case acc of None \<Rightarrow> None
     | Some p \<Rightarrow> if keyOf k = ''path'' then storeString v p else Some p) ms (Some [])"

text \<open>The \<open>Path\<close> fields of a listing.\<close>

definition entryPaths :: "string \<Rightarrow> string list option" where
  "entryPaths output = (case unmarshal output of
      Some (JArr vs) \<Rightarrow>
        those (map (\<lambda>v. case v of JObj ms \<Rightarrow> storePath ms | JNull \<Rightarrow> Some [] | _ \<Rightarrow> None) vs)
    | Some JNull \<Rightarrow> Some []
    | _ \<Rightarrow> None)"

definition remoteStateExists :: "'r env \<Rightarrow> syncConfig \<Rightarrow> ('r, goerr + bool) prog" where
  "remoteStateExists E s =
     (case resolveRemoteSyncFile (p_remote (cf_paths s)) dotdot of
        Inl err \<Rightarrow> State_Monad.return (Inl err)
      | Inr (parent, _) \<Rightarrow>
          (case parseRemote (p_remote (cf_paths s)) of
             Inl err \<Rightarrow> State_Monad.return (Inl err)
           | Inr remote \<Rightarrow> do {
               let name = pathBase (drop (case rs_colon remote of None \<Rightarrow> 0 | Some c \<Rightarrow> c + 1) (p_remote (cf_paths s)));
               r \<leftarrow> runnerRun E [''lsjson'', parent, ''--max-depth'', ''1'', ''--include'', ''/'' @ literalFilterPath name];
               State_Monad.return (case r_err r of
                   Some err \<Rightarrow> if isRcloneNotFound err then Inr False else Inl (commandError err (r_stderr r))
                 | None \<Rightarrow> (case entryPaths (r_stdout r) of
                     None \<Rightarrow> Inl (Wrapped ''decode remote state listing: %w'' [] JSONError)
                   | Some ps \<Rightarrow> Inr (name \<in> set ps))) }))"

text \<open>A successful \<open>cat\<close> that is not an empty directory: decode it, with its ETag.\<close>

definition decodeRemote :: "syncConfig \<Rightarrow> cmdResult \<Rightarrow> goerr + remoteSyncFile" where
  "decodeRemote s r =
     (case decodeSyncFile (r_stdout r) of
        Inl err \<Rightarrow> Inl (Wrapped ''invalid remote state file: %w'' [] err)
      | Inr data \<Rightarrow>
          if cf_consistentWrites s then
            (let etag = responseETag (r_stderr r) in
             if etag = [] then Inl (errorString ''S3 response did not include an ETag; use --no-consistent-writes if this provider cannot supply one'')
             else Inr \<lparr>rf_data = data, rf_etag = etag, rf_exists = True\<rparr>)
          else Inr \<lparr>rf_data = data, rf_etag = [], rf_exists = True\<rparr>)"

definition readArgs :: "syncConfig \<Rightarrow> string list" where
  "readArgs s = [''cat'', p_remote (cf_paths s)]
     @ (if cf_consistentWrites s then [''--dump'', ''headers'', ''--log-level'', ''DEBUG''] else [])"

definition readRemote :: "'r env \<Rightarrow> syncConfig \<Rightarrow> ('r, goerr + remoteSyncFile) prog" where
  "readRemote E s = do {
     r \<leftarrow> runnerRun E (readArgs s);
     (case r_err r of
        Some err \<Rightarrow> State_Monad.return
          (if isRcloneNotFound err then Inr noRemote else Inl (commandError err (r_stderr r)))
      | None \<Rightarrow>
          if r_stdout r = [] then do {
            x \<leftarrow> remoteStateExists E s;
            State_Monad.return (case x of
                Inl err \<Rightarrow> Inl (Wrapped ''check empty remote state file: %w'' [] err)
              | Inr ex \<Rightarrow> if \<not> ex then Inr noRemote else decodeRemote s r) }
          else State_Monad.return (decodeRemote s r)) }"

definition uploadHeader :: "string \<Rightarrow> string" where
  "uploadHeader previousETag = (if previousETag \<noteq> [] then ''If-Match: '' @ [CHR 0x22] @ previousETag @ [CHR 0x22]
     else ''If-None-Match: *'')"

definition copyArgs :: "syncConfig \<Rightarrow> string \<Rightarrow> string \<Rightarrow> string list" where
  "copyArgs s name previousETag = [''copyto'', name, p_remote (cf_paths s)]
     @ (if cf_consistentWrites s then [''--header-upload'', uploadHeader previousETag] else [])"

definition writeRemote :: "'r env \<Rightarrow> syncConfig \<Rightarrow> syncFileData \<Rightarrow> string \<Rightarrow> ('r, goerr option) prog" where
  "writeRemote E s data previousETag =
     (case encodeSyncFile (data\<lparr>Active := False\<rparr>) of
        Inl err \<Rightarrow> State_Monad.return (Some err)
      | Inr contents \<Rightarrow> do {
          f \<leftarrow> createTemp E (tempDir E) ''rclonewatch-sync-'';
          (case f of Inl err \<Rightarrow> State_Monad.return (Some err) | Inr name \<Rightarrow> do {
          res \<leftarrow> do {
            e \<leftarrow> fileWrite E name contents;
            (case e of Some err \<Rightarrow> State_Monad.return (Some err) | None \<Rightarrow> do {
            e \<leftarrow> fileOp E;
            (case e of Some err \<Rightarrow> State_Monad.return (Some err)
             | None \<Rightarrow> stateRun E s (copyArgs s name previousETag)) }) };
          osRemove E name;
          State_Monad.return res }) })"

text \<open>
  A refresh watchdog that has not fired when the expiry moves forward will find it later than
  the one it was armed for, and then does nothing (\<open>startRefreshWatchdog\<close>): it is disarmed.
\<close>

definition expiryAfter :: "int option \<Rightarrow> int option \<Rightarrow> bool" where
  "expiryAfter a b = (case a of None \<Rightarrow> False | Some x \<Rightarrow> (case b of None \<Rightarrow> True | Some y \<Rightarrow> y < x))"

definition setOwnedRemote :: "remoteSyncFile \<Rightarrow> int option \<Rightarrow> ('r, unit) prog" where
  "setOwnedRemote remote expires = do {
     modify fireWatchdog;
     modify (\<lambda>w. w\<lparr>w_watchdog := (if expiryAfter expires (s_lockExpiry w) then None else w_watchdog w),
       s_remote := remote, s_lockExpiry := expires\<rparr>) }"

abbreviation clearPending :: "('r, unit) prog" where
  "clearPending \<equiv> modify (\<lambda>w. w\<lparr>s_pending := None, s_pendingExpiry := None\<rparr>)"

text \<open>
  \<open>replaceOwnedRemote\<close> after the first read: \<open>latest\<close> is the remote state found. The
  decisions on the candidate and its expiry are \<open>effectiveCandidate\<close> and
  \<open>candidateExpiry\<close>.
\<close>

definition isPending :: "syncFileData option \<Rightarrow> remoteSyncFile \<Rightarrow> bool" where
  "isPending pend latest = (case pend of None \<Rightarrow> False | Some p \<Rightarrow> sameSyncFileData (rf_data latest) p)"

definition effectiveCandidate ::
    "bool \<Rightarrow> remoteSyncFile \<Rightarrow> remoteSyncFile \<Rightarrow> syncFileData \<Rightarrow> syncFileData" where
  "effectiveCandidate latestIsPending previous latest candidate =
     (if latestIsPending \<and> sameLock (Lock candidate) (Lock (rf_data previous))
      then candidate\<lparr>Lock := Lock (rf_data latest)\<rparr> else candidate)"

definition candidateExpiry ::
    "syncConfig \<Rightarrow> remoteSyncFile \<Rightarrow> syncFileData \<Rightarrow> int \<Rightarrow> int option \<Rightarrow> int option" where
  "candidateExpiry s latest candidate writtenAt expires =
     (if Lock candidate = None then None
      else if \<not> sameLock (Lock candidate) (Lock (rf_data latest))
        then Some (writtenAt + ttl (Lock candidate) (cf_timeout s))
      else expires)"

text \<open>The end of \<open>replaceOwnedRemote\<close>, after a write that reported success.\<close>

definition verifyReplaced ::
    "'r env \<Rightarrow> syncConfig \<Rightarrow> remoteSyncFile \<Rightarrow> syncFileData \<Rightarrow> int option \<Rightarrow> ('r, goerr option) prog" where
  "verifyReplaced E s latest candidate expires = do {
     v \<leftarrow> readRemote E s;
     (case v of Inl err \<Rightarrow> State_Monad.return (Some err) | Inr verified \<Rightarrow>
     if \<not> sameSyncFileData (rf_data verified) candidate then
       (if sameSyncFileData (rf_data verified) (rf_data latest)
        then State_Monad.return (Some (errorString ''remote state file changed while updating it''))
        else do { clearPending; State_Monad.return (Some LockOwnershipLost) })
     else if Lock candidate \<noteq> None \<and> \<not> ownedBy verified (cf_owner s)
     then do { clearPending; State_Monad.return (Some LockOwnershipLost) }
     else do {
       clearPending;
       setOwnedRemote verified expires;
       State_Monad.return None }) }"

definition replaceOwnedRemote ::
    "'r env \<Rightarrow> syncConfig \<Rightarrow> remoteSyncFile \<Rightarrow> syncFileData \<Rightarrow> ('r, goerr option) prog" where
  "replaceOwnedRemote E s previous candidate0 = do {
     l \<leftarrow> readRemote E s;
     (case l of Inl err \<Rightarrow> State_Monad.return (Some err) | Inr latest \<Rightarrow> do {
     pend \<leftarrow> gets s_pending;
     let latestIsPrevious = sameSyncFileData (rf_data latest) (rf_data previous);
     let latestIsPending = isPending pend latest;
     if \<not> ownedBy latest (cf_owner s) \<or> (\<not> latestIsPrevious \<and> \<not> latestIsPending)
     then do { clearPending; State_Monad.return (Some LockOwnershipLost) }
     else do {
       expires0 \<leftarrow> gets (\<lambda>w. if latestIsPending then s_pendingExpiry w else s_lockExpiry w);
       let candidate = effectiveCandidate latestIsPending previous latest candidate0;
       writtenAt \<leftarrow> timeNow E;
       let expires = candidateExpiry s latest candidate writtenAt expires0;
       modify (\<lambda>w. w\<lparr>s_pending := Some candidate, s_pendingExpiry := expires\<rparr>);
       e \<leftarrow> writeRemote E s candidate (rf_etag latest);
       (case e of
          Some err \<Rightarrow> State_Monad.return (Some err)
        | None \<Rightarrow> verifyReplaced E s latest candidate expires) } }) }"

section \<open>What the reads and writes of the remote state file do\<close>

text \<open>
  Commands that only look at the remote, and the one that replaces the state file. Every
  read adds such commands only, and the result of a successful one is what the last
  command printed.
\<close>

definition isRead :: "cmd \<Rightarrow> bool" where
  "isRead c = (\<exists>a as. c_args c = a # as \<and> (a = ''cat'' \<or> a = ''lsjson''))"

lemma framed_session:
  fixes w v :: "'r session"
  assumes "framed w v"
  shows "s_remote v = s_remote w" "s_lockExpiry v = s_lockExpiry w" "s_pending v = s_pending w"
    "s_pendingExpiry v = s_pendingExpiry w" "s_releaseRunner v = s_releaseRunner w" "s_closed v = s_closed w"
  using assms by (cases w, cases v, simp add: framed_def)+

lemma runner_effects [intro!]:
  "state_io_rel framed (runnerRun E args)" "state_io_rel later (runnerRun E args)"
  "state_io_rel framed (stateRun E s args)" "state_io_rel later (stateRun E s args)"
  unfolding runnerRun_def stateRun_def
  by (auto intro!: framed.rules later.rules)

lemma runner_adds:
  assumes "\<And>c. c_args c = args @ [noCheckBucket] \<Longrightarrow> P c"
  shows "state_io_rel (adds P) (runnerRun E args)" "state_io_rel (adds P) (stateRun E s args)"
  unfolding runnerRun_def stateRun_def
  using assms by (auto intro!: adds.rules rcloneRun_adds)

lemma readRemote_effects [intro!]:
  "state_io_rel framed (readRemote E s)" "state_io_rel later (readRemote E s)"
  "state_io_rel (adds isRead) (readRemote E s)"
  unfolding readRemote_def remoteStateExists_def Let_def
  by (auto intro!: framed.rules later.rules adds.rules runner_adds simp: readArgs_def isRead_def)

lemma rcloneRun_cmds:
  "wp (rcloneRun E b args) (\<lambda>r t. w_clock w \<le> w_clock t \<and>
      ((w_cmds t = w_cmds w \<and> w_disk t = w_disk w \<and> r_err r = Some ContextCanceled \<and> b) \<or>
       (\<exists>c. w_cmds t = c # w_cmds w \<and> c_args c = args @ [noCheckBucket] \<and> c_disk c = w_disk w \<and>
            c_result c = r \<and> w_clock w \<le> c_time c \<and> c_time c = w_clock t))) w"
  by (auto simp: rcloneRun_def wp_simps tick_def split: prod.splits)

lemma runnerRun_cmds:
  "wp (runnerRun E args) (\<lambda>r t. w_clock w \<le> w_clock t \<and>
      ((w_cmds t = w_cmds w \<and> w_disk t = w_disk w \<and> r_err r = Some ContextCanceled \<and> \<not> s_releaseRunner w) \<or>
       (\<exists>c. w_cmds t = c # w_cmds w \<and> c_args c = args @ [noCheckBucket] \<and> c_disk c = w_disk w \<and>
            c_result c = r \<and> w_clock w \<le> c_time c \<and> c_time c = w_clock t))) w"
  unfolding runnerRun_def by (simp only: wp_bind wp_gets) (rule wp_mono [OF rcloneRun_cmds], simp)

lemma decodeRemote_Inr:
  "decodeRemote s r = Inr remote \<Longrightarrow> decodeSyncFile (r_stdout r) = Inr (rf_data remote) \<and> rf_exists remote \<and>
     rf_etag remote = (if cf_consistentWrites s then responseETag (r_stderr r) else []) \<and>
     (cf_consistentWrites s \<longrightarrow> rf_etag remote \<noteq> [])"
  by (auto simp: decodeRemote_def Let_def split: sum.splits if_splits)

lemma decodeSyncFile_empty: "decodeSyncFile [] \<noteq> Inr data"
  by (simp add: decodeSyncFile_def decodeValue_def scanValue.simps skipWs_def)

lemma decodeRemote_empty: "r_stdout r = [] \<Longrightarrow> decodeRemote s r \<noteq> Inr remote"
  by (metis decodeRemote_Inr decodeSyncFile_empty)

text \<open>A state that is found is what the newest command, a \<open>cat\<close> of the state file, printed.\<close>

definition readBy :: "syncConfig \<Rightarrow> cmd \<Rightarrow> remoteSyncFile \<Rightarrow> bool" where
  "readBy s c remote = (c_args c = readArgs s @ [noCheckBucket] \<and> r_err (c_result c) = None \<and>
     decodeRemote s (c_result c) = Inr remote)"

lemma readRemote_wp:
  "wp (readRemote E s) (\<lambda>r t. \<forall>remote. r = Inr remote \<longrightarrow>
     (if rf_exists remote then \<exists>c. w_cmds t = c # w_cmds w \<and> readBy s c remote \<and>
        w_clock w \<le> c_time c \<and> c_time c = w_clock t
      else remote = noRemote)) w"
  unfolding readRemote_def wp_bind
  by (rule wp_mono [OF runnerRun_cmds])
    (auto simp: wp_simps readBy_def decodeRemote_empty noRemote_def wp_def dest: decodeRemote_Inr
      split: option.splits if_splits sum.splits prod.splits)

text \<open>The one write of the state file that a call may make, and the file it uploads.\<close>

definition writeBy :: "syncConfig \<Rightarrow> cmd \<Rightarrow> syncFileData \<Rightarrow> string \<Rightarrow> bool" where
  "writeBy s c data etag = (\<exists>name contents. c_args c = copyArgs s name etag @ [noCheckBucket] \<and>
     c_disk c name = Some (File contents) \<and> encodeSyncFile (data\<lparr>Active := False\<rparr>) = Inr contents)"

lemma stateRun_cmds:
  "wp (stateRun E s args) (\<lambda>r t. w_clock w \<le> w_clock t \<and>
      ((w_cmds t = w_cmds w \<and> r \<noteq> None) \<or>
       (\<exists>c. w_cmds t = c # w_cmds w \<and> c_args c = args @ [noCheckBucket] \<and> c_disk c = w_disk w \<and>
            (r = None) = (r_err (c_result c) = None) \<and> w_clock w \<le> c_time c \<and> c_time c = w_clock t))) w"
  unfolding stateRun_def wp_bind
  by (rule wp_mono [OF runnerRun_cmds]) (auto simp: wp_simps split: option.splits)

lemma osRemove_wp:
  "wp (osRemove E name) (\<lambda>_ t. w_cmds t = w_cmds w \<and> w_clock w \<le> w_clock t) w"
  by (simp add: osRemove_def osFails_def tick_def wp_simps)

lemma writeRemote_effects [intro!]:
  "state_io_rel framed (writeRemote E s data etag)" "state_io_rel later (writeRemote E s data etag)"
  unfolding writeRemote_def
  by (auto intro!: framed.rules later.rules)

definition wrote :: "syncConfig \<Rightarrow> syncFileData \<Rightarrow> string \<Rightarrow> 'r session \<Rightarrow> goerr option \<Rightarrow> 'r session \<Rightarrow> bool" where
  "wrote s data etag w r t = ((w_cmds t = w_cmds w \<and> r \<noteq> None) \<or>
     (\<exists>c. w_cmds t = c # w_cmds w \<and> writeBy s c data etag \<and> w_clock w \<le> c_time c \<and>
        c_time c \<le> w_clock t \<and> (r = None) = (r_err (c_result c) = None)))"

lemma writeRemote_wp: "wp (writeRemote E s data etag) (wrote s data etag w) w"
proof (cases "encodeSyncFile (data\<lparr>Active := False\<rparr>)")
  case (Inl err)
  then show ?thesis by (simp add: writeRemote_def wp_simps wrote_def)
next
  case (Inr contents)
  have copy: "wp (stateRun E s (copyArgs s name etag)) (\<lambda>r. wp (osRemove E name) (\<lambda>_. wrote s data etag w r)) v"
    if "w_cmds v = w_cmds w" "w_clock w \<le> w_clock v" "w_disk v name = Some (File contents)"
    for v :: "'a session" and name
    by (rule wp_mono [OF stateRun_cmds], rule wp_mono [OF osRemove_wp])
      (use that Inr in \<open>fastforce simp: writeBy_def wrote_def\<close>)
  have fail: "wp (osRemove E name) (\<lambda>_. wrote s data etag w (Some err)) v" if "w_cmds v = w_cmds w"
    for v :: "'a session" and name err
    by (rule wp_mono [OF osRemove_wp]) (use that in \<open>simp add: wrote_def\<close>)
  show ?thesis
    using Inr
    by (auto simp: writeRemote_def wp_simps createTemp_def fileWrite_def fileOp_def osFails_def randomText_def
        tick_def Let_def intro!: copy fail) (simp_all add: wrote_def)
qed

text \<open>All that a read does: what it keeps, and what the result says about the trace.\<close>

definition readDone :: "syncConfig \<Rightarrow> 'r session \<Rightarrow> goerr + remoteSyncFile \<Rightarrow> 'r session \<Rightarrow> bool" where
  "readDone s w r t = (framed w t \<and> later w t \<and> adds isRead w t \<and>
     (\<forall>remote. r = Inr remote \<longrightarrow>
       (if rf_exists remote then \<exists>c. w_cmds t = c # w_cmds w \<and> readBy s c remote \<and>
          w_clock w \<le> c_time c \<and> c_time c = w_clock t
        else remote = noRemote)))"

lemma readRemote_done: "wp (readRemote E s) (readDone s w) w"
  unfolding readDone_def [abs_def] wp_conj
  by (intro conjI readRemote_wp framed.wp_effect later.wp_effect adds.wp_effect readRemote_effects)

section \<open>Replacing an owned state\<close>

text \<open>
  The specification of \<open>replaceOwnedRemote\<close>: \<open>mayReplace\<close> is the check of the first read,
  \<open>replaced\<close> relates the session before to the result and the session after. At most one
  command writes, right after the read that the check passed, of the effective candidate and
  under the entity tag of that read; the remembered remote changes on success only.
\<close>

definition mayReplace :: "syncConfig \<Rightarrow> remoteSyncFile \<Rightarrow> syncFileData option \<Rightarrow> remoteSyncFile \<Rightarrow> bool" where
  "mayReplace s previous pend latest = (ownedBy latest (cf_owner s) \<and>
     (sameSyncFileData (rf_data latest) (rf_data previous) \<or> isPending pend latest))"

definition tried :: "syncConfig \<Rightarrow> remoteSyncFile \<Rightarrow> syncFileData \<Rightarrow> 'r session \<Rightarrow> remoteSyncFile \<Rightarrow> syncFileData" where
  "tried s previous candidate w latest = effectiveCandidate (isPending (s_pending w) latest) previous latest candidate"

definition replaceTrace :: "syncConfig \<Rightarrow> remoteSyncFile \<Rightarrow> syncFileData \<Rightarrow> 'r session \<Rightarrow> 'r session \<Rightarrow> bool" where
  "replaceTrace s previous candidate w t = (adds isRead w t \<or>
     (\<exists>latest c d reads. w_cmds t = reads @ d # c # w_cmds w \<and> (\<forall>x \<in> set reads. isRead x) \<and>
        readBy s c latest \<and> mayReplace s previous (s_pending w) latest \<and>
        writeBy s d (tried s previous candidate w latest) (rf_etag latest)))"

definition replaceOk :: "syncConfig \<Rightarrow> remoteSyncFile \<Rightarrow> syncFileData \<Rightarrow> 'r session \<Rightarrow> 'r session \<Rightarrow> bool" where
  "replaceOk s previous candidate w t = (s_pending t = None \<and> s_pendingExpiry t = None \<and>
     (\<exists>latest c d reads writtenAt. w_cmds t = reads @ d # c # w_cmds w \<and> (\<forall>x \<in> set reads. isRead x) \<and>
        readBy s c latest \<and> mayReplace s previous (s_pending w) latest \<and>
        writeBy s d (tried s previous candidate w latest) (rf_etag latest) \<and> r_err (c_result d) = None \<and>
        sameSyncFileData (rf_data (s_remote t)) (tried s previous candidate w latest) \<and>
        (rf_exists (s_remote t) \<longrightarrow> readBy s (hd reads) (s_remote t)) \<and>
        (Lock (tried s previous candidate w latest) \<noteq> None \<longrightarrow> ownedBy (s_remote t) (cf_owner s)) \<and>
        w_clock w \<le> writtenAt \<and> writtenAt \<le> c_time d \<and>
        s_lockExpiry t = candidateExpiry s latest (tried s previous candidate w latest) writtenAt
          (if isPending (s_pending w) latest then s_pendingExpiry w else s_lockExpiry w)))"

definition replaced :: "syncConfig \<Rightarrow> remoteSyncFile \<Rightarrow> syncFileData \<Rightarrow> 'r session \<Rightarrow> goerr option \<Rightarrow> 'r session \<Rightarrow> bool" where
  "replaced s previous candidate w r t = (later w t \<and> replaceTrace s previous candidate w t \<and>
     s_releaseRunner t = s_releaseRunner w \<and> s_closed t = s_closed w \<and>
     (r = None \<longrightarrow> replaceOk s previous candidate w t) \<and>
     (r \<noteq> None \<longrightarrow> s_remote t = s_remote w \<and> s_lockExpiry t = s_lockExpiry w))"

lemma timeNow_wp: "wp (timeNow E) (\<lambda>x t. framed w t \<and> w_cmds t = w_cmds w \<and> w_clock w \<le> x \<and> w_clock t = x) w"
  by (simp add: timeNow_def tick_def wp_simps framed_def)

lemma writeRemote_done:
  "wp (writeRemote E s data etag) (\<lambda>r t. framed w t \<and> later w t \<and> wrote s data etag w r t) w"
  unfolding wp_conj
  by (intro conjI writeRemote_wp framed.wp_effect later.wp_effect writeRemote_effects)

lemma readDone_owned: "readDone s w (Inr r) t \<Longrightarrow> ownedBy r x \<Longrightarrow> \<exists>c. w_cmds t = c # w_cmds w \<and> readBy s c r"
  by (auto simp: readDone_def ownedBy_def split: if_splits)

lemma setOwnedRemote_wp: "wp (setOwnedRemote remote expires) (\<lambda>_ t. s_remote t = remote \<and>
    s_lockExpiry t = expires \<and> s_pending t = s_pending w \<and> s_pendingExpiry t = s_pendingExpiry w \<and>
    s_releaseRunner t = s_releaseRunner w \<and> s_closed t = s_closed w \<and> w_cmds t = w_cmds w \<and>
    w_clock t = w_clock w \<and> w_disk t = w_disk w \<and> w_service t = w_service w) w"
  using framed_session [of w "fireWatchdog w"]
  by (simp add: setOwnedRemote_def wp_simps framed_def)

lemma verifyReplaced_wp:
  "wp (verifyReplaced E s latest candidate expires) (\<lambda>r t. later v t \<and> adds isRead v t \<and>
     s_releaseRunner t = s_releaseRunner v \<and> s_closed t = s_closed v \<and>
     (r = None \<longrightarrow> s_pending t = None \<and> s_pendingExpiry t = None \<and>
        sameSyncFileData (rf_data (s_remote t)) candidate \<and> s_lockExpiry t = expires \<and>
        (rf_exists (s_remote t) \<longrightarrow> (\<exists>c. w_cmds t = c # w_cmds v \<and> readBy s c (s_remote t))) \<and>
        (Lock candidate \<noteq> None \<longrightarrow> ownedBy (s_remote t) (cf_owner s))) \<and>
     (r \<noteq> None \<longrightarrow> s_remote t = s_remote v \<and> s_lockExpiry t = s_lockExpiry v)) v"
  unfolding verifyReplaced_def wp_bind
  by (rule wp_mono [OF readRemote_done])
    (auto simp: wp_simps  readDone_def framed_session later_def adds_def noRemote_def
      intro!: wp_mono [OF setOwnedRemote_wp] split: sum.splits if_splits)

lemma adds_trans: "adds P w v \<Longrightarrow> adds P v t \<Longrightarrow> adds P w t"
  by (rule adds.R_trans)

lemma replaced_refused:
  assumes "readDone s w l v" and "w_cmds t = w_cmds v" "w_clock t = w_clock v"
    and "s_releaseRunner t = s_releaseRunner v" "s_closed t = s_closed v"
    and "s_remote t = s_remote v" "s_lockExpiry t = s_lockExpiry v"
  shows "replaced s previous candidate w (Some err) t"
  using assms by (simp add: replaced_def replaceTrace_def readDone_def later_def adds_def framed_session)

lemma replace_verified:
  fixes w v u x :: "'r session"
  assumes read: "readDone s w (Inr latest) v" and ok: "mayReplace s previous (s_pending w) latest"
    and wrote: "wrote s (tried s previous candidate w latest) (rf_etag latest) x None u"
    and x: "w_cmds x = w_cmds v" "w_clock v \<le> writtenAt" "w_clock x = writtenAt"
    and later: "later x u"
    and expires: "expires = candidateExpiry s latest (tried s previous candidate w latest) writtenAt
        (if isPending (s_pending w) latest then s_pendingExpiry w else s_lockExpiry w)"
    and kept: "s_releaseRunner u = s_releaseRunner w" "s_closed u = s_closed w"
      "s_remote u = s_remote w" "s_lockExpiry u = s_lockExpiry w"
  shows "wp (verifyReplaced E s latest (tried s previous candidate w latest) expires)
    (replaced s previous candidate w) u"
proof -
  obtain c where c: "w_cmds v = c # w_cmds w" "readBy s c latest"
    using readDone_owned [OF read] ok unfolding mayReplace_def by blast
  obtain d where d: "w_cmds u = d # c # w_cmds w" "writeBy s d (tried s previous candidate w latest) (rf_etag latest)"
    "r_err (c_result d) = None" "writtenAt \<le> c_time d"
    using wrote x c unfolding wrote_def by auto
  have l: "w_clock w \<le> writtenAt" "later w u"
    using read x later c d by (auto simp: readDone_def later_def suffix_def)
  show ?thesis
  proof (rule wp_mono [OF verifyReplaced_wp], elim conjE)
    fix r :: "goerr option" and t
    assume "later u t" and reads: "adds isRead u t"
      and rest: "s_releaseRunner t = s_releaseRunner u" "s_closed t = s_closed u"
      and good: "r = None \<longrightarrow> s_pending t = None \<and> s_pendingExpiry t = None \<and>
        sameSyncFileData (rf_data (s_remote t)) (tried s previous candidate w latest) \<and> s_lockExpiry t = expires \<and>
        (rf_exists (s_remote t) \<longrightarrow> (\<exists>c. w_cmds t = c # w_cmds u \<and> readBy s c (s_remote t))) \<and>
        (Lock (tried s previous candidate w latest) \<noteq> None \<longrightarrow> ownedBy (s_remote t) (cf_owner s))"
      and no: "r \<noteq> None \<longrightarrow> s_remote t = s_remote u \<and> s_lockExpiry t = s_lockExpiry u"
    obtain xs where xs: "w_cmds t = xs @ w_cmds u" "\<forall>y \<in> set xs. isRead y"
      using reads unfolding adds_def by auto
    have "replaceTrace s previous candidate w t"
      using xs c d ok unfolding replaceTrace_def by auto
    moreover have "replaceOk s previous candidate w t" if "r = None"
    proof -
      have "readBy s (hd xs) (s_remote t)" if "rf_exists (s_remote t)"
        using good xs \<open>r = None\<close> that by auto
      then show ?thesis
        unfolding replaceOk_def
        using good that xs c d expires l ok by fastforce
    qed
    ultimately show "replaced s previous candidate w r t"
      unfolding replaced_def using later.R_trans [OF l(2) \<open>later u t\<close>] rest no kept by simp
  qed
qed

lemma replace_writing:
  fixes w v :: "'r session"
  assumes read: "readDone s w (Inr latest) v" and ok: "mayReplace s previous (s_pending w) latest"
    and cand: "cand = tried s previous candidate w latest"
    and expires: "expires = (\<lambda>t. candidateExpiry s latest cand t
        (if isPending (s_pending w) latest then s_pendingExpiry w else s_lockExpiry w))"
  shows "wp (timeNow E) (\<lambda>writtenAt. wp (modify (\<lambda>x. x\<lparr>s_pending := Some cand, s_pendingExpiry := expires writtenAt\<rparr>))
    (\<lambda>_. wp (writeRemote E s cand (rf_etag latest)) (\<lambda>e. wp (case e of
        Some err \<Rightarrow> State_Monad.return (Some err)
      | None \<Rightarrow> verifyReplaced E s latest cand (expires writtenAt)) (replaced s previous candidate w)))) v"
proof (rule wp_mono [OF timeNow_wp], simp only: wp_simps, rule wp_mono [OF writeRemote_done], elim conjE)
  fix now and y t :: "'r session" and e :: "goerr option"
  let ?x = "y\<lparr>s_pending := Some cand, s_pendingExpiry := expires now\<rparr>"
  assume y: "framed v y" "w_cmds y = w_cmds v" "w_clock v \<le> now" "w_clock y = now"
    and t: "framed ?x t" "later ?x t" "wrote s cand (rf_etag latest) ?x e t"
  have kept: "s_releaseRunner t = s_releaseRunner w" "s_closed t = s_closed w" "s_remote t = s_remote w"
    "s_lockExpiry t = s_lockExpiry w"
    using framed_session [OF t(1)] framed_session [OF y(1)] read by (simp_all add: readDone_def framed_session)
  show "wp (case e of Some err \<Rightarrow> State_Monad.return (Some err)
      | None \<Rightarrow> verifyReplaced E s latest cand (expires now)) (replaced s previous candidate w) t"
  proof (cases e)
    case None
    then show ?thesis
      using replace_verified [OF read ok _ _ _ _ t(2), of candidate now "expires now"] t y kept cand expires by simp
  next
    case (Some err)
    obtain c where c: "w_cmds v = c # w_cmds w" "readBy s c latest"
      using readDone_owned [OF read] ok unfolding mayReplace_def by blast
    have "replaceTrace s previous candidate w t"
      using t(3) y c ok cand read unfolding replaceTrace_def wrote_def
      by (force simp: readDone_def adds_def)
    moreover have "later w t"
      using read y t(2) by (auto simp: readDone_def later_def intro: suffix_order.order_trans)
    ultimately show ?thesis using Some kept by (simp add: wp_simps replaced_def)
  qed
qed

lemma replaceOwnedRemote_wp:
  "wp (replaceOwnedRemote E s previous candidate) (replaced s previous candidate w) w"
  unfolding replaceOwnedRemote_def wp_bind
proof (rule wp_mono [OF readRemote_done], goal_cases)
  case (1 l v)
  then have read: "readDone s w l v" .
  then have pend: "s_pending v = s_pending w" "s_pendingExpiry v = s_pendingExpiry w" "s_lockExpiry v = s_lockExpiry w"
    by (simp_all add: readDone_def framed_session)
  show ?case
  proof (cases l)
    case (Inl err)
    then show ?thesis using replaced_refused [OF read] by (simp add: wp_simps)
  next
    case (Inr latest)
    show ?thesis
    proof (cases "mayReplace s previous (s_pending w) latest")
      case False
      then show ?thesis
        using Inr replaced_refused [OF read] pend by (auto simp: wp_simps  mayReplace_def Let_def)
    next
      case True
      then show ?thesis
        using Inr replace_writing [OF read [unfolded Inr] True refl refl] pend
        by (cases "isPending (s_pending w) latest")
          (simp_all add: wp_simps mayReplace_def Let_def tried_def cong: option.case_cong)
    qed
  qed
qed

section \<open>Composing the operations\<close>

text \<open>The local files can only be touched by local operations: they run no command.\<close>

lemma adds_False: "adds (\<lambda>c. False) w t \<longleftrightarrow> w_cmds t = w_cmds w"
  by (auto simp: adds_def)

definition quiet :: "'r session \<Rightarrow> 'r session \<Rightarrow> bool" where
  "quiet w t = (framed w t \<and> later w t \<and> w_cmds t = w_cmds w)"

lemma quietI:
  "state_io_rel framed m \<Longrightarrow> state_io_rel later m \<Longrightarrow> state_io_rel (adds (\<lambda>c. False)) m \<Longrightarrow> wp m (\<lambda>_ t. quiet w t) w"
  unfolding quiet_def wp_conj adds_False [symmetric]
  by (intro conjI framed.wp_effect later.wp_effect adds.wp_effect)

lemma quiet_session: "quiet w t \<Longrightarrow> s_remote t = s_remote w \<and> s_lockExpiry t = s_lockExpiry w \<and>
    s_pending t = s_pending w \<and> s_pendingExpiry t = s_pendingExpiry w \<and>
    s_releaseRunner t = s_releaseRunner w \<and> s_closed t = s_closed w \<and> w_cmds t = w_cmds w"
  by (simp add: quiet_def framed_session)

lemma tried_fields [simp]:
  "RepositoryID (tried s p c w l) = RepositoryID c" "Generation (tried s p c w l) = Generation c"
  "SyncID (tried s p c w l) = SyncID c" "Syncing (tried s p c w l) = Syncing c"
  by (simp_all add: tried_def effectiveCandidate_def)

lemma replaced_success:
  assumes "replaced s previous candidate w None t"
  shows "RepositoryID (rf_data (s_remote t)) = RepositoryID candidate"
    "Generation (rf_data (s_remote t)) = Generation candidate"
    "SyncID (rf_data (s_remote t)) = SyncID candidate"
    "Syncing (rf_data (s_remote t)) = Syncing candidate"
  using assms by (auto simp: replaced_def replaceOk_def sameSyncFileData_def)

lemma tried_locked:
  assumes "mayReplace s previous (s_pending w) latest" and "sameLock (Lock candidate) (Lock (rf_data previous))"
  shows "Lock (tried s previous candidate w latest) \<noteq> None"
  using assms
  by (cases "Lock candidate") (auto simp: mayReplace_def tried_def effectiveCandidate_def ownedBy_def sameSyncFileData_def split: option.splits)

lemma replaced_owned:
  assumes "replaced s previous candidate w None t" and "sameLock (Lock candidate) (Lock (rf_data previous))"
  shows "ownedBy (s_remote t) (cf_owner s)"
  using assms tried_locked [OF _ assms(2)] by (auto simp: replaced_def replaceOk_def)

lemma replaced_failure:
  "replaced s previous candidate w (Some err) t \<Longrightarrow> s_remote t = s_remote w \<and> s_lockExpiry t = s_lockExpiry w"
  by (simp add: replaced_def)


lemma wp_quiet:
  "state_io_rel framed m \<Longrightarrow> state_io_rel later m \<Longrightarrow> state_io_rel (adds (\<lambda>c. False)) m \<Longrightarrow>
   (\<And>r v. quiet w v \<Longrightarrow> Q r v) \<Longrightarrow> wp m Q w"
  by (rule wp_mono [OF quietI])

lemma quiet_trans: "quiet w v \<Longrightarrow> quiet v t \<Longrightarrow> quiet w t"
  using framed.R_trans later.R_trans by (fastforce simp: quiet_def)

lemma quiet_rules:
  "(\<And>r v. quiet w v \<Longrightarrow> Q r v) \<Longrightarrow> wp (randomText E) Q w"
  "(\<And>r v. quiet w v \<Longrightarrow> Q' r v) \<Longrightarrow> wp (writeLocalSyncFile E p d) Q' w"
  "(\<And>r v. quiet w v \<Longrightarrow> Q'' r v) \<Longrightarrow> wp (readLocalSyncFile E p) Q'' w"
  "(\<And>r v. quiet w v \<Longrightarrow> P r v) \<Longrightarrow> wp (newLock E s) P w"
  "(\<And>r v. quiet w v \<Longrightarrow> P' r v) \<Longrightarrow> wp (timeNow E) P' w"
  by (auto intro!: wp_quiet framed.rules later.rules adds.rules simp: newLock_def)

text \<open>Success establishes a property; an error leaves the remembered remote and its expiry alone.\<close>

definition outcome :: "('r session \<Rightarrow> bool) \<Rightarrow> 'r session \<Rightarrow> goerr option \<Rightarrow> 'r session \<Rightarrow> bool" where
  "outcome P w r t = (case r of None \<Rightarrow> P t
     | Some err \<Rightarrow> s_remote t = s_remote w \<and> s_lockExpiry t = s_lockExpiry w)"

lemma outcome_simps [simp]:
  "outcome P w None t = P t"
  "outcome P w (Some err) t \<longleftrightarrow> s_remote t = s_remote w \<and> s_lockExpiry t = s_lockExpiry w"
  by (simp_all add: outcome_def)

lemma wp_replace:
  assumes "quiet w v" and "\<And>t. replaced s previous candidate v None t \<Longrightarrow> wp (f None) (outcome P w) t"
    and "\<And>err t. s_remote t = s_remote w \<Longrightarrow> s_lockExpiry t = s_lockExpiry w \<Longrightarrow> wp (f (Some err)) (outcome P w) t"
  shows "wp (replaceOwnedRemote E s previous candidate) (\<lambda>r. wp (f r) (outcome P w)) v"
proof (rule wp_mono [OF replaceOwnedRemote_wp])
  fix r t assume "replaced s previous candidate v r t"
  then show "wp (f r) (outcome P w) t"
    using assms replaced_failure [of s previous candidate v _ t] quiet_session [OF assms(1)] by (cases r) auto
qed

lemma replace_later [intro!]:
  "state_io_rel later (setOwnedRemote r x)" "state_io_rel later (verifyReplaced E s l c x)"
  "state_io_rel later (replaceOwnedRemote E s p c)"
  unfolding setOwnedRemote_def verifyReplaced_def replaceOwnedRemote_def Let_def
  by (auto intro!: later.rules later.modify_rule simp: later_def)

text \<open>The first command that a program runs sees the disk as it was.\<close>

definition firstSees :: "'r session \<Rightarrow> 'r session \<Rightarrow> bool" where
  "firstSees v t = (\<exists>xs d. w_cmds t = xs @ d # w_cmds v \<and> c_disk d = w_disk v)"

lemma firstSees_later: "firstSees v u \<Longrightarrow> later u t \<Longrightarrow> firstSees v t"
  by (auto simp: firstSees_def later_def suffix_def)

lemma readRemote_first:
  "wp (readRemote E s) (\<lambda>r t. (isInl r \<and> w_cmds t = w_cmds v) \<or> firstSees v t) v"
  unfolding readRemote_def wp_bind
proof (rule wp_mono [OF runnerRun_cmds], goal_cases)
  case (1 r u)
  have later: "state_io_rel later (case r_err r of
        Some err \<Rightarrow> State_Monad.return
          (if isRcloneNotFound err then Inr noRemote else Inl (commandError err (r_stderr r)))
      | None \<Rightarrow>
          if r_stdout r = [] then do {
            x \<leftarrow> remoteStateExists E s;
            State_Monad.return (case x of
                Inl err \<Rightarrow> Inl (Wrapped ''check empty remote state file: %w'' [] err)
              | Inr ex \<Rightarrow> if \<not> ex then Inr noRemote else decodeRemote s r) }
          else State_Monad.return (decodeRemote s r))"
    unfolding remoteStateExists_def by (auto intro!: later.rules simp: Let_def)
  show ?case
  proof (cases "w_cmds u = w_cmds v")
    case True
    then show ?thesis using 1 by (auto simp: wp_simps isRcloneNotFound_def)
  next
    case False
    then have "firstSees v u" using 1 by (force simp: firstSees_def)
    then show ?thesis by (intro wp_mono [OF later.wp_effect [OF later]]) (auto intro: firstSees_later)
  qed
qed

lemma replaceOwnedRemote_first:
  "wp (replaceOwnedRemote E s previous candidate) (\<lambda>r t. w_cmds t = w_cmds v \<or> firstSees v t) v"
  unfolding replaceOwnedRemote_def wp_bind
proof (rule wp_mono [OF readRemote_first], goal_cases)
  case (1 l u)
  show ?case
  proof (cases "firstSees v u")
    case True
    show ?thesis
      by (rule wp_mono [OF later.wp_effect])
        (auto intro!: later.rules later.modify_rule firstSees_later [OF True] simp: Let_def later_def)
  next
    case False
    then show ?thesis using 1 by (cases l) (auto simp: wp_simps)
  qed
qed


end
