(* ===== verification/RemotePayload.thy ===== *)
theory RemotePayload
  imports SyncState
begin

text \<open>
  The payload side of src/syncstate.go: which paths are metadata of the synchronisation and
  not payload (\<open>protects\<close>, \<open>payloadFilters\<close>), and the commands that move, inspect and
  clear the payload. The lemmas show that none of these commands touches the state file.
\<close>

definition payloadFilters :: "syncConfig \<Rightarrow> string list" where
  "payloadFilters s =
     (let lf = p_localFilter (cf_paths s); rf = p_remoteFilter (cf_paths s) in
      (if lf \<noteq> [] then [literalFilterPath (lf @ localStateTempPrefix) @ ''*'', literalFilterPath lf] else [])
      @ (if rf \<noteq> [] \<and> rf \<noteq> lf then [literalFilterPath rf] else []))"

fun protectsAny :: "string list \<Rightarrow> string \<Rightarrow> bool \<Rightarrow> bool \<times> bool" where
  "protectsAny [] path ancestor = (False, ancestor)"
| "protectsAny (f # fs) path ancestor =
     (if f = [] then protectsAny fs path ancestor
      else if path = f then (True, False)
      else protectsAny fs path (ancestor \<or> prefix (path @ ''/'') f))"

definition protects :: "syncConfig \<Rightarrow> string \<Rightarrow> bool \<times> bool" where
  "protects s path =
     (let lf = p_localFilter (cf_paths s); rf = p_remoteFilter (cf_paths s) in
      if lf \<noteq> [] \<and> prefix (lf @ localStateTempPrefix) path then (True, False)
      else protectsAny [lf, rf] path False)"

definition syncFromRemote :: "'r env \<Rightarrow> syncConfig \<Rightarrow> ('r, goerr option) prog" where
  "syncFromRemote E s = stateRun E s (payloadSyncArgs (cf_dest s) (cf_source s) (payloadFilters s) (cf_excludes s))"

definition syncToRemote :: "'r env \<Rightarrow> syncConfig \<Rightarrow> ('r, goerr option) prog" where
  "syncToRemote E s = stateRun E s (payloadSyncArgs (cf_source s) (cf_dest s) (payloadFilters s) (cf_excludes s))"

definition deleteArgs :: "syncConfig \<Rightarrow> string list" where
  "deleteArgs s = [''delete'', cf_dest s]
     @ (if p_remoteFilter (cf_paths s) \<noteq> []
        then [''--exclude'', ''/'' @ literalFilterPath (p_remoteFilter (cf_paths s))] else [])"

definition deleteRemotePayload :: "'r env \<Rightarrow> syncConfig \<Rightarrow> ('r, goerr option) prog" where
  "deleteRemotePayload E s = do {
     e \<leftarrow> stateRun E s (deleteArgs s);
     (case e of
        Some err \<Rightarrow> State_Monad.return (if isRcloneNotFound err then None else Some err)
      | None \<Rightarrow> do {
          e \<leftarrow> stateRun E s [''rmdirs'', cf_dest s, ''--leave-root''];
          State_Monad.return (case e of
              None \<Rightarrow> None
            | Some err \<Rightarrow> if isRcloneNotFound err then None else Some err) }) }"

definition remotePayloadEmpty :: "'r env \<Rightarrow> syncConfig \<Rightarrow> ('r, goerr + bool) prog" where
  "remotePayloadEmpty E s = do {
     r \<leftarrow> runnerRun E [''lsjson'', cf_dest s, ''--max-depth'', ''1''];
     State_Monad.return (case r_err r of
         Some err \<Rightarrow> if isRcloneNotFound err then Inr True else Inl (commandError err (r_stderr r))
       | None \<Rightarrow> (case unmarshal (r_stdout r) of
           Some (JArr vs) \<Rightarrow> Inr (vs = [])
         | Some JNull \<Rightarrow> Inr True
         | _ \<Rightarrow> Inl (Wrapped ''decode remote listing: %w'' [] JSONError))) }"

section \<open>What they do\<close>

definition isTransfer :: "cmd \<Rightarrow> bool" where
  "isTransfer c = (\<exists>a as. c_args c = a # as \<and> (a = ''sync'' \<or> a = ''delete'' \<or> a = ''rmdirs''))"

lemma transfer_not_read: "isTransfer c \<Longrightarrow> \<not> isRead c"
  by (auto simp: isTransfer_def isRead_def)

lemma transfer_effects [intro!]:
  "state_io_rel framed (syncFromRemote E s)" "state_io_rel later (syncFromRemote E s)"
  "state_io_rel (adds isTransfer) (syncFromRemote E s)"
  "state_io_rel framed (syncToRemote E s)" "state_io_rel later (syncToRemote E s)"
  "state_io_rel (adds isTransfer) (syncToRemote E s)"
  "state_io_rel framed (deleteRemotePayload E s)" "state_io_rel later (deleteRemotePayload E s)"
  "state_io_rel (adds isTransfer) (deleteRemotePayload E s)"
  "state_io_rel framed (remotePayloadEmpty E s)" "state_io_rel later (remotePayloadEmpty E s)"
  "state_io_rel (adds isRead) (remotePayloadEmpty E s)"
  unfolding syncFromRemote_def syncToRemote_def deleteRemotePayload_def remotePayloadEmpty_def
  by (auto intro!: framed.rules later.rules adds.rules runner_adds
      simp: isTransfer_def isRead_def payloadSyncArgs_def deleteArgs_def)

lemma protects_exact:
  "fst (protects s path) \<longleftrightarrow>
     (p_localFilter (cf_paths s) \<noteq> [] \<and> prefix (p_localFilter (cf_paths s) @ localStateTempPrefix) path) \<or>
     (path \<noteq> [] \<and> (path = p_localFilter (cf_paths s) \<or> path = p_remoteFilter (cf_paths s)))"
  by (auto simp: protects_def Let_def)

end
