(* ===== verification/Lifecycle.thy ===== *)
theory Lifecycle
  imports RemotePayload
begin

text \<open>
  The operations of a running session in src/syncstate.go: announcing and completing a
  change of the remote payload, finishing and closing the session, and keeping the lock
  fresh (\<open>refreshLoop\<close> with its two watchdogs).
\<close>

section \<open>Remote changes\<close>

definition localRecord :: "string \<Rightarrow> u64 \<Rightarrow> string \<Rightarrow> bool \<Rightarrow> syncFileData" where
  "localRecord repositoryID generation syncID syncing =
     \<lparr>RepositoryID = repositoryID, Generation = generation, SyncID = syncID, Syncing = syncing,
      Active = True, Lock = None\<rparr>"

definition beforeRemoteChange :: "'r env \<Rightarrow> syncConfig \<Rightarrow> ('r, goerr option) prog" where
  "beforeRemoteChange E s = do {
     remote \<leftarrow> gets s_remote;
     if Generation (rf_data remote) = 0
     then State_Monad.return (Some (errorString ''remote repository is not initialized''))
     else if Generation (rf_data remote) = - 1
     then State_Monad.return (Some (errorString ''generation number cannot be incremented''))
     else do {
       let nxt = Generation (rf_data remote) + 1;
       syncID \<leftarrow> randomText E;
       e \<leftarrow> writeLocalSyncFile E (p_local (cf_paths s))
              (localRecord (RepositoryID (rf_data remote)) nxt syncID True);
       (case e of Some err \<Rightarrow> State_Monad.return (Some (Wrapped ''increment local generation: %w'' [] err))
        | None \<Rightarrow> do {
            e \<leftarrow> replaceOwnedRemote E s remote
                   ((rf_data remote)\<lparr>Generation := nxt, SyncID := syncID, Syncing := True\<rparr>);
            State_Monad.return (case e of
                Some err \<Rightarrow> Some (Wrapped ''publish generation %d: %w'' [Num (uint nxt)] err)
              | None \<Rightarrow> None) }) } }"

definition afterRemoteChange :: "'r env \<Rightarrow> syncConfig \<Rightarrow> ('r, goerr option) prog" where
  "afterRemoteChange E s = do {
     remote \<leftarrow> gets s_remote;
     let candidate = (rf_data remote)\<lparr>Syncing := False\<rparr>;
     e \<leftarrow> replaceOwnedRemote E s remote candidate;
     (case e of Some err \<Rightarrow> State_Monad.return (Some (Wrapped ''clear remote syncing flag: %w'' [] err))
      | None \<Rightarrow> do {
          e \<leftarrow> writeLocalSyncFile E (p_local (cf_paths s))
                 (localRecord (RepositoryID candidate) (Generation candidate) (SyncID candidate) False);
          State_Monad.return (case e of
              Some err \<Rightarrow> Some (Wrapped ''clear local syncing flag: %w'' [] err)
            | None \<Rightarrow> None) }) }"

section \<open>The end of a session\<close>

definition finishSession :: "'r env \<Rightarrow> syncConfig \<Rightarrow> ('r, goerr option) prog" where
  "finishSession E s = do {
     l \<leftarrow> readLocalSyncFile E (p_local (cf_paths s));
     (case l of
        Inl err \<Rightarrow> State_Monad.return (Some err)
      | Inr (local, ex) \<Rightarrow>
          if \<not> ex then State_Monad.return (Some (errorString ''local state file is missing at session completion''))
          else writeLocalSyncFile E (p_local (cf_paths s)) (local\<lparr>Active := False\<rparr>)) }"

text \<open>
  \<open>Close\<close>. The first call decides; later ones return its result. It runs when the refresh
  loop has returned (\<open>s.done\<close>).
\<close>

definition releaseLock :: "'r env \<Rightarrow> syncConfig \<Rightarrow> ('r, goerr option) prog" where
  "releaseLock E s = do {
     remote \<leftarrow> gets s_remote;
     replaceOwnedRemote E s remote ((rf_data remote)\<lparr>Lock := None\<rparr>) }"

definition closeState :: "'r env \<Rightarrow> syncConfig \<Rightarrow> ('r, goerr option) prog" where
  "closeState E s = do {
     closed \<leftarrow> gets s_closed;
     (case closed of
        Some r \<Rightarrow> State_Monad.return r
      | None \<Rightarrow> do {
          modify (\<lambda>w. w\<lparr>s_releaseRunner := s_releaseRunner w \<or> cf_hasReleaseRunner s\<rparr>);
          r \<leftarrow> (if cf_persistent s then State_Monad.return None else releaseLock E s);
          modify (\<lambda>w. w\<lparr>s_closed := Some r\<rparr>);
          State_Monad.return r }) }"

section \<open>Keeping the lock fresh\<close>

definition refreshSafetyWindow :: "syncConfig \<Rightarrow> duration" where
  "refreshSafetyWindow s = max (min (cf_timeout s sdiv 20) second) 1"

definition refreshDelay :: "'r env \<Rightarrow> syncConfig \<Rightarrow> ('r, duration) prog" where
  "refreshDelay E s = do {
     e \<leftarrow> gets s_lockExpiry;
     (case e of
        None \<Rightarrow> State_Monad.return 0
      | Some expires \<Rightarrow> do {
          now \<leftarrow> timeNow E;
          State_Monad.return (max (expires - cf_timeout s + max (cf_timeout s sdiv 2) 1 - now) 0) }) }"

definition refreshDeadlinePassed :: "'r env \<Rightarrow> syncConfig \<Rightarrow> ('r, bool) prog" where
  "refreshDeadlinePassed E s = do {
     e \<leftarrow> gets s_lockExpiry;
     (case e of
        None \<Rightarrow> State_Monad.return True
      | Some expires \<Rightarrow> do {
          now \<leftarrow> timeNow E;
          State_Monad.return (\<not> now < expires - refreshSafetyWindow s) }) }"

definition refreshRetryDelay :: "'r env \<Rightarrow> syncConfig \<Rightarrow> ('r, duration option) prog" where
  "refreshRetryDelay E s = do {
     e \<leftarrow> gets s_lockExpiry;
     (case e of
        None \<Rightarrow> State_Monad.return None
      | Some expires \<Rightarrow> do {
          now \<leftarrow> timeNow E;
          let remaining = expires - refreshSafetyWindow s - now;
          State_Monad.return (if remaining \<le> 0 then None else Some (min (cf_pollInterval s) remaining)) }) }"

text \<open>Without an expiry the watchdog's time is in the past: it fires at once.\<close>

definition startRefreshWatchdog :: "'r env \<Rightarrow> syncConfig \<Rightarrow> ('r, unit) prog" where
  "startRefreshWatchdog E s = do {
     e \<leftarrow> gets s_lockExpiry;
     now \<leftarrow> timeNow E;
     armWatchdog (case e of None \<Rightarrow> now | Some expires \<Rightarrow> expires - refreshSafetyWindow s) (cf_hasCancel s) }"

definition failRefresh :: "syncConfig \<Rightarrow> goerr \<Rightarrow> ('r, duration + goerr) prog" where
  "failRefresh s err = do {
     (if cf_hasCancel s then cancelRunner else State_Monad.return ());
     State_Monad.return (Inr err) }"

text \<open>
  One round of \<open>refreshLoop\<close> after its timer fired: \<open>Inl\<close> is the delay to the next round,
  \<open>Inr\<close> the error it reports. \<open>waiting\<close> is what the holder of \<open>updateMu\<close> still does
  before this round gets the mutex.
\<close>

definition refreshRound :: "'r env \<Rightarrow> syncConfig \<Rightarrow> ('r, unit) prog \<Rightarrow> ('r, duration + goerr) prog" where
  "refreshRound E s waiting = do {
     startRefreshWatchdog E s;
     waiting;
     fired \<leftarrow> stopWatchdog E;
     passed \<leftarrow> (if fired then State_Monad.return True else refreshDeadlinePassed E s);
     if passed then failRefresh s (errorString ''could not refresh remote lock before expiry'')
     else do {
       remote \<leftarrow> gets s_remote;
       lock \<leftarrow> newLock E s;
       startRefreshWatchdog E s;
       e \<leftarrow> replaceOwnedRemote E s remote ((rf_data remote)\<lparr>Lock := Some lock\<rparr>);
       expired \<leftarrow> stopWatchdog E;
       if expired then failRefresh s (errorString ''could not refresh remote lock before expiry'')
       else (case e of
          Some err \<Rightarrow>
            if \<not> isOwnershipLost err then do {
              d \<leftarrow> refreshRetryDelay E s;
              (case d of
                 Some delay \<Rightarrow> State_Monad.return (Inl delay)
               | None \<Rightarrow> failRefresh s (Wrapped ''refresh remote lock before expiry: %w'' [] err)) }
            else failRefresh s err
        | None \<Rightarrow> do { d \<leftarrow> refreshDelay E s; State_Monad.return (Inl d) }) } }"

text \<open>
  The loop over a schedule: for each round what the other goroutines do before its timer
  fires and while it waits for the mutex. The schedule ends when \<open>stop\<close> is closed.
\<close>

fun refreshRounds ::
    "'r env \<Rightarrow> syncConfig \<Rightarrow> (('r, unit) prog \<times> ('r, unit) prog) list \<Rightarrow> duration \<Rightarrow> ('r, goerr option) prog" where
  "refreshRounds E s [] delay = State_Monad.return None"
| "refreshRounds E s ((between, waiting) # rounds) delay = do {
     start \<leftarrow> gets w_clock;
     between;
     modify (\<lambda>w. w\<lparr>w_clock := max (w_clock w) (start + delay)\<rparr>);
     r \<leftarrow> refreshRound E s waiting;
     (case r of
        Inl d \<Rightarrow> refreshRounds E s rounds d
      | Inr err \<Rightarrow> State_Monad.return (Some err)) }"

definition refreshLoop ::
    "'r env \<Rightarrow> syncConfig \<Rightarrow> (('r, unit) prog \<times> ('r, unit) prog) list \<Rightarrow> ('r, goerr option) prog" where
  "refreshLoop E s rounds = do { d \<leftarrow> refreshDelay E s; refreshRounds E s rounds d }"

section \<open>What a change of the remote does\<close>

lemma unat_next: "g \<noteq> - 1 \<Longrightarrow> unat (g + 1 :: u64) = Suc (unat g)"
  using unatSuc [of g] by (simp add: eq_neg_iff_add_eq_0 add.commute)

definition announced :: "syncConfig \<Rightarrow> remoteSyncFile \<Rightarrow> remoteSyncFile \<Rightarrow> bool" where
  "announced s before after =
     (unat (Generation (rf_data after)) = Suc (unat (Generation (rf_data before))) \<and>
      0 < unat (Generation (rf_data before)) \<and>
      RepositoryID (rf_data after) = RepositoryID (rf_data before) \<and>
      Syncing (rf_data after) \<and> ownedBy after (cf_owner s))"

text \<open>What is published: the next generation, marked as incomplete.\<close>

definition nextCandidate :: "'r session \<Rightarrow> string \<Rightarrow> syncFileData" where
  "nextCandidate w i = (rf_data (s_remote w))
     \<lparr>Generation := Generation (rf_data (s_remote w)) + 1, SyncID := i, Syncing := True\<rparr>"

definition published :: "syncConfig \<Rightarrow> 'r session \<Rightarrow> 'r session \<Rightarrow> bool" where
  "published s w t = (Generation (rf_data (s_remote w)) \<noteq> 0 \<and> Generation (rf_data (s_remote w)) \<noteq> - 1 \<and>
     (\<exists>v i. quiet w v \<and> replaced s (s_remote w) (nextCandidate w i) v None t))"

lemma beforeRemoteChange_publishes: "wp (beforeRemoteChange E s) (outcome (published s w) w) w"
proof -
  let ?g = "Generation (rf_data (s_remote w))"
  have publish: "wp (replaceOwnedRemote E s (s_remote w) ((rf_data (s_remote w))\<lparr>Generation := ?g + 1, SyncID := i, Syncing := True\<rparr>))
      (\<lambda>e. wp (State_Monad.return (case e of None \<Rightarrow> None | Some err \<Rightarrow> Some (h err)))
        (outcome (published s w) w)) v"
    if "quiet w v" "?g \<noteq> 0" "?g \<noteq> - 1" for v i h
    by (rule wp_replace [OF that(1)])
      (use that in \<open>auto simp: wp_simps published_def nextCandidate_def\<close>)
  have recorded: "wp (writeLocalSyncFile E p d) (\<lambda>e. wp (case e of
        Some err \<Rightarrow> State_Monad.return (Some (k err))
      | None \<Rightarrow> do {
          e \<leftarrow> replaceOwnedRemote E s (s_remote w) ((rf_data (s_remote w))\<lparr>Generation := ?g + 1, SyncID := i, Syncing := True\<rparr>);
          State_Monad.return (case e of None \<Rightarrow> None | Some err \<Rightarrow> Some (h err)) })
        (outcome (published s w) w)) v"
    if "quiet w v" "?g \<noteq> 0" "?g \<noteq> - 1" for v i h k p d
    by (rule quiet_rules)
      (use that publish [OF quiet_trans] in \<open>auto simp: wp_simps quiet_session split: option.split\<close>)
  show ?thesis
    unfolding beforeRemoteChange_def
    by (simp add: wp_simps Let_def) (auto intro: quiet_rules recorded)
qed

lemma outcome_mono: "outcome P w r t \<Longrightarrow> (P t \<Longrightarrow> Q t) \<Longrightarrow> outcome Q w r t"
  by (cases r) simp_all

lemma published_announced: "published s w t \<Longrightarrow> announced s (s_remote w) (s_remote t)"
  by (auto simp: published_def announced_def unat_next unat_gt_0 nextCandidate_def dest: replaced_success
      intro: replaced_owned)

lemma beforeRemoteChange_wp:
  "wp (beforeRemoteChange E s) (outcome (\<lambda>t. announced s (s_remote w) (s_remote t)) w) w"
  by (rule wp_mono [OF beforeRemoteChange_publishes]) (auto elim!: outcome_mono intro: published_announced)

text \<open>
  Every command that announcing a change runs comes after the local file records the next
  generation as incomplete.
\<close>

definition recordedFirst :: "syncConfig \<Rightarrow> 'r session \<Rightarrow> 'r session \<Rightarrow> bool" where
  "recordedFirst s w t = (w_cmds t = w_cmds w \<or>
    (\<exists>xs d i. w_cmds t = xs @ d # w_cmds w \<and> holdsLocal (c_disk d) (p_local (cf_paths s))
       (localRecord (RepositoryID (rf_data (s_remote w))) (Generation (rf_data (s_remote w)) + 1) i True)))"

lemma beforeRemoteChange_local_first:
  assumes "cleanFile (p_local (cf_paths s))"
  shows "wp (beforeRemoteChange E s) (\<lambda>r. recordedFirst s w) w"
proof -
  let ?d = "\<lambda>i. localRecord (RepositoryID (rf_data (s_remote w))) (Generation (rf_data (s_remote w)) + 1) i True"
  have quiet: "recordedFirst s w v" if "quiet w v" for v using quiet_session [OF that] by (simp add: recordedFirst_def)
  have recorded: "wp (writeLocalSyncFile E (p_local (cf_paths s)) (?d i)) (\<lambda>e. wp (case e of
        Some err \<Rightarrow> State_Monad.return (Some (k err))
      | None \<Rightarrow> do {
          e \<leftarrow> replaceOwnedRemote E s prev cand;
          State_Monad.return (h e) }) (\<lambda>r. recordedFirst s w)) v"
    if v: "quiet w v" for v i h k prev cand
  proof (rule wp_mono [where Q = "\<lambda>e t. quiet v t \<and> (holdsLocal (w_disk t) (p_local (cf_paths s)) (?d i) \<or> e \<noteq> None)"])
    show "wp (writeLocalSyncFile E (p_local (cf_paths s)) (?d i))
        (\<lambda>e t. quiet v t \<and> (holdsLocal (w_disk t) (p_local (cf_paths s)) (?d i) \<or> e \<noteq> None)) v"
      unfolding wp_conj
      by (intro conjI quiet_rules wp_mono [OF writeLocalSyncFile_disk [OF assms]]) auto
    show "wp (case e of
        Some err \<Rightarrow> State_Monad.return (Some (k err))
      | None \<Rightarrow> do {
          e \<leftarrow> replaceOwnedRemote E s prev cand;
          State_Monad.return (h e) }) (\<lambda>r. recordedFirst s w) t"
      if "quiet v t \<and> (holdsLocal (w_disk t) (p_local (cf_paths s)) (?d i) \<or> e \<noteq> None)" for e t
    proof (cases e)
      case None
      have "recordedFirst s w u" if "w_cmds u = w_cmds t \<or> firstSees t u" for u
        using that \<open>quiet v t \<and> _\<close> None quiet_session [OF v] quiet_session [of v t]
        unfolding firstSees_def recordedFirst_def by auto
      then show ?thesis
        using None by (simp add: wp_simps) (rule wp_mono [OF replaceOwnedRemote_first])
    next
      case (Some err)
      then show ?thesis using quiet [OF quiet_trans [OF v]] that by (simp add: wp_simps)
    qed
  qed
  show ?thesis
    unfolding beforeRemoteChange_def
    by (simp add: wp_simps Let_def) (auto intro: quiet_rules recorded simp: recordedFirst_def [of s w w])
qed

definition completed :: "syncConfig \<Rightarrow> remoteSyncFile \<Rightarrow> remoteSyncFile \<Rightarrow> bool" where
  "completed s before after = (RepositoryID (rf_data after) = RepositoryID (rf_data before) \<and>
     Generation (rf_data after) = Generation (rf_data before) \<and> SyncID (rf_data after) = SyncID (rf_data before) \<and>
     \<not> Syncing (rf_data after) \<and> ownedBy after (cf_owner s))"

lemma afterRemoteChange_wp:
  "wp (afterRemoteChange E s) (\<lambda>r t. completed s (s_remote w) (s_remote t) \<or>
     (r \<noteq> None \<and> s_remote t = s_remote w \<and> s_lockExpiry t = s_lockExpiry w)) w"
  unfolding afterRemoteChange_def Let_def wp_simps
proof (rule wp_mono [OF replaceOwnedRemote_wp], goal_cases)
  case (1 e t)
  then show ?case
    using replaced_success [of s _ _ w t] replaced_owned [of s _ _ w t]
    by (cases e) (auto simp: wp_simps completed_def replaced_failure quiet_session intro!: quiet_rules)
qed


section \<open>Closing\<close>

text \<open>What the first call of \<open>Close\<close> does, and that later ones only repeat its result.\<close>

definition closedBy :: "syncConfig \<Rightarrow> 'r session \<Rightarrow> goerr option \<Rightarrow> 'r session \<Rightarrow> bool" where
  "closedBy s w r t = (s_closed t = Some r \<and>
     (if cf_persistent s then r = None \<and> w_cmds t = w_cmds w \<and> s_remote t = s_remote w
      else (let released = (rf_data (s_remote w))\<lparr>Lock := None\<rparr> in
        replaceTrace s (s_remote w) released w t \<and>
        (case r of
           None \<Rightarrow> sameSyncFileData (rf_data (s_remote t)) released \<and> s_lockExpiry t = None
         | Some err \<Rightarrow> s_remote t = s_remote w \<and> s_lockExpiry t = s_lockExpiry w))))"

lemma closeState_wp:
  assumes "s_closed w = None" and "ownedBy (s_remote w) (cf_owner s)"
  shows "wp (closeState E s) (closedBy s w) w"
proof -
  let ?w = "w\<lparr>s_releaseRunner := s_releaseRunner w \<or> cf_hasReleaseRunner s\<rparr>"
  let ?released = "(rf_data (s_remote w))\<lparr>Lock := None\<rparr>"
  have "Lock (rf_data (s_remote w)) \<noteq> None"
    using assms(2) by (auto simp: ownedBy_def split: option.splits)
  then have tried: "tried s (s_remote w) ?released v latest = ?released" for v :: "'a session" and latest
    by (auto simp: tried_def effectiveCandidate_def)
  have "wp (releaseLock E s) (\<lambda>r. wp (modify (\<lambda>w. w\<lparr>s_closed := Some r\<rparr>)) (\<lambda>_. closedBy s w r)) ?w"
    if "\<not> cf_persistent s"
    unfolding releaseLock_def wp_simps
    apply simp
    apply (rule wp_mono [OF replaceOwnedRemote_wp])
    using that tried
    by (auto simp: closedBy_def replaced_def replaceOk_def candidateExpiry_def replaceTrace_def adds_def
        split: option.split)
  then show ?thesis
    using assms by (cases "cf_persistent s") (simp_all add: closeState_def wp_simps closedBy_def [of s w None])
qed

lemma closeState_again:
  assumes "s_closed w = Some r"
  shows "run_state (closeState E s) w = (r, w)"
  using assms by (simp add: closeState_def)


section \<open>The refresh loop\<close>

text \<open>
  Between two armed watchdogs no command starts at or after the deadline: the relation
  \<open>guarded\<close> on the worlds before and after.
\<close>

definition armedAt :: "int \<Rightarrow> 'r session \<Rightarrow> bool" where
  "armedAt deadline w = (\<not> s_releaseRunner w \<and> (w_cancelled w \<or> w_watchdog w = Some (deadline, True)))"

definition guarded :: "int \<Rightarrow> 'r session \<Rightarrow> 'r session \<Rightarrow> bool" where
  "guarded deadline w t = (armedAt deadline w \<longrightarrow> armedAt deadline t \<and> adds (\<lambda>c. c_time c < deadline) w t)"

interpretation guarded: effect "guarded d" for d
  using adds.R_refl adds.R_trans by unfold_locales (auto simp: guarded_def)

lemma guarded_quiet:
  "w_cmds t = w_cmds w \<Longrightarrow> w_cancelled t = w_cancelled w \<Longrightarrow> w_watchdog t = w_watchdog w \<Longrightarrow>
   s_releaseRunner t = s_releaseRunner w \<Longrightarrow> guarded d w t"
  by (simp add: guarded_def armedAt_def adds_def)

lemma tick_guarded [intro!]: "state_io_rel (guarded d) (tick E)"
  by (simp add: state_io_rel_def tick_def guarded_quiet)

lemma os_guarded [intro!]:
  "state_io_rel (guarded d) (timeNow E)" "state_io_rel (guarded d) (wallNow E)" "state_io_rel (guarded d) (randomText E)"
  "state_io_rel (guarded d) (osFails E)" "state_io_rel (guarded d) (readFile E p)"
  "state_io_rel (guarded d) (mkdirAll E p)" "state_io_rel (guarded d) (createTemp E p q)"
  "state_io_rel (guarded d) (fileWrite E p c)" "state_io_rel (guarded d) (fileOp E)"
  "state_io_rel (guarded d) (osRename E p q)" "state_io_rel (guarded d) (osRemove E p)"
  unfolding os_defs
  by (auto intro!: guarded.rules guarded.modify_rule guarded_quiet simp: Let_def split: node.split)

lemma runnerRun_guarded [intro!]: "state_io_rel (guarded d) (runnerRun E args)"
  by (auto simp: state_io_rel_def runnerRun_def rcloneRun_def tick_def guarded_def armedAt_def adds_def
      fireWatchdog_def modify_def split: prod.splits option.splits)


lemma readRemote_guarded [intro!]: "state_io_rel (guarded d) (readRemote E s)"
  unfolding readRemote_def remoteStateExists_def Let_def by (auto intro!: guarded.rules)

lemma writeRemote_guarded [intro!]: "state_io_rel (guarded d) (writeRemote E s data etag)"
  unfolding writeRemote_def stateRun_def by (auto intro!: guarded.rules)

lemma setOwnedRemote_adds [intro!]: "state_io_rel (adds P) (setOwnedRemote r x)"
  unfolding setOwnedRemote_def by (auto intro!: adds.rules adds.modify_rule simp: adds_def)

text \<open>While a watchdog is armed, replacing the remote state starts no command at its deadline or later.\<close>

lemma wp_guard:
  assumes "state_io_rel (guarded d) m" and "armedAt d w"
    and "\<And>r t. armedAt d t \<Longrightarrow> wp (f r) (\<lambda>_. adds (\<lambda>c. c_time c < d) t) t"
  shows "wp (State_Monad.bind m f) (\<lambda>_. adds (\<lambda>c. c_time c < d) w) w"
  unfolding wp_bind
proof (rule wp_mono [OF guarded.wp_effect [OF assms(1)]])
  fix r t assume "guarded d w t"
  then have t: "armedAt d t" "adds (\<lambda>c. c_time c < d) w t" using assms(2) by (simp_all add: guarded_def)
  show "wp (f r) (\<lambda>_. adds (\<lambda>c. c_time c < d) w) t"
    by (rule wp_mono [OF assms(3) [OF t(1)]]) (rule adds.R_trans [OF t(2)])
qed

lemma guarded_modify:
  "(\<And>w. w_cmds (f w) = w_cmds w \<and> w_cancelled (f w) = w_cancelled w \<and> w_watchdog (f w) = w_watchdog w \<and>
     s_releaseRunner (f w) = s_releaseRunner w) \<Longrightarrow> state_io_rel (guarded d) (modify f)"
  by (rule guarded.modify_rule) (simp add: guarded_quiet)

lemma verifyReplaced_guarded:
  assumes "armedAt d v"
  shows "wp (verifyReplaced E s latest candidate expires) (\<lambda>_. adds (\<lambda>c. c_time c < d) v) v"
  unfolding verifyReplaced_def
  by (rule wp_guard [OF readRemote_guarded assms], rule adds.wp_effect)
    (auto intro!: adds.rules adds.modify_rule simp: adds_def)

lemma replaceOwnedRemote_guarded:
  assumes "armedAt d v"
  shows "wp (replaceOwnedRemote E s previous candidate) (\<lambda>_. adds (\<lambda>c. c_time c < d) v) v"
  unfolding replaceOwnedRemote_def
proof (rule wp_guard [OF readRemote_guarded assms], goal_cases)
  case (1 l t)
  show ?case
  proof (cases l)
    case (Inl err)
    then show ?thesis by (simp add: wp_simps adds.R_refl)
  next
    case (Inr latest)
    show ?thesis
      using 1 unfolding Inr sum.case Let_def
      by (auto intro!: wp_guard guarded.gets_rule guarded_modify verifyReplaced_guarded
          simp: wp_return adds.R_refl split: option.split)
  qed
qed

lemma wp_adds_then:
  assumes "state_io_rel (adds P) m" and "\<And>r t. wp (f r) (\<lambda>_. adds P t) t"
  shows "wp (State_Monad.bind m f) (\<lambda>_. adds P w) w"
  unfolding wp_bind
proof (rule wp_mono [OF adds.wp_effect [OF assms(1)]])
  fix r t assume "adds P w t"
  then show "wp (f r) (\<lambda>_. adds P w) t" by (intro wp_mono [OF assms(2)]) (rule adds.R_trans)
qed

lemma refresh_ops [intro!]:
  "state_io_rel (adds P) (startRefreshWatchdog E s)" "state_io_rel (adds P) (refreshDelay E s)"
  "state_io_rel (adds P) (refreshRetryDelay E s)" "state_io_rel (adds P) (refreshDeadlinePassed E s)"
  "state_io_rel (adds P) (failRefresh s err)" "state_io_rel (adds P) (newLock E s)"
  "state_io_rel framed (startRefreshWatchdog E s)" "state_io_rel framed (refreshDelay E s)"
  "state_io_rel framed (refreshRetryDelay E s)" "state_io_rel framed (refreshDeadlinePassed E s)"
  "state_io_rel framed (failRefresh s err)" "state_io_rel framed (newLock E s)"
  unfolding startRefreshWatchdog_def refreshDelay_def refreshRetryDelay_def refreshDeadlinePassed_def
    failRefresh_def newLock_def Let_def
  by (auto intro!: adds.rules adds.modify_rule framed.rules framed.modify_rule simp: adds_def framed_def)

definition calm :: "'r session \<Rightarrow> 'r session \<Rightarrow> bool" where
  "calm w t = (framed w t \<and> w_cmds t = w_cmds w)"

lemma calm_rule:
  assumes "state_io_rel framed m" "state_io_rel (adds (\<lambda>c. False)) m" "calm w v"
    and "\<And>r t. calm w t \<Longrightarrow> Q r t"
  shows "wp m Q v"
proof (rule wp_mono [where Q = "\<lambda>_ t. framed v t \<and> adds (\<lambda>c. False) v t"])
  show "wp m (\<lambda>_ t. framed v t \<and> adds (\<lambda>c. False) v t) v"
    unfolding wp_conj by (intro conjI framed.wp_effect adds.wp_effect assms(1,2))
  show "Q r t" if "framed v t \<and> adds (\<lambda>c. False) v t" for r t
    using assms(3,4) that framed.R_trans unfolding calm_def adds_False by metis
qed

lemma calm_rules:
  "calm w v \<Longrightarrow> (\<And>r t. calm w t \<Longrightarrow> P r t) \<Longrightarrow> wp (startRefreshWatchdog E s) P v"
  "calm w v \<Longrightarrow> (\<And>r t. calm w t \<Longrightarrow> Q r t) \<Longrightarrow> wp (stopWatchdog E) Q v"
  "calm w v \<Longrightarrow> (\<And>r t. calm w t \<Longrightarrow> Q r t) \<Longrightarrow> wp (refreshDeadlinePassed E s) Q v"
  "calm w v \<Longrightarrow> (\<And>r t. calm w t \<Longrightarrow> R r t) \<Longrightarrow> wp (newLock E s) R v"
  "calm w v \<Longrightarrow> (\<And>r t. calm w t \<Longrightarrow> U r t) \<Longrightarrow> wp (failRefresh s err) U v"
  by (rule calm_rule; auto)+

lemma startRefreshWatchdog_armed:
  assumes "s_lockExpiry w = Some e" "\<not> s_releaseRunner w" "cf_hasCancel s"
  shows "wp (startRefreshWatchdog E s) (\<lambda>_ t. armedAt (e - refreshSafetyWindow s) t \<and> w_cmds t = w_cmds w) w"
  using assms framed_session
  by (simp add: startRefreshWatchdog_def timeNow_def tick_def armWatchdog_def wp_simps armedAt_def)

lemma refreshRound_in_time:
  assumes "s_lockExpiry w = Some e" and "\<not> s_releaseRunner w" and "cf_hasCancel s"
  shows "wp (refreshRound E s (State_Monad.return ()))
    (\<lambda>_. adds (\<lambda>c. c_time c < e - refreshSafetyWindow s) w) w"
proof -
  let ?A = "\<lambda>w. adds (\<lambda>c. c_time c < e - refreshSafetyWindow s) w"
  have attempt: "wp (startRefreshWatchdog E s) (\<lambda>_. wp (replaceOwnedRemote E s prev cand)
      (\<lambda>x. wp (stopWatchdog E) (\<lambda>b. wp (g x b) (\<lambda>_. ?A w)))) v"
    if v: "calm w v" and g: "\<And>x b. state_io_rel (adds (\<lambda>c. c_time c < e - refreshSafetyWindow s)) (g x b)"
    for v prev cand and g :: "goerr option \<Rightarrow> bool \<Rightarrow> ('a, duration + goerr) prog"
  proof (rule wp_mono [OF startRefreshWatchdog_armed])
    show "s_lockExpiry v = Some e" "\<not> s_releaseRunner v" "cf_hasCancel s"
      using v assms framed_session [of w v] by (simp_all add: calm_def)
    fix u and t :: "'a session" assume "armedAt (e - refreshSafetyWindow s) t \<and> w_cmds t = w_cmds v"
    then have t: "armedAt (e - refreshSafetyWindow s) t" "w_cmds t = w_cmds w" using v by (simp_all add: calm_def)
    show "wp (replaceOwnedRemote E s prev cand)
        (\<lambda>x. wp (stopWatchdog E) (\<lambda>b. wp (g x b) (\<lambda>_. ?A w))) t"
    proof (rule wp_mono [OF replaceOwnedRemote_guarded [OF t(1)]])
      fix x u assume "?A t u"
      then have "?A w u" using t(2) by (simp add: adds_def)
      moreover have "state_io_rel (adds (\<lambda>c. c_time c < e - refreshSafetyWindow s))
          (do { b \<leftarrow> stopWatchdog E; g x b })"
        using g by (auto intro!: adds.rules)
      ultimately show "wp (stopWatchdog E) (\<lambda>b. wp (g x b) (\<lambda>_. ?A w)) u"
        unfolding wp_bind [symmetric] by (intro wp_mono [OF adds.wp_effect]) (auto intro: adds.R_trans)
    qed
  qed
  have calm: "calm w w" by (simp add: calm_def framed_def)
  have calm_adds: "?A w t" if "calm w t" for t using that by (simp add: calm_def adds_def)
  show ?thesis
    unfolding refreshRound_def wp_bind [of "startRefreshWatchdog E s"]
    by (rule calm_rules(1) [OF calm])
      (auto simp: wp_simps intro!: calm_rules(2-5) calm_adds attempt adds.rules split: option.splits)
qed

text \<open>The safety window, and the bounds of the delays.\<close>

lemma refreshSafetyWindow_bounds:
  "1 \<le> refreshSafetyWindow s" "refreshSafetyWindow s \<le> second"
  "2 \<le> cf_timeout s \<Longrightarrow> cf_timeout s - max (cf_timeout s sdiv 2) 1 \<ge> refreshSafetyWindow s"
  "0 < cf_timeout s \<Longrightarrow> refreshSafetyWindow s \<le> cf_timeout s"
proof -
  show "1 \<le> refreshSafetyWindow s" "refreshSafetyWindow s \<le> second"
    by (simp_all add: refreshSafetyWindow_def second_def)
  have sdiv: "t sdiv n = t div n" if "0 \<le> t" "0 < n" for t n :: int
    using that by (simp add: signed_divide_int_def sgn_if)
  show "cf_timeout s - max (cf_timeout s sdiv 2) 1 \<ge> refreshSafetyWindow s" if "2 \<le> cf_timeout s"
    using that by (simp add: refreshSafetyWindow_def sdiv, (linarith)?)
  show "refreshSafetyWindow s \<le> cf_timeout s" if "0 < cf_timeout s"
    using that by (simp add: refreshSafetyWindow_def sdiv, (linarith)?)
qed

text \<open>
  The result of a round: either the next round is due, and no later than the safety window
  before the expiry, or the runner has been cancelled.
\<close>

definition nextRefresh :: "syncConfig \<Rightarrow> duration + goerr \<Rightarrow> 'r session \<Rightarrow> bool" where
  "nextRefresh s r t = (case r of
      Inl d \<Rightarrow> 0 \<le> d \<and> (case s_lockExpiry t of None \<Rightarrow> d = 0
        | Some e \<Rightarrow> w_clock t + d \<le> max (w_clock t) (e - refreshSafetyWindow s))
    | Inr err \<Rightarrow> w_cancelled t \<or> \<not> cf_hasCancel s)"

lemma failRefresh_next: "wp (failRefresh s err) (nextRefresh s) w"
  by (simp add: failRefresh_def wp_simps nextRefresh_def)

lemma refreshDelay_next:
  assumes "2 \<le> cf_timeout s"
  shows "wp (do { d \<leftarrow> refreshDelay E s; State_Monad.return (Inl d) }) (nextRefresh s) w"
  using refreshSafetyWindow_bounds(3) [OF assms] framed_session
  by (auto simp: refreshDelay_def timeNow_def tick_def wp_simps nextRefresh_def split: option.splits)

lemma refreshRetry_next:
  assumes "0 < cf_pollInterval s"
  shows "wp (do { d \<leftarrow> refreshRetryDelay E s;
      (case d of Some delay \<Rightarrow> State_Monad.return (Inl delay) | None \<Rightarrow> failRefresh s err) }) (nextRefresh s) w"
  using assms
  by (auto simp: refreshRetryDelay_def timeNow_def tick_def wp_simps nextRefresh_def failRefresh_def Let_def
      split: option.splits)

lemma wp_last: "(\<And>r t. wp (f r) Q t) \<Longrightarrow> wp (State_Monad.bind m f) Q w"
  by (simp add: wp_bind) (simp add: wp_def split: prod.splits)

lemma refreshRound_next:
  assumes "2 \<le> cf_timeout s" and "0 < cf_pollInterval s"
  shows "wp (refreshRound E s waiting) (nextRefresh s) w"
  unfolding refreshRound_def
  by (auto intro!: failRefresh_next refreshDelay_next [OF assms(1)] refreshRetry_next [OF assms(2)] wp_last
      split: option.split)

end
