(* ===== verification/Acquire.thy ===== *)
theory Acquire
  imports Lifecycle
begin

text \<open>
  \<open>Acquire\<close> of src/syncstate.go: taking the remote lock. It reads both states, validates
  them, waits for a foreign lock to expire or to go away, writes a lock of its own under
  the entity tag it has read, and verifies what it wrote before the lock can expire. Its
  loops run on fuel (\<open>iter\<close>); the local variables of the waiting loop are \<open>waiting\<close>.
\<close>

section \<open>Validation\<close>

definition needsSyncFromRemote :: "syncFileData \<Rightarrow> bool \<Rightarrow> syncFileData \<Rightarrow> bool" where
  "needsSyncFromRemote local localExists remote =
     (if Generation remote = 0 then False
      else \<not> localExists \<or> Generation local < Generation remote \<or>
           (Generation local = Generation remote \<and> SyncID local \<noteq> SyncID remote))"

definition validateAcquisition ::
    "'r env \<Rightarrow> syncConfig \<Rightarrow> syncFileData \<Rightarrow> bool \<Rightarrow> remoteSyncFile \<Rightarrow> ('r, goerr option) prog" where
  "validateAcquisition E s local localExists remote =
     (if localExists \<and> rf_exists remote \<and> RepositoryID local \<noteq> RepositoryID (rf_data remote)
      then State_Monad.return (Some (Errorf ''local repository ID %q does not match remote repository ID %q''
             [Str (RepositoryID local), Str (RepositoryID (rf_data remote))]))
      else if cf_failOnIncomplete s \<and> rf_exists remote \<and> Syncing (rf_data remote) \<and>
              needsSyncFromRemote local localExists (rf_data remote)
      then State_Monad.return (Some (errorString ''remote state indicates an incomplete sync requiring remote-to-local reconciliation''))
      else do {
        e \<leftarrow> (if \<not> rf_exists remote \<and> \<not> cf_forceDelete s then do {
                r \<leftarrow> remotePayloadEmpty E s;
                State_Monad.return (case r of
                    Inl err \<Rightarrow> Some (Wrapped ''inspect untracked remote destination: %w'' [] err)
                  | Inr none \<Rightarrow> if \<not> none
                      then Some (errorString ''remote destination has no state file and is not empty; use --force-delete-untracked-remote to delete its contents and initialize it'')
                      else None) }
              else State_Monad.return None);
        State_Monad.return (case e of Some err \<Rightarrow> Some err
          | None \<Rightarrow>
              (let localIncompleteAdvance = localExists \<and> rf_exists remote \<and> Syncing local \<and>
                     Generation local = Generation (rf_data remote) + 1
               in if rf_exists remote \<and> Generation (rf_data remote) > 0 \<and> localExists \<and>
                     Generation local > Generation (rf_data remote) \<and> \<not> localIncompleteAdvance
                  then Some (Errorf ''local generation %d is ahead of remote generation %d''
                         [Num (uint (Generation local)), Num (uint (Generation (rf_data remote)))])
                  else None)) })"

section \<open>Waiting for a foreign lock\<close>

definition defaultWait :: "syncConfig \<Rightarrow> bool" where
  "defaultWait s = (\<not> wait_explicit (cf_wait s) \<and> \<not> wait_infinite (cf_wait s) \<and> wait_duration (cf_wait s) = 0)"

definition canWait :: "syncConfig \<Rightarrow> bool" where
  "canWait s = (defaultWait s \<or> wait_infinite (cf_wait s) \<or> wait_duration (cf_wait s) > 0)"

definition waitDeadline :: "'r env \<Rightarrow> syncConfig \<Rightarrow> ('r, int option) prog" where
  "waitDeadline E s =
     (if \<not> wait_infinite (cf_wait s) \<and> wait_duration (cf_wait s) > 0
      then do { now \<leftarrow> timeNow E; State_Monad.return (Some (now + wait_duration (cf_wait s))) }
      else State_Monad.return None)"

text \<open>\<open>remote\<close>, \<open>observedLock\<close> and \<open>observedAt\<close>; the last is not read before it is set.\<close>

record waiting =
  wt_remote :: remoteSyncFile
  wt_observed :: string
  wt_at :: int

definition refreshedWhileWaiting :: goerr where
  "refreshedWhileWaiting = errorString ''remote lock was refreshed while waiting''"

definition observeLock :: "'r env \<Rightarrow> syncConfig \<Rightarrow> waiting \<Rightarrow> ('r, goerr + waiting) prog" where
  "observeLock E s v =
     (if wt_observed v \<noteq> lockIdentity (wt_remote v) then
        (if defaultWait s \<and> wt_observed v \<noteq> [] then State_Monad.return (Inl refreshedWhileWaiting)
         else do {
           now \<leftarrow> timeNow E;
           State_Monad.return (Inr (v\<lparr>wt_observed := lockIdentity (wt_remote v), wt_at := now\<rparr>)) })
      else State_Monad.return (Inr v))"

definition earliest :: "int \<Rightarrow> int option \<Rightarrow> int" where
  "earliest t deadline = (case deadline of None \<Rightarrow> t | Some d \<Rightarrow> min t d)"

text \<open>The rest of a round, once the lock that is seen has been live at \<open>expires\<close> or later.\<close>

definition pauseAndRead :: "'r env \<Rightarrow> syncConfig \<Rightarrow> int option \<Rightarrow> int \<Rightarrow> waiting \<Rightarrow> ('r, goerr + waiting) prog" where
  "pauseAndRead E s deadline expires v = do {
     start \<leftarrow> timeNow E;
     let wakeAt = earliest (min (start + cf_pollInterval s) expires) deadline;
     now \<leftarrow> timeNow E;
     sig \<leftarrow> waitTimer E (max (wakeAt - now) 0);
     (case sig of
        Some g \<Rightarrow> State_Monad.return (Inl (Interrupted g ''waiting for remote lock''))
      | None \<Rightarrow> do {
          r \<leftarrow> readRemote E s;
          State_Monad.return (case r of Inl err \<Rightarrow> Inl err | Inr remote \<Rightarrow> Inr (v\<lparr>wt_remote := remote\<rparr>)) }) }"

text \<open>
  One round: go on (\<open>Inl\<close>), or leave the loop with an error or with the lock free to take.
  \<open>decideLock\<close> is the round once the lock that is seen has been noted.
\<close>

definition decideLock ::
    "'r env \<Rightarrow> syncConfig \<Rightarrow> int option \<Rightarrow> waiting \<Rightarrow> ('r, (waiting + (goerr + waiting)) option) prog" where
  "decideLock E s deadline v = do {
     let expires = wt_at v + lockTTL (wt_remote v) (cf_timeout s);
     now \<leftarrow> timeNow E;
     if \<not> now < expires then State_Monad.return (Some (Inr (Inr v)))
     else if \<not> canWait s
     then State_Monad.return (Some (Inr (Inl (Errorf ''remote lock is active with a stored TTL of %s''
            [Dur (lockTTL (wt_remote v) (cf_timeout s))]))))
     else do {
       late \<leftarrow> (case deadline of None \<Rightarrow> State_Monad.return False
                | Some d \<Rightarrow> do { t \<leftarrow> timeNow E; State_Monad.return (\<not> t < d) });
       if late
       then State_Monad.return (Some (Inr (Inl (Errorf ''timed out after %s waiting for remote lock''
              [Dur (wait_duration (cf_wait s))]))))
       else do {
         r \<leftarrow> pauseAndRead E s deadline expires v;
         State_Monad.return (Some (case r of Inl err \<Rightarrow> Inr (Inl err) | Inr v' \<Rightarrow> Inl v')) } } }"

definition pollLock ::
    "'r env \<Rightarrow> syncConfig \<Rightarrow> int option \<Rightarrow> waiting \<Rightarrow> ('r, (waiting + (goerr + waiting)) option) prog" where
  "pollLock E s deadline v =
     (if Lock (rf_data (wt_remote v)) = None then State_Monad.return (Some (Inr (Inr v)))
      else do {
        observed \<leftarrow> observeLock E s v;
        (case observed of
           Inl err \<Rightarrow> State_Monad.return (Some (Inr (Inl err)))
         | Inr v' \<Rightarrow> decideLock E s deadline v') })"

definition waitForLock ::
    "nat \<Rightarrow> 'r env \<Rightarrow> syncConfig \<Rightarrow> int option \<Rightarrow> waiting \<Rightarrow> ('r, (goerr + waiting) option) prog" where
  "waitForLock fuel E s deadline v = iter fuel (pollLock E s deadline) v"

section \<open>Verification\<close>

definition verifyPoll ::
    "'r env \<Rightarrow> syncConfig \<Rightarrow> int \<Rightarrow> unit \<Rightarrow> ('r, (unit + (goerr + remoteSyncFile)) option) prog" where
  "verifyPoll E s deadline u = do {
     r \<leftarrow> readRemote E s;
     (case r of
        Inr remote \<Rightarrow> State_Monad.return (Some (Inr (Inr remote)))
      | Inl err \<Rightarrow> do {
          now \<leftarrow> timeNow E;
          if deadline - now \<le> 0
          then State_Monad.return (Some (Inr (Inl (Wrapped ''verify acquired lock before expiry: %w'' [] err))))
          else do {
            sig \<leftarrow> waitTimer E (min (cf_pollInterval s) (deadline - now));
            State_Monad.return (Some (case sig of
                Some g \<Rightarrow> Inr (Inl (Interrupted g ''verifying the acquired lock''))
              | None \<Rightarrow> Inl ())) } }) }"

definition verifyAcquiredLock ::
    "nat \<Rightarrow> 'r env \<Rightarrow> syncConfig \<Rightarrow> int \<Rightarrow> ('r, (goerr + remoteSyncFile) option) prog" where
  "verifyAcquiredLock fuel E s deadline = iter fuel (verifyPoll E s deadline) ()"

section \<open>Taking the lock\<close>

definition acquireCandidate :: "syncConfig \<Rightarrow> syncFileData \<Rightarrow> bool \<Rightarrow> remoteSyncFile \<Rightarrow> syncFileLock \<Rightarrow> syncFileData" where
  "acquireCandidate s local localExists remote lock =
     (if rf_exists remote then rf_data remote
      else (rf_data remote)\<lparr>RepositoryID := (if localExists then RepositoryID local else cf_repositoryID s)\<rparr>)
     \<lparr>Lock := Some lock\<rparr>"

text \<open>
  What to make of a verified state that is not the candidate: try again on that state
  (\<open>Inl\<close>) or give up.
\<close>

definition lostRace ::
    "syncConfig \<Rightarrow> waiting \<Rightarrow> syncFileData \<Rightarrow> goerr option \<Rightarrow> remoteSyncFile \<Rightarrow> remoteSyncFile + goerr" where
  "lostRace s v candidate writeErr current =
     (let refreshed = defaultWait s \<and> wt_observed v \<noteq> [] \<and> lockIdentity current \<noteq> wt_observed v in
      case writeErr of
        Some err \<Rightarrow>
          if cf_consistentWrites s \<and> canWait s \<and> lockIdentity current \<noteq> lockIdentity (wt_remote v)
          then (if refreshed then Inr refreshedWhileWaiting else Inl current)
          else Inr err
      | None \<Rightarrow>
          if \<not> ownedBy current (cf_owner s) \<or> RepositoryID (rf_data current) \<noteq> RepositoryID candidate \<or>
             Generation (rf_data current) \<noteq> Generation candidate \<or> SyncID (rf_data current) \<noteq> SyncID candidate \<or>
             Syncing (rf_data current) \<noteq> Syncing candidate
          then (if canWait s \<and> Lock (rf_data current) \<noteq> None
                then (if refreshed then Inr refreshedWhileWaiting else Inl current)
                else Inr (errorString ''remote state file changed while acquiring lock''))
          else Inr LockOwnershipLost)"

text \<open>The verified state, once the watchdog has been stopped: a new round (\<open>Inl\<close>) or the result of \<open>Acquire\<close>.\<close>

definition settleLock ::
    "'r env \<Rightarrow> syncConfig \<Rightarrow> waiting \<Rightarrow> syncFileData \<Rightarrow> goerr option \<Rightarrow> int \<Rightarrow> goerr + remoteSyncFile
     \<Rightarrow> ('r, (waiting + goerr option) option) prog" where
  "settleLock E s v candidate writeErr expires current = do {
     fired \<leftarrow> stopWatchdog E;
     if fired then State_Monad.return (Some (Inr (Some (errorString ''could not verify acquired lock before expiry''))))
     else (case current of
        Inl err \<Rightarrow> State_Monad.return (Some (Inr (Some (case writeErr of Some e \<Rightarrow> e | None \<Rightarrow> err))))
      | Inr remote \<Rightarrow>
          if sameSyncFileData (rf_data remote) candidate then do {
            setOwnedRemote remote (Some expires);
            State_Monad.return (Some (Inr None)) }
          else State_Monad.return (Some (case lostRace s v candidate writeErr remote of
              Inl again \<Rightarrow> Inl (v\<lparr>wt_remote := again\<rparr>)
            | Inr err \<Rightarrow> Inr (Some err)))) }"

text \<open>The outer loop after the wait.\<close>

definition takeLock ::
    "nat \<Rightarrow> 'r env \<Rightarrow> syncConfig \<Rightarrow> syncFileData \<Rightarrow> bool \<Rightarrow> waiting \<Rightarrow> ('r, (waiting + goerr option) option) prog" where
  "takeLock fuel E s local localExists v = do {
     lock \<leftarrow> newLock E s;
     let candidate = acquireCandidate s local localExists (wt_remote v) lock;
     writtenAt \<leftarrow> timeNow E;
     let verifyDeadline = writtenAt + (cf_timeout s - refreshSafetyWindow s);
     armWatchdog verifyDeadline (cf_hasCancel s);
     writeErr \<leftarrow> writeRemote E s candidate (rf_etag (wt_remote v));
     c \<leftarrow> verifyAcquiredLock fuel E s verifyDeadline;
     (case c of
        None \<Rightarrow> State_Monad.return None
      | Some current \<Rightarrow> settleLock E s v candidate writeErr (writtenAt + cf_timeout s) current) }"

definition acquireRound ::
    "nat \<Rightarrow> 'r env \<Rightarrow> syncConfig \<Rightarrow> syncFileData \<Rightarrow> bool \<Rightarrow> int option \<Rightarrow> waiting
     \<Rightarrow> ('r, (waiting + goerr option) option) prog" where
  "acquireRound fuel E s local localExists deadline v0 = do {
     w \<leftarrow> waitForLock fuel E s deadline v0;
     (case w of None \<Rightarrow> State_Monad.return None | Some x \<Rightarrow>
     (case x of Inl err \<Rightarrow> State_Monad.return (Some (Inr (Some err))) | Inr v \<Rightarrow> do {
     e \<leftarrow> validateAcquisition E s local localExists (wt_remote v);
     (case e of
        Some err \<Rightarrow> State_Monad.return (Some (Inr (Some err)))
      | None \<Rightarrow> takeLock fuel E s local localExists v) })) }"

definition acquireLoop ::
    "nat \<Rightarrow> 'r env \<Rightarrow> syncConfig \<Rightarrow> syncFileData \<Rightarrow> bool \<Rightarrow> int option \<Rightarrow> waiting \<Rightarrow> ('r, goerr option option) prog" where
  "acquireLoop fuel E s local localExists deadline v =
     iter fuel (acquireRound fuel E s local localExists deadline) v"

definition acquire :: "nat \<Rightarrow> 'r env \<Rightarrow> syncConfig \<Rightarrow> ('r, goerr option option) prog" where
  "acquire fuel E s = do {
     l \<leftarrow> readLocalSyncFile E (p_local (cf_paths s));
     (case l of Inl err \<Rightarrow> State_Monad.return (Some (Some err)) | Inr (local, localExists) \<Rightarrow> do {
     r \<leftarrow> readRemote E s;
     (case r of Inl err \<Rightarrow> State_Monad.return (Some (Some err)) | Inr remote \<Rightarrow> do {
     e \<leftarrow> validateAcquisition E s local localExists remote;
     (case e of Some err \<Rightarrow> State_Monad.return (Some (Some err)) | None \<Rightarrow>
     if cf_persistent s \<and> ownedBy remote (cf_owner s) then do {
       lock \<leftarrow> newLock E s;
       e \<leftarrow> replaceOwnedRemote E s remote ((rf_data remote)\<lparr>Lock := Some lock\<rparr>);
       State_Monad.return (Some (case e of
           Some err \<Rightarrow> Some (Wrapped ''refresh persistent lock: %w'' [] err) | None \<Rightarrow> None)) }
     else do {
       deadline \<leftarrow> waitDeadline E s;
       acquireLoop fuel E s local localExists deadline \<lparr>wt_remote = remote, wt_observed = [], wt_at = 0\<rparr> }) }) }) }"

end
