(* ===== verification/AcquireSafety.thy ===== *)
theory AcquireSafety
  imports Acquire
begin

text \<open>
  What \<open>Acquire\<close> guarantees: it only reads until the state is accepted; a foreign lock is
  overwritten only after every read of a whole TTL showed it unchanged; each write is
  conditional on the entity tag of the state it was decided on; the waiting and verifying
  loops end within the fuel given by their time bounds; success means that the lock is held
  and valid for at least the safety window.
\<close>

section \<open>Reads only\<close>

lemma validateAcquisition_effects [intro!]:
  "state_io_rel framed (validateAcquisition E s l x r)" "state_io_rel later (validateAcquisition E s l x r)"
  "state_io_rel (adds isRead) (validateAcquisition E s l x r)"
  unfolding validateAcquisition_def Let_def
  by (auto intro!: framed.rules later.rules adds.rules)

lemma wait_effects [intro!]:
  "state_io_rel framed (pollLock E s d v)" "state_io_rel later (pollLock E s d v)"
  "state_io_rel (adds isRead) (pollLock E s d v)"
  "state_io_rel framed (verifyPoll E s x u)" "state_io_rel later (verifyPoll E s x u)"
  "state_io_rel (adds isRead) (verifyPoll E s x u)"
  unfolding pollLock_def decideLock_def observeLock_def pauseAndRead_def verifyPoll_def Let_def
  by (auto intro!: framed.rules later.rules adds.rules)

lemma loop_effects [intro!]:
  "state_io_rel framed (waitForLock n E s d v)" "state_io_rel later (waitForLock n E s d v)"
  "state_io_rel (adds isRead) (waitForLock n E s d v)"
  "state_io_rel framed (verifyAcquiredLock n E s x)" "state_io_rel later (verifyAcquiredLock n E s x)"
  "state_io_rel (adds isRead) (verifyAcquiredLock n E s x)"
  unfolding waitForLock_def verifyAcquiredLock_def
  by (auto intro!: framed.iter_rule later.iter_rule adds.iter_rule)

text \<open>A rejected acquisition leaves the reason, and an accepted one meets every condition.\<close>

definition rejected :: "syncConfig \<Rightarrow> syncFileData \<Rightarrow> bool \<Rightarrow> remoteSyncFile \<Rightarrow> bool" where
  "rejected s local localExists remote = (rf_exists remote \<and>
     ((localExists \<and> RepositoryID local \<noteq> RepositoryID (rf_data remote)) \<or>
      (cf_failOnIncomplete s \<and> Syncing (rf_data remote) \<and> needsSyncFromRemote local localExists (rf_data remote)) \<or>
      (localExists \<and> 0 < unat (Generation (rf_data remote)) \<and>
       unat (Generation (rf_data remote)) < unat (Generation local) \<and>
       \<not> (Syncing local \<and> unat (Generation local) = Suc (unat (Generation (rf_data remote)))))))"

lemma validateAcquisition_rejects:
  "wp (validateAcquisition E s local localExists remote) (\<lambda>r _. r = None \<longrightarrow> \<not> rejected s local localExists remote) w"
proof -
  have g: "a < b \<Longrightarrow> b = a + 1 \<Longrightarrow> unat b = Suc (unat a)" for a b :: u64
    using unat_next [of a] by (cases "a = - 1") auto
  show ?thesis
  proof (cases "rf_exists remote")
    case True
    then show ?thesis
      using g [of "Generation (rf_data remote)" "Generation local"]
      by (auto simp: validateAcquisition_def rejected_def wp_simps Let_def unat_gt_0 word_less_nat_alt [symmetric]
          word_greater_zero_iff)
  qed (simp add: rejected_def wp_def split: prod.splits)
qed

section \<open>A foreign lock is taken only after it was watched for its whole TTL\<close>

lemma lockIdentity_empty [simp]: "lockIdentity r = [] \<longleftrightarrow> Lock (rf_data r) = None"
  by (simp add: lockIdentity_def nul_def split: option.splits)

definition seen :: "syncConfig \<Rightarrow> cmd list \<Rightarrow> int \<Rightarrow> remoteSyncFile \<Rightarrow> bool" where
  "seen s cmds now remote =
     (if rf_exists remote then \<exists>c rest. cmds = c # rest \<and> readBy s c remote \<and> c_time c \<le> now
      else remote = noRemote)"

text \<open>
  Two ways to say that a lock has not been refreshed since a time, from the commands that have
  run, newest first. Within one wait the newest commands are reads that all showed the lock,
  the first of them before that time. Across the rounds of an acquisition, a read before that
  time showed the lock with the same owner, timestamp and TTL.
\<close>

definition watched :: "syncConfig \<Rightarrow> cmd list \<Rightarrow> string \<Rightarrow> int \<Rightarrow> bool" where
  "watched s cmds ident since = (\<exists>cs rest. cmds = cs @ rest \<and> cs \<noteq> [] \<and>
     (\<forall>c \<in> set cs. \<exists>r. readBy s c r \<and> lockIdentity r = ident) \<and> c_time (last cs) \<le> since)"

definition unrefreshed :: "syncConfig \<Rightarrow> cmd list \<Rightarrow> string \<Rightarrow> int \<Rightarrow> bool" where
  "unrefreshed s cmds ident since = (\<exists>c \<in> set cmds. \<exists>r. readBy s c r \<and> lockIdentity r = ident \<and> c_time c \<le> since)"

text \<open>What the waiting loop keeps, and what it ends with, for either reading \<open>held\<close> of it.\<close>

type_synonym holding = "syncConfig \<Rightarrow> cmd list \<Rightarrow> string \<Rightarrow> int \<Rightarrow> bool"

definition waitInvOf :: "holding \<Rightarrow> bool \<Rightarrow> syncConfig \<Rightarrow> waiting \<Rightarrow> 'r session \<Rightarrow> bool" where
  "waitInvOf held lasting s v w = (seen s (w_cmds w) (w_clock w) (wt_remote v) \<and>
     (wt_observed v \<noteq> [] \<and> (lasting \<or> wt_observed v = lockIdentity (wt_remote v)) \<longrightarrow>
      held s (w_cmds w) (wt_observed v) (wt_at v)))"

definition freeOf :: "holding \<Rightarrow> syncConfig \<Rightarrow> cmd list \<Rightarrow> int \<Rightarrow> remoteSyncFile \<Rightarrow> bool" where
  "freeOf held s cmds now remote = (seen s cmds now remote \<and>
     (Lock (rf_data remote) = None \<or> held s cmds (lockIdentity remote) (now - lockTTL remote (cf_timeout s))))"

definition waitInv :: "syncConfig \<Rightarrow> waiting \<Rightarrow> 'r session \<Rightarrow> bool" where
  "waitInv s v w = waitInvOf watched False s v w"

text \<open>
  The state is the one last read, and it carries no lock, or a lock that every read has
  shown unchanged for at least its TTL.
\<close>

definition freeToTake :: "syncConfig \<Rightarrow> cmd list \<Rightarrow> int \<Rightarrow> remoteSyncFile \<Rightarrow> bool" where
  "freeToTake s cmds now remote = freeOf watched s cmds now remote"

lemma seen_locked: "seen s cmds now r \<Longrightarrow> Lock (rf_data r) \<noteq> None \<Longrightarrow>
    \<exists>c rest. cmds = c # rest \<and> readBy s c r \<and> c_time c \<le> now"
  by (auto simp: seen_def noRemote_def zeroData_def split: if_splits)

lemma seen_mono: "seen s cmds a r \<Longrightarrow> a \<le> b \<Longrightarrow> seen s cmds b r"
  by (auto simp: seen_def split: if_splits)

lemma seen_done: "readDone s w (Inr remote) t \<Longrightarrow> seen s (w_cmds t) (w_clock t) remote"
  by (auto simp: readDone_def seen_def split: if_splits)

text \<open>
  The laws of either reading: it holds from the first read on, it survives a read that shows
  the same lock and the passing of time, and, if it is \<open>lasting\<close>, every other command.
\<close>

locale observation =
  fixes held :: holding and lasting :: bool
  assumes first: "readBy s c r \<Longrightarrow> c_time c \<le> since \<Longrightarrow> held s (c # cmds) (lockIdentity r) since"
    and again: "held s cmds ident since \<Longrightarrow> readBy s c r \<Longrightarrow> lockIdentity r = ident \<Longrightarrow> held s (c # cmds) ident since"
    and lasts: "lasting \<Longrightarrow> held s cmds ident since \<Longrightarrow> held s (c # cmds) ident since"
    and mono: "held s cmds ident a \<Longrightarrow> a \<le> b \<Longrightarrow> held s cmds ident b"
begin

lemma lasts_append: "lasting \<Longrightarrow> held s cmds ident since \<Longrightarrow> held s (xs @ cmds) ident since"
  by (induction xs) (auto intro: lasts)

lemma free_mono: "freeOf held s cmds a r \<Longrightarrow> a \<le> b \<Longrightarrow> freeOf held s cmds b r"
  using mono [of s cmds "lockIdentity r" "a - lockTTL r (cf_timeout s)" "b - lockTTL r (cf_timeout s)"] seen_mono
  by (auto simp: freeOf_def)

lemma observeLock_wp:
  assumes "waitInvOf held lasting s v w" and "Lock (rf_data (wt_remote v)) \<noteq> None"
  shows "wp (observeLock E s v) (\<lambda>r t. quiet w t \<and> (\<forall>u. r = Inr u \<longrightarrow> wt_remote u = wt_remote v \<and>
    wt_observed u = lockIdentity (wt_remote v) \<and> held s (w_cmds t) (wt_observed u) (wt_at u))) w"
proof (cases "wt_observed v = lockIdentity (wt_remote v)")
  case True
  then show ?thesis
    using assms by (simp add: observeLock_def wp_simps waitInvOf_def quiet_def framed_def later_def)
next
  case False
  obtain c rest where c: "w_cmds w = c # rest" "readBy s c (wt_remote v)" "c_time c \<le> w_clock w"
    using assms seen_locked [of s] unfolding waitInvOf_def by blast
  then have "held s (w_cmds w) (lockIdentity (wt_remote v)) now" if "w_clock w \<le> now" for now
    using first [of s c "wt_remote v" now rest] that by simp
  then show ?thesis
    using False
    by (simp add: observeLock_def wp_simps timeNow_def tick_def quiet_def framed_def later_def)
qed

lemma read_keeps:
  assumes "held s (w_cmds w) (wt_observed v) (wt_at v)" "readDone s w (Inr remote) t"
  shows "waitInvOf held lasting s (v\<lparr>wt_remote := remote\<rparr>) t"
proof -
  obtain xs where xs: "w_cmds t = xs @ w_cmds w" using assms(2) by (auto simp: readDone_def adds_def)
  have same: "held s (w_cmds t) (wt_observed v) (wt_at v)" if "wt_observed v = lockIdentity remote" "wt_observed v \<noteq> []"
  proof -
    have "rf_exists remote"
      using that assms(2) by (auto simp: readDone_def noRemote_def zeroData_def lockIdentity_def split: if_splits)
    then obtain c where "w_cmds t = c # w_cmds w" "readBy s c remote"
      using assms(2) by (auto simp: readDone_def)
    then show ?thesis using again [OF assms(1)] that(1) by simp
  qed
  then show ?thesis
    using seen_done [OF assms(2)] lasts_append [OF _ assms(1)] by (auto simp: waitInvOf_def xs)
qed

lemma pauseAndRead_wp:
  assumes "held s (w_cmds w) (wt_observed v) (wt_at v)"
  shows "wp (pauseAndRead E s d x v) (\<lambda>r t. \<forall>u. r = Inr u \<longrightarrow> waitInvOf held lasting s u t) w"
proof -
  have read: "wp (readRemote E s) (\<lambda>r. wp (State_Monad.return (case r of Inl err \<Rightarrow> Inl err
      | Inr remote \<Rightarrow> Inr (v\<lparr>wt_remote := remote\<rparr>))) (\<lambda>r t. \<forall>u. r = Inr u \<longrightarrow> waitInvOf held lasting s u t)) q"
    if "w_cmds q = w_cmds w" for q :: "'a session"
    by (rule wp_mono [OF readRemote_done])
      (use read_keeps [of s q v] assms that in \<open>auto simp: wp_simps split: sum.splits\<close>)
  show ?thesis
    unfolding pauseAndRead_def
    by (auto simp: wp_simps timeNow_def tick_def waitTimer_def Let_def intro!: read [unfolded wp_simps] split: option.split)
qed

fun polled :: "syncConfig \<Rightarrow> (waiting + (goerr + waiting)) option \<Rightarrow> 'r session \<Rightarrow> bool" where
  "polled s None t = True"
| "polled s (Some (Inl u)) t = waitInvOf held lasting s u t"
| "polled s (Some (Inr (Inl err))) t = True"
| "polled s (Some (Inr (Inr u))) t = (freeOf held s (w_cmds t) (w_clock t) (wt_remote u) \<and> waitInvOf held lasting s u t)"

lemma decideLock_safe:
  assumes "seen s (w_cmds w) (w_clock w) (wt_remote v)"
    and "wt_observed v = lockIdentity (wt_remote v)" "held s (w_cmds w) (wt_observed v) (wt_at v)"
  shows "wp (decideLock E s d v) (polled s) w"
proof -
  have pause: "wp (pauseAndRead E s d' x v) (\<lambda>r. polled s (Some (case r of Inl err \<Rightarrow> Inr (Inl err) | Inr v' \<Rightarrow> Inl v'))) q"
    if "w_cmds q = w_cmds w" for x d' and q :: "'a session"
    by (rule wp_mono [OF pauseAndRead_wp [of s q v]]) (use assms that in \<open>auto split: sum.split\<close>)
  have free: "freeOf held s (w_cmds w) till (wt_remote v)"
    if "wt_at v + lockTTL (wt_remote v) (cf_timeout s) \<le> till" "w_clock w \<le> till" for till
    using assms that mono [OF assms(3), of "till - lockTTL (wt_remote v) (cf_timeout s)"] seen_mono [OF assms(1) that(2)]
    by (simp add: freeOf_def)
  show ?thesis
    using assms seen_mono [OF assms(1)]
    by (auto simp: decideLock_def wp_simps timeNow_def tick_def Let_def waitInvOf_def intro!: pause free split: option.split)
qed

lemma pollLock_safe:
  assumes "waitInvOf held lasting s v w"
  shows "wp (pollLock E s d v) (polled s) w"
proof (cases "Lock (rf_data (wt_remote v)) = None")
  case True
  then show ?thesis using assms by (simp add: pollLock_def wp_simps freeOf_def waitInvOf_def)
next
  case lock: False
  have "wp (case r of Inl err \<Rightarrow> State_Monad.return (Some (Inr (Inl err))) | Inr v' \<Rightarrow> decideLock E s d v') (polled s) t"
    if "quiet w t" "\<forall>u. r = Inr u \<longrightarrow> wt_remote u = wt_remote v \<and>
      wt_observed u = lockIdentity (wt_remote v) \<and> held s (w_cmds t) (wt_observed u) (wt_at u)" for r t
    using that assms lock seen_mono [of s "w_cmds w" "w_clock w" "wt_remote v" "w_clock t"]
    by (cases r) (auto simp: wp_simps waitInvOf_def quiet_def later_def intro!: decideLock_safe)
  then show ?thesis
    using lock by (auto simp: pollLock_def wp_bind intro!: wp_mono [OF observeLock_wp [OF assms lock]])
qed

lemma wait_safe:
  assumes "waitInvOf held lasting s v w"
  shows "wp (waitForLock n E s d v) (\<lambda>r t. \<forall>u. r = Some (Inr u) \<longrightarrow>
    freeOf held s (w_cmds t) (w_clock t) (wt_remote u) \<and> waitInvOf held lasting s u t) w"
proof -
  have "wp (pollLock E s d u) (\<lambda>r t. case r of None \<Rightarrow> True | Some (Inl y) \<Rightarrow> waitInvOf held lasting s y t
      | Some (Inr b) \<Rightarrow> \<forall>u. b = Inr u \<longrightarrow> freeOf held s (w_cmds t) (w_clock t) (wt_remote u) \<and> waitInvOf held lasting s u t) t"
    if "waitInvOf held lasting s u t" for u t
    by (rule wp_mono [OF pollLock_safe [OF that]])
      (auto split: option.split sum.split)
  from iter_wp [of "waitInvOf held lasting s" v w, OF assms this]
  show ?thesis unfolding waitForLock_def by (rule wp_mono) auto
qed

end

interpretation watched: observation watched False
proof unfold_locales
  show "watched s (c # cmds) (lockIdentity r) since" if "readBy s c r" "c_time c \<le> since" for s c r since cmds
    unfolding watched_def by (rule exI [of _ "[c]"], rule exI [of _ cmds]) (use that in auto)
  show "watched s (c # cmds) ident since" if held: "watched s cmds ident since" "readBy s c r" "lockIdentity r = ident"
    for s cmds ident since c r
  proof -
    obtain cs rest where cs: "cmds = cs @ rest" "cs \<noteq> []"
      "\<forall>c \<in> set cs. \<exists>r. readBy s c r \<and> lockIdentity r = ident" "c_time (last cs) \<le> since"
      using held(1) unfolding watched_def by auto
    show ?thesis
      unfolding watched_def by (rule exI [of _ "c # cs"], rule exI [of _ rest]) (use cs held in auto)
  qed
  show "watched s cmds ident b" if "watched s cmds ident a" "a \<le> b" for s cmds ident a b
    using that unfolding watched_def by (metis order_trans)
qed simp

interpretation unrefreshed: observation unrefreshed True
  by unfold_locales (auto simp: unrefreshed_def intro: order_trans)

lemma waitForLock_safe:
  assumes "waitInv s v w"
  shows "wp (waitForLock n E s d v) (\<lambda>r t. \<forall>u. r = Some (Inr u) \<longrightarrow> freeToTake s (w_cmds t) (w_clock t) (wt_remote u)) w"
  using assms unfolding waitInv_def
  by (intro wp_mono [OF watched.wait_safe]) (auto simp: freeToTake_def)

section \<open>Taking it\<close>

text \<open>
  What every command of an acquisition is: a read, or the conditional write of a lock of its
  own on a state that was just read, was accepted, and is free or was not refreshed for a TTL.
\<close>

definition takesLock :: "syncConfig \<Rightarrow> syncFileData \<Rightarrow> bool \<Rightarrow> cmd \<Rightarrow> cmd list \<Rightarrow> bool" where
  "takesLock s local localExists d older = (isRead d \<or>
     (\<exists>remote lock. writeBy s d (acquireCandidate s local localExists remote lock) (rf_etag remote) \<and>
        Owner lock = cf_owner s \<and> TTL lock = cf_timeout s \<and>
        (\<exists>inspections cmds. older = inspections @ cmds \<and> (\<forall>c \<in> set inspections. isRead c) \<and>
           freeOf unrefreshed s cmds (c_time d) remote) \<and>
        \<not> rejected s local localExists remote))"

text \<open>While the watchdog of the verification has not fired, it is armed with its deadline.\<close>

definition ticking :: "int \<Rightarrow> 'r session \<Rightarrow> bool" where
  "ticking d w = (w_fired w \<or> (\<exists>b. w_watchdog w = Some (d, b)))"

definition keepsTicking :: "int \<Rightarrow> 'r session \<Rightarrow> 'r session \<Rightarrow> bool" where
  "keepsTicking d w t = (ticking d w \<longrightarrow> ticking d t)"

interpretation ticking: effect "keepsTicking d" for d
  by unfold_locales (auto simp: keepsTicking_def)

lemma ticking_same: "w_fired t = w_fired w \<Longrightarrow> w_watchdog t = w_watchdog w \<Longrightarrow> keepsTicking d w t"
  by (simp add: keepsTicking_def ticking_def)

lemma ticking_ops [intro!]:
  "state_io_rel (keepsTicking d) (tick E)" "state_io_rel (keepsTicking d) (timeNow E)"
  "state_io_rel (keepsTicking d) (osFails E)" "state_io_rel (keepsTicking d) (waitTimer E x)"
  "state_io_rel (keepsTicking d) (createTemp E p q)" "state_io_rel (keepsTicking d) (fileWrite E p c)"
  "state_io_rel (keepsTicking d) (fileOp E)" "state_io_rel (keepsTicking d) (osRemove E p)"
proof -
  show tick: "state_io_rel (keepsTicking d) (tick E)"
    by (simp add: state_io_rel_def tick_def ticking_same)
  show "state_io_rel (keepsTicking d) (timeNow E)" "state_io_rel (keepsTicking d) (osFails E)"
    "state_io_rel (keepsTicking d) (waitTimer E x)" "state_io_rel (keepsTicking d) (createTemp E p q)"
    "state_io_rel (keepsTicking d) (fileWrite E p c)" "state_io_rel (keepsTicking d) (fileOp E)"
    "state_io_rel (keepsTicking d) (osRemove E p)"
    unfolding os_defs
    by (auto intro!: ticking.rules ticking.modify_rule ticking_same tick simp: Let_def)
qed

lemma fireWatchdog_ticking: "keepsTicking d w (fireWatchdog w)"
  by (auto simp: keepsTicking_def ticking_def fireWatchdog_def split: option.split)

lemma ticking_unfired: "ticking d w \<Longrightarrow> \<not> w_fired (fireWatchdog w) \<Longrightarrow> w_clock w < d"
  by (auto simp: ticking_def fireWatchdog_def split: option.splits if_splits)

lemma ticking_runner [intro!]: "state_io_rel (keepsTicking d) (runnerRun E args)"
  unfolding runnerRun_def rcloneRun_def
  by (auto intro!: ticking.rules ticking.modify_rule fireWatchdog_ticking ticking_same)

lemma ticking_remote [intro!]:
  "state_io_rel (keepsTicking d) (readRemote E s)" "state_io_rel (keepsTicking d) (writeRemote E s data etag)"
  "state_io_rel (keepsTicking d) (verifyAcquiredLock n E s x)"
proof -
  show read: "state_io_rel (keepsTicking d) (readRemote E s)"
    unfolding readRemote_def remoteStateExists_def Let_def by (auto intro!: ticking.rules)
  show "state_io_rel (keepsTicking d) (writeRemote E s data etag)"
    unfolding writeRemote_def stateRun_def by (auto intro!: ticking.rules)
  show "state_io_rel (keepsTicking d) (verifyAcquiredLock n E s x)"
    unfolding verifyAcquiredLock_def verifyPoll_def Let_def by (auto intro!: ticking.iter_rule ticking.rules read)
qed

lemma stopWatchdog_wp:
  "wp (stopWatchdog E) (\<lambda>fired t. quiet w t \<and> (ticking d w \<and> \<not> fired \<longrightarrow> w_clock t < d)) w"
proof -
  have "wp (stopWatchdog E) (\<lambda>fired t. ticking d w \<and> \<not> fired \<longrightarrow> w_clock t < d) w"
    using ticking_unfired [of d "w\<lparr>w_calls := Suc (w_calls w), w_clock := w_clock w + int (elapse E (w_calls w))\<rparr>"]
    by (auto simp: stopWatchdog_def wp_simps tick_def ticking_def)
  moreover have "wp (stopWatchdog E) (\<lambda>_. quiet w) w"
    by (intro quietI watchdog_effects)
  ultimately show ?thesis by (simp add: wp_conj)
qed

text \<open>
  What taking the lock does: at most one write, then reads; on success the session owns the
  state it read last, and its lock stays valid for at least the safety window.
\<close>

definition lockTaken :: "syncConfig \<Rightarrow> 'r session \<Rightarrow> bool" where
  "lockTaken s t = (ownedBy (s_remote t) (cf_owner s) \<and>
     (\<exists>c rest e. w_cmds t = c # rest \<and> readBy s c (s_remote t) \<and> s_lockExpiry t = Some e \<and>
        w_clock t < e - refreshSafetyWindow s))"

fun took :: "syncConfig \<Rightarrow> syncFileData \<Rightarrow> bool \<Rightarrow> 'r session \<Rightarrow> (waiting + goerr option) option \<Rightarrow> 'r session \<Rightarrow> bool" where
  "took s local localExists w None t = True"
| "took s local localExists w (Some r) t = (addsAfter (takesLock s local localExists) w t \<and> later w t \<and>
     (case r of Inl u \<Rightarrow> waitInvOf unrefreshed True s u t | Inr e \<Rightarrow> e = None \<longrightarrow> lockTaken s t))"

lemma verifyPoll_wp: "wp (verifyPoll E s x u) (\<lambda>r t. \<forall>r'. r = Some (Inr (Inr r')) \<longrightarrow> seen s (w_cmds t) (w_clock t) r') w"
  unfolding verifyPoll_def wp_bind
  by (rule wp_mono [OF readRemote_done])
    (auto simp: wp_simps timeNow_def tick_def waitTimer_def dest: seen_done split: sum.splits option.split)

lemma verifyAcquiredLock_wp:
  "wp (verifyAcquiredLock n E s x) (\<lambda>r t. \<forall>r'. r = Some (Inr r') \<longrightarrow> seen s (w_cmds t) (w_clock t) r') w"
proof -
  have "wp (verifyPoll E s x u) (\<lambda>r t. case r of None \<Rightarrow> True | Some (Inl y) \<Rightarrow> True
      | Some (Inr b) \<Rightarrow> \<forall>r'. b = Inr r' \<longrightarrow> seen s (w_cmds t) (w_clock t) r') t" for u t
    by (rule wp_mono [OF verifyPoll_wp]) (auto split: option.split sum.split)
  from iter_wp [of "\<lambda>_ _. True" "()" w, OF TrueI this] show ?thesis
    unfolding verifyAcquiredLock_def by (rule wp_mono) auto
qed

text \<open>The state of the loop when the lock is taken: it is free, was accepted, and nothing was written since.\<close>

definition acceptable :: "syncConfig \<Rightarrow> syncFileData \<Rightarrow> bool \<Rightarrow> waiting \<Rightarrow> 'r session \<Rightarrow> bool" where
  "acceptable s local localExists v w = (\<not> rejected s local localExists (wt_remote v) \<and>
     (wt_observed v \<noteq> [] \<longrightarrow> unrefreshed s (w_cmds w) (wt_observed v) (wt_at v)) \<and>
     (\<exists>inspections cmds. w_cmds w = inspections @ cmds \<and> (\<forall>c \<in> set inspections. isRead c) \<and>
        freeOf unrefreshed s cmds (w_clock w) (wt_remote v)))"

lemma wrote_takes:
  assumes "acceptable s local localExists v w" and "Owner lock = cf_owner s" "TTL lock = cf_timeout s"
    and "w_cmds u = w_cmds w" "w_clock w \<le> w_clock u"
    and "wrote s (acquireCandidate s local localExists (wt_remote v) lock) (rf_etag (wt_remote v)) u r t"
  shows "addsAfter (takesLock s local localExists) w t"
proof (cases "w_cmds t = w_cmds u")
  case False
  then obtain c where c: "w_cmds t = c # w_cmds w" "w_clock w \<le> c_time c"
    "writeBy s c (acquireCandidate s local localExists (wt_remote v) lock) (rf_etag (wt_remote v))"
    using assms(4-6) unfolding wrote_def by force
  obtain inspections cmds where "w_cmds w = inspections @ cmds" "\<forall>c \<in> set inspections. isRead c"
    "freeOf unrefreshed s cmds (c_time c) (wt_remote v)"
    using assms(1) unrefreshed.free_mono [OF _ c(2)] unfolding acceptable_def by blast
  then have "takesLock s local localExists c (w_cmds w)"
    using assms(1-3) c(3) unfolding takesLock_def acceptable_def by blast
  then show ?thesis using c(1) by (auto simp: addsAfter_def Cons_eq_append_conv)
qed (use assms(4) in \<open>simp add: addsAfter_def\<close>)

lemma acquireCandidate_owned:
  assumes "sameSyncFileData (rf_data r) (acquireCandidate s local localExists remote lock)" "Owner lock = cf_owner s"
    and "seen s cmds now r"
  shows "ownedBy r (cf_owner s)"
proof -
  have "sameLock (Lock (rf_data r)) (Some lock)"
    using assms(1) by (simp add: sameSyncFileData_def acquireCandidate_def)
  then obtain l where l: "Lock (rf_data r) = Some l" "Owner l = cf_owner s"
    using assms(2) by (cases "Lock (rf_data r)") (auto simp: sameLock_def)
  then show ?thesis using seen_locked [OF assms(3)] assms(3) by (auto simp: ownedBy_def seen_def noRemote_def zeroData_def split: if_splits)
qed

lemma lostRace_current: "lostRace s v candidate e current = Inl again \<Longrightarrow> again = current"
  by (auto simp: lostRace_def Let_def split: option.splits if_splits)

lemma settleLock_wp:
  assumes t: "addsAfter (takesLock s local localExists) w t" "later w t" "ticking (e - refreshSafetyWindow s) t"
    and seen: "\<And>r. current = Inr r \<Longrightarrow> seen s (w_cmds t) (w_clock t) r"
    and held: "wt_observed v \<noteq> [] \<Longrightarrow> unrefreshed s (w_cmds w) (wt_observed v) (wt_at v)"
    and lock: "candidate = acquireCandidate s local localExists remote lock" "Owner lock = cf_owner s"
  shows "wp (settleLock E s v candidate writeErr e current) (took s local localExists w) t"
  unfolding settleLock_def wp_bind
proof (rule wp_mono [OF stopWatchdog_wp])
  fix fired u
  assume "quiet t u \<and> (ticking (e - refreshSafetyWindow s) t \<and> \<not> fired \<longrightarrow> w_clock u < e - refreshSafetyWindow s)"
  then have u: "w_cmds u = w_cmds t" "w_clock t \<le> w_clock u" "\<not> fired \<Longrightarrow> w_clock u < e - refreshSafetyWindow s"
    using t(3) by (auto simp: quiet_def later_def)
  have after: "addsAfter (takesLock s local localExists) w q \<and> later w q" if "w_cmds q = w_cmds t" "w_clock t \<le> w_clock q"
    for q :: "'a session"
    using t(1,2) that by (auto simp: addsAfter_def later_def)
  have free: "waitInvOf unrefreshed True s (v\<lparr>wt_remote := r\<rparr>) u" if "current = Inr r" for r
  proof -
    obtain xs where "w_cmds u = xs @ w_cmds w" using t(1) u(1) by (auto simp: addsAfter_def)
    then show ?thesis
      using held unrefreshed.lasts_append [of s "w_cmds w"] seen_mono [OF seen [OF that] u(2)] u(1)
      by (auto simp: waitInvOf_def)
  qed
  have taken: "wp (setOwnedRemote r (Some e)) (\<lambda>x q. addsAfter (takesLock s local localExists) w q \<and> later w q \<and> lockTaken s q) u"
    if r: "current = Inr r" "sameSyncFileData (rf_data r) candidate" "\<not> fired" for r
  proof (rule wp_mono [OF setOwnedRemote_wp])
    fix q :: "'a session"
    assume q: "s_remote q = r \<and> s_lockExpiry q = Some e \<and> s_pending q = s_pending u \<and>
       s_pendingExpiry q = s_pendingExpiry u \<and> s_releaseRunner q = s_releaseRunner u \<and> s_closed q = s_closed u \<and>
       w_cmds q = w_cmds u \<and> w_clock q = w_clock u \<and> w_disk q = w_disk u \<and> w_service q = w_service u"
    have owned: "ownedBy r (cf_owner s)"
      using acquireCandidate_owned [OF _ lock(2) seen [OF r(1)]] r(2) lock(1) by blast
    then have "rf_exists r" by (simp add: ownedBy_def)
    then obtain c rest where "w_cmds t = c # rest \<and> readBy s c r"
      using seen [OF r(1)] by (auto simp: seen_def)
    then show "addsAfter (takesLock s local localExists) w q \<and> later w q \<and> lockTaken s q"
      using q u r(3) owned after [of q] by (simp add: lockTaken_def)
  qed
  show "wp (if fired then State_Monad.return (Some (Inr (Some (errorString ''could not verify acquired lock before expiry''))))
     else (case current of
        Inl err \<Rightarrow> State_Monad.return (Some (Inr (Some (case writeErr of Some e \<Rightarrow> e | None \<Rightarrow> err))))
      | Inr remote \<Rightarrow>
          if sameSyncFileData (rf_data remote) candidate then do {
            setOwnedRemote remote (Some e);
            State_Monad.return (Some (Inr None)) }
          else State_Monad.return (Some (case lostRace s v candidate writeErr remote of
              Inl again \<Rightarrow> Inl (v\<lparr>wt_remote := again\<rparr>)
            | Inr err \<Rightarrow> Inr (Some err))))) (took s local localExists w) u"
    using after [OF u(1,2)] taken free
    by (auto simp: wp_simps split: sum.splits dest: lostRace_current)
qed

lemma takeLock_wp:
  assumes "acceptable s local localExists v w"
  shows "wp (takeLock n E s local localExists v) (took s local localExists w) w"
proof -
  let ?x = "\<lambda>now. now + (cf_timeout s - refreshSafetyWindow s)"
  let ?c = "\<lambda>lock. acquireCandidate s local localExists (wt_remote v) lock"
  have held: "wt_observed v \<noteq> [] \<Longrightarrow> unrefreshed s (w_cmds w) (wt_observed v) (wt_at v)"
    using assms by (simp add: acceptable_def)
  have verify: "wp (verifyAcquiredLock n E s (?x now)) (\<lambda>c. wp (case c of
        None \<Rightarrow> State_Monad.return None
      | Some current \<Rightarrow> settleLock E s v (?c lock) writeErr (now + cf_timeout s) current) (took s local localExists w)) u"
    if u: "addsAfter (takesLock s local localExists) w u" "later w u" "ticking (?x now) u"
      and lock: "Owner lock = cf_owner s" for u now lock writeErr
  proof (rule wp_mono [where Q = "\<lambda>c t. later u t \<and> adds isRead u t \<and> keepsTicking (?x now) u t \<and>
      (\<forall>r. c = Some (Inr r) \<longrightarrow> seen s (w_cmds t) (w_clock t) r)"])
    show "wp (verifyAcquiredLock n E s (?x now)) (\<lambda>c t. later u t \<and> adds isRead u t \<and> keepsTicking (?x now) u t \<and>
        (\<forall>r. c = Some (Inr r) \<longrightarrow> seen s (w_cmds t) (w_clock t) r)) u"
      unfolding wp_conj
      by (intro conjI verifyAcquiredLock_wp later.wp_effect adds.wp_effect ticking.wp_effect loop_effects ticking_remote)
    fix c :: "(goerr + remoteSyncFile) option" and t
    assume t: "later u t \<and> adds isRead u t \<and> keepsTicking (?x now) u t \<and>
      (\<forall>r. c = Some (Inr r) \<longrightarrow> seen s (w_cmds t) (w_clock t) r)"
    have "addsAfter (takesLock s local localExists) u t"
      using t by (intro adds_addsAfter [of isRead]) (auto simp: takesLock_def)
    then have after: "addsAfter (takesLock s local localExists) w t" "later w t" "ticking (?x now) t"
      using addsAfter.R_trans [OF u(1)] later.R_trans [OF u(2)] t u(3) by (auto simp: keepsTicking_def)
    show "wp (case c of
        None \<Rightarrow> State_Monad.return None
      | Some current \<Rightarrow> settleLock E s v (?c lock) writeErr (now + cf_timeout s) current) (took s local localExists w) t"
    proof (cases c)
      case (Some current)
      have "wp (settleLock E s v (?c lock) writeErr (now + cf_timeout s) current) (took s local localExists w) t"
        using after t Some by (intro settleLock_wp [OF _ _ _ _ held refl lock]) (auto simp: add_diff_eq)
      then show ?thesis using Some by simp
    qed (simp add: wp_simps)
  qed
  have wrote: "wp (writeRemote E s (?c lock) (rf_etag (wt_remote v)))
      (\<lambda>e u. addsAfter (takesLock s local localExists) w u \<and> later w u \<and> ticking (?x now) u) q"
    if q: "w_cmds q = w_cmds w" "w_clock w \<le> w_clock q" "ticking (?x now) q"
      and lock: "Owner lock = cf_owner s" "TTL lock = cf_timeout s" for q now lock
  proof (rule wp_mono [where Q = "\<lambda>e u. (framed q u \<and> later q u \<and>
      SyncState.wrote s (?c lock) (rf_etag (wt_remote v)) q e u) \<and> keepsTicking (?x now) q u"])
    show "wp (writeRemote E s (?c lock) (rf_etag (wt_remote v))) (\<lambda>e u. (framed q u \<and> later q u \<and>
        SyncState.wrote s (?c lock) (rf_etag (wt_remote v)) q e u) \<and> keepsTicking (?x now) q u) q"
      unfolding wp_conj [where R = "\<lambda>e u. keepsTicking (?x now) q u"]
      by (intro conjI writeRemote_done ticking.wp_effect ticking_remote)
  qed (use wrote_takes [OF assms lock q(1,2)] q in \<open>auto simp: keepsTicking_def later_def\<close>)
  have armed: "wp (armWatchdog (?x now) b) (\<lambda>_. wp (writeRemote E s (?c lock) (rf_etag (wt_remote v)))
      (\<lambda>e. wp (verifyAcquiredLock n E s (?x now)) (\<lambda>c. wp (case c of
        None \<Rightarrow> State_Monad.return None
      | Some current \<Rightarrow> settleLock E s v (?c lock) e (now + cf_timeout s) current) (took s local localExists w)))) q"
    if "w_cmds q = w_cmds w" "w_clock w \<le> w_clock q" "Owner lock = cf_owner s" "TTL lock = cf_timeout s" for q now b lock
    unfolding armWatchdog_def wp_modify
    by (rule wp_mono [OF wrote]) (use that verify in \<open>auto simp: ticking_def\<close>)
  have timed: "wp (timeNow E) (\<lambda>now. wp (armWatchdog (?x now) b) (\<lambda>_. wp (writeRemote E s (?c lock) (rf_etag (wt_remote v)))
      (\<lambda>e. wp (verifyAcquiredLock n E s (?x now)) (\<lambda>c. wp (case c of
        None \<Rightarrow> State_Monad.return None
      | Some current \<Rightarrow> settleLock E s v (?c lock) e (now + cf_timeout s) current) (took s local localExists w))))) q"
    if "w_cmds q = w_cmds w" "w_clock w \<le> w_clock q" "Owner lock = cf_owner s" "TTL lock = cf_timeout s" for q b lock
    by (rule wp_mono [OF timeNow_wp]) (use that in \<open>auto intro!: armed\<close>)
  show ?thesis
    unfolding takeLock_def newLock_def Let_def wallNow_def wp_bind wp_return tick_def wp_State prod.case
    by (rule timed) simp_all
qed

lemma reads_takes: "adds isRead w t \<Longrightarrow> addsAfter (takesLock s local localExists) w t"
  by (erule adds_addsAfter) (simp add: takesLock_def)

lemma took_after:
  assumes "addsAfter (takesLock s local localExists) w v" "later w v" "took s local localExists v r t"
  shows "took s local localExists w r t"
  using assms(3) addsAfter.R_trans [OF assms(1)] later.R_trans [OF assms(2)] by (cases r) (auto split: sum.splits)

lemma acquireRound_wp:
  assumes "waitInvOf unrefreshed True s v w"
  shows "wp (acquireRound n E s local localExists d v) (took s local localExists w) w"
proof -
  have waited: "wp (waitForLock n E s d v) (\<lambda>r t. adds isRead w t \<and> later w t \<and> (\<forall>u. r = Some (Inr u) \<longrightarrow>
      freeOf unrefreshed s (w_cmds t) (w_clock t) (wt_remote u) \<and> waitInvOf unrefreshed True s u t)) w"
    unfolding wp_conj [where Q = "\<lambda>_ t. adds isRead w t"] wp_conj [where Q = "\<lambda>_ t. later w t"]
    by (intro conjI adds.wp_effect later.wp_effect loop_effects unrefreshed.wait_safe assms)
  have taken: "wp (validateAcquisition E s local localExists (wt_remote u)) (\<lambda>e. wp (case e of
        Some err \<Rightarrow> State_Monad.return (Some (Inr (Some err)))
      | None \<Rightarrow> takeLock n E s local localExists u) (took s local localExists w)) t"
    if t: "adds isRead w t" "later w t" and u: "freeOf unrefreshed s (w_cmds t) (w_clock t) (wt_remote u)"
      "waitInvOf unrefreshed True s u t" for u t
  proof (rule wp_mono [where Q = "\<lambda>e q. adds isRead t q \<and> later t q \<and> (e = None \<longrightarrow> \<not> rejected s local localExists (wt_remote u))"])
    show "wp (validateAcquisition E s local localExists (wt_remote u)) (\<lambda>e q. adds isRead t q \<and> later t q \<and>
        (e = None \<longrightarrow> \<not> rejected s local localExists (wt_remote u))) t"
      unfolding wp_conj
      by (intro conjI adds.wp_effect later.wp_effect validateAcquisition_effects validateAcquisition_rejects)
    fix e :: "goerr option" and q
    assume q: "adds isRead t q \<and> later t q \<and> (e = None \<longrightarrow> \<not> rejected s local localExists (wt_remote u))"
    then have after: "addsAfter (takesLock s local localExists) w q" "later w q"
      using adds.R_trans [OF t(1)] later.R_trans [OF t(2)] reads_takes by blast+
    obtain xs where xs: "w_cmds q = xs @ w_cmds t" "\<forall>c \<in> set xs. isRead c" "w_clock t \<le> w_clock q"
      using q by (auto simp: adds_def later_def)
    have "wt_observed u \<noteq> [] \<longrightarrow> unrefreshed s (w_cmds q) (wt_observed u) (wt_at u)"
      using u(2) xs(1) unrefreshed.lasts_append [of s "w_cmds t"] by (auto simp: waitInvOf_def)
    then have "acceptable s local localExists u q" if "e = None"
      using that q xs unrefreshed.free_mono [OF u(1) xs(3)] unfolding acceptable_def by blast
    then have "wp (takeLock n E s local localExists u) (took s local localExists w) q" if "e = None"
      using that by (intro wp_mono [OF takeLock_wp]) (auto intro: took_after [OF after])
    then show "wp (case e of Some err \<Rightarrow> State_Monad.return (Some (Inr (Some err)))
      | None \<Rightarrow> takeLock n E s local localExists u) (took s local localExists w) q"
      using after by (cases e) (simp_all add: wp_simps)
  qed
  show ?thesis
    unfolding acquireRound_def wp_bind
    by (rule wp_mono [OF waited]) (auto simp: reads_takes wp_return wp_bind intro!: taken split: option.split sum.split)
qed

lemma acquireLoop_wp:
  assumes "waitInvOf unrefreshed True s v w"
  shows "wp (acquireLoop n E s local localExists d v) (\<lambda>r t. \<forall>e. r = Some e \<longrightarrow> took s local localExists w (Some (Inr e)) t) w"
proof -
  have "wp (acquireRound n E s local localExists d u) (\<lambda>r q. case r of None \<Rightarrow> True
      | Some (Inl y) \<Rightarrow> waitInvOf unrefreshed True s y q \<and> addsAfter (takesLock s local localExists) w q \<and> later w q
      | Some (Inr e) \<Rightarrow> took s local localExists w (Some (Inr e)) q) t"
    if t: "waitInvOf unrefreshed True s u t \<and> addsAfter (takesLock s local localExists) w t \<and> later w t" for u t
    by (rule wp_mono [OF acquireRound_wp])
      (use t in \<open>auto dest!: took_after [of s local localExists w t] split: option.split sum.splits\<close>)
  from iter_wp [of "\<lambda>u t. waitInvOf unrefreshed True s u t \<and> addsAfter (takesLock s local localExists) w t \<and> later w t", OF _ this]
  show ?thesis
    unfolding acquireLoop_def using assms by (intro wp_mono [where R = "\<lambda>r t. \<forall>e. r = Some e \<longrightarrow> _ e t"]) (auto simp: addsAfter.R_refl later.R_refl)
qed

text \<open>The whole of \<open>Acquire\<close>, for a lock that is not kept from an earlier process.\<close>

lemma validateAcquisition_seen:
  assumes "seen s (w_cmds w) (w_clock w) remote"
  shows "wp (validateAcquisition E s local localExists remote) (\<lambda>_ t. adds isRead w t \<and> later w t \<and>
    seen s (w_cmds t) (w_clock t) remote) w"
proof -
  have "wp (validateAcquisition E s local localExists remote) (\<lambda>_ t. seen s (w_cmds t) (w_clock t) remote) w"
  proof (cases "rf_exists remote")
    case True
    then show ?thesis using assms by (simp add: validateAcquisition_def wp_simps Let_def)
  next
    case False
    then show ?thesis using assms by (simp add: seen_def wp_def split: prod.split)
  qed
  then show ?thesis
    unfolding wp_conj by (intro conjI adds.wp_effect later.wp_effect validateAcquisition_effects)
qed

lemma acquire_wp:
  assumes "\<not> cf_persistent s"
  shows "wp (acquire n E s) (\<lambda>r t. \<forall>e. r = Some e \<longrightarrow>
    (\<exists>local localExists. addsAfter (takesLock s local localExists) w t) \<and> (e = None \<longrightarrow> lockTaken s t)) w"
proof -
  let ?Q = "\<lambda>r t. \<forall>e. r = Some e \<longrightarrow>
    (\<exists>local localExists. addsAfter (takesLock s local localExists) w t) \<and> (e = None \<longrightarrow> lockTaken s t)"
  have loop: "wp (acquireLoop n E s local localExists d \<lparr>wt_remote = remote, wt_observed = [], wt_at = 0\<rparr>) ?Q t"
    if "adds isRead w t" "later w t" "seen s (w_cmds t) (w_clock t) remote" for local localExists d remote t
    by (rule wp_mono [OF acquireLoop_wp])
      (use that in \<open>auto simp: waitInvOf_def intro: addsAfter.R_trans [OF reads_takes]\<close>)
  have start: "wp (waitDeadline E s) (\<lambda>d. wp (acquireLoop n E s local localExists d
      \<lparr>wt_remote = remote, wt_observed = [], wt_at = 0\<rparr>) ?Q) t"
    if t: "adds isRead w t" "later w t" "seen s (w_cmds t) (w_clock t) remote" for local localExists remote t
  proof -
    have "adds isRead w q \<and> later w q \<and> seen s (w_cmds q) (w_clock q) remote" if "quiet t q" for q
      using that t seen_mono [OF t(3)] by (auto simp: quiet_def later_def adds_def intro: order_trans)
    moreover have "quiet t t" by (simp add: quiet_def later_def framed_def)
    ultimately show ?thesis
      unfolding waitDeadline_def by (auto simp: wp_simps intro!: quiet_rules loop)
  qed
  have valid: "wp (validateAcquisition E s local localExists remote) (\<lambda>e. wp (case e of
        Some err \<Rightarrow> State_Monad.return (Some (Some err))
      | None \<Rightarrow> do { d \<leftarrow> waitDeadline E s;
          acquireLoop n E s local localExists d \<lparr>wt_remote = remote, wt_observed = [], wt_at = 0\<rparr> }) ?Q) t"
    if t: "adds isRead w t" "later w t" "seen s (w_cmds t) (w_clock t) remote" for local localExists remote t
  proof (rule wp_mono [OF validateAcquisition_seen [OF t(3)]])
    fix e :: "goerr option" and q
    assume "adds isRead t q \<and> later t q \<and> seen s (w_cmds q) (w_clock q) remote"
    then have q: "adds isRead w q" "later w q" "seen s (w_cmds q) (w_clock q) remote"
      using adds.R_trans [OF t(1)] later.R_trans [OF t(2)] by blast+
    show "wp (case e of Some err \<Rightarrow> State_Monad.return (Some (Some err))
      | None \<Rightarrow> do { d \<leftarrow> waitDeadline E s;
          acquireLoop n E s local localExists d \<lparr>wt_remote = remote, wt_observed = [], wt_at = 0\<rparr> }) ?Q q"
      using start [OF q] reads_takes [OF q(1)] by (cases e) (auto simp: wp_bind wp_return)
  qed
  have found: "wp (readRemote E s) (\<lambda>r. wp (case r of Inl err \<Rightarrow> State_Monad.return (Some (Some err)) | Inr remote \<Rightarrow> do {
        e \<leftarrow> validateAcquisition E s local localExists remote;
        (case e of Some err \<Rightarrow> State_Monad.return (Some (Some err))
         | None \<Rightarrow> do { d \<leftarrow> waitDeadline E s;
             acquireLoop n E s local localExists d \<lparr>wt_remote = remote, wt_observed = [], wt_at = 0\<rparr> }) }) ?Q) t"
    if t: "quiet w t" for local localExists t
  proof (rule wp_mono [OF readRemote_done])
    fix r q assume q: "readDone s t r q"
    then have after: "adds isRead w q" "later w q"
      using t by (auto simp: readDone_def quiet_def adds_def later_def intro: order_trans suffix_order.order_trans)
    show "wp (case r of Inl err \<Rightarrow> State_Monad.return (Some (Some err)) | Inr remote \<Rightarrow> do {
        e \<leftarrow> validateAcquisition E s local localExists remote;
        (case e of Some err \<Rightarrow> State_Monad.return (Some (Some err))
         | None \<Rightarrow> do { d \<leftarrow> waitDeadline E s;
             acquireLoop n E s local localExists d \<lparr>wt_remote = remote, wt_observed = [], wt_at = 0\<rparr> }) }) ?Q q"
      using valid [OF after] seen_done [of s t _ q] q reads_takes [OF after(1)]
      by (cases r) (auto simp: wp_bind wp_return)
  qed
  have still: "addsAfter (takesLock s local localExists) w v" if "quiet w v" for v local localExists
    using that by (simp add: quiet_def addsAfter_def)
  show ?thesis
    unfolding acquire_def wp_bind
    by (intro quiet_rules) (auto simp: wp_return wp_bind assms dest: still split: sum.split prod.split intro!: found [unfolded wp_bind])
qed

section \<open>No lock is taken from a holder before it expires\<close>

text \<open>
  A process that has written a lock at the time \<open>since\<close> or later holds it until \<open>since\<close> plus its
  TTL at least; nobody can have read the lock before \<open>since\<close>. At \<open>now\<close> that time has passed for
  the lock of \<open>remote\<close>, whatever \<open>since\<close> was.
\<close>

definition expiredFor :: "syncConfig \<Rightarrow> cmd list \<Rightarrow> int \<Rightarrow> remoteSyncFile \<Rightarrow> bool" where
  "expiredFor s older now remote = (\<forall>l since. Lock (rf_data remote) = Some l \<and> 0 < TTL l \<and>
     (\<forall>c \<in> set older. \<forall>r. readBy s c r \<and> lockIdentity r = lockIdentity remote \<longrightarrow> since \<le> c_time c) \<longrightarrow>
     since + TTL l \<le> now)"

definition overwritesExpired :: "syncConfig \<Rightarrow> cmd \<Rightarrow> cmd list \<Rightarrow> bool" where
  "overwritesExpired s d older = (isRead d \<or>
     (\<exists>remote data lock. writeBy s d data (rf_etag remote) \<and> Lock data = Some lock \<and> Owner lock = cf_owner s \<and>
        expiredFor s older (c_time d) remote))"

lemma unrefreshed_expired:
  assumes "freeOf unrefreshed s cmds now remote"
  shows "expiredFor s (inspections @ cmds) now remote"
  unfolding expiredFor_def
proof (intro allI impI)
  fix l since
  assume l: "Lock (rf_data remote) = Some l \<and> 0 < TTL l \<and>
    (\<forall>c \<in> set (inspections @ cmds). \<forall>r. readBy s c r \<and> lockIdentity r = lockIdentity remote \<longrightarrow> since \<le> c_time c)"
  then have "lockTTL remote (cf_timeout s) = TTL l" "Lock (rf_data remote) \<noteq> None" by (auto simp: lockTTL_def ttl_def)
  then have "unrefreshed s cmds (lockIdentity remote) (now - TTL l)" using assms by (auto simp: freeOf_def)
  then obtain c r where c: "c \<in> set cmds" "readBy s c r \<and> lockIdentity r = lockIdentity remote" "c_time c \<le> now - TTL l"
    unfolding unrefreshed_def by blast
  moreover have "c \<in> set (inspections @ cmds)" using c(1) by simp
  ultimately have "since \<le> c_time c" using l by blast
  then show "since + TTL l \<le> now" using c(3) by simp
qed

lemma takesLock_expired:
  assumes "takesLock s local localExists d older"
  shows "overwritesExpired s d older"
proof (cases "isRead d")
  case False
  then obtain remote lock inspections cmds where d: "older = inspections @ cmds" "Owner lock = cf_owner s"
    "writeBy s d (acquireCandidate s local localExists remote lock) (rf_etag remote)" "freeOf unrefreshed s cmds (c_time d) remote"
    using assms unfolding takesLock_def by blast
  have "Lock (acquireCandidate s local localExists remote lock) = Some lock" by (simp add: acquireCandidate_def)
  then show ?thesis using d unrefreshed_expired [OF d(4), of inspections] unfolding overwritesExpired_def by blast
qed (simp add: overwritesExpired_def)

lemma addsAfter_mono:
  assumes "addsAfter P w t" and "\<And>d older. P d older \<Longrightarrow> Q d older"
  shows "addsAfter Q w t"
proof -
  obtain xs where "w_cmds t = xs @ w_cmds w" "\<And>ys d zs. xs = ys @ d # zs \<Longrightarrow> P d (zs @ w_cmds w)"
    using assms(1) by (auto simp: addsAfter_def)
  then show ?thesis using assms(2) unfolding addsAfter_def by (intro exI [of _ xs]) simp
qed

lemma acquire_respects:
  assumes "\<not> cf_persistent s"
  shows "wp (acquire n E s) (\<lambda>r t. \<forall>e. r = Some e \<longrightarrow> addsAfter (overwritesExpired s) w t) w"
  by (rule wp_mono [OF acquire_wp [OF assms]]) (auto elim!: addsAfter_mono intro: takesLock_expired)

section \<open>The waits end\<close>

text \<open>
  Each round of the verification, and each round of a wait with a deadline, that is followed
  by another one moves the clock closer to the deadline.
\<close>

lemma verifyAcquiredLock_ends:
  assumes "0 < cf_pollInterval s" and "nat (x - w_clock w) < n"
  shows "wp (verifyAcquiredLock n E s x) (\<lambda>r t. \<exists>y. r = Some y) w"
proof -
  have "wp (verifyPoll E s x u) (\<lambda>r t. case r of None \<Rightarrow> False
      | Some (Inl y) \<Rightarrow> True \<and> nat (x - w_clock t) < nat (x - w_clock v) | Some (Inr b) \<Rightarrow> True) v" for u v
    unfolding verifyPoll_def wp_bind
    by (rule wp_mono [OF readRemote_done])
      (use assms(1) in \<open>auto simp: wp_simps timeNow_def tick_def waitTimer_def readDone_def later_def
        split: sum.splits option.splits\<close>)
  from iter_terminates [of "\<lambda>_ _. True" "()" w "\<lambda>_ v. nat (x - w_clock v)", OF TrueI assms(2) this]
  show ?thesis unfolding verifyAcquiredLock_def by (rule wp_mono) auto
qed

lemma readRemote_later: "a < w_clock q \<Longrightarrow> wp (readRemote E s) (\<lambda>_ t. a < w_clock t) q"
  by (rule wp_mono [OF readRemote_done]) (auto simp: readDone_def later_def)

lemma pauseAndRead_later:
  assumes "0 < cf_pollInterval s" "a < expires" "a < d" "a \<le> w_clock w"
  shows "wp (pauseAndRead E s (Some d) expires v) (\<lambda>r t. isInl r \<or> a < w_clock t) w"
  unfolding pauseAndRead_def
  using assms
  by (auto simp: wp_simps timeNow_def tick_def waitTimer_def Let_def earliest_def min_def max_def
      intro!: wp_mono [OF readRemote_later [of a]] split: option.split)

text \<open>A round is not out of fuel; if another one follows, the deadline has not passed and is closer.\<close>

fun closer :: "int \<Rightarrow> 'r session \<Rightarrow> ('a + 'b) option \<Rightarrow> 'r session \<Rightarrow> bool" where
  "closer d w None t = False"
| "closer d w (Some (Inl y)) t = (w_clock w < d \<and> w_clock w < w_clock t)"
| "closer d w (Some (Inr b)) t = True"

lemma decideLock_closer:
  assumes "0 < cf_pollInterval s" "w_clock w \<le> w_clock q"
  shows "wp (decideLock E s (Some d) v) (closer d w) q"
proof -
  have paused: "wp (pauseAndRead E s (Some d) x v)
      (\<lambda>r. closer d w (Some (case r of Inl err \<Rightarrow> Inr (Inl err) | Inr v' \<Rightarrow> Inl v'))) p"
    if "w_clock w < x" "w_clock w < d" "w_clock w \<le> w_clock p" for x p
    by (rule wp_mono [OF pauseAndRead_later [OF assms(1) that]]) (use that in \<open>auto split: sum.split\<close>)
  show ?thesis
    unfolding decideLock_def
    using assms(2) by (auto simp: wp_simps timeNow_def tick_def Let_def intro!: paused)
qed

lemma waitForLock_ends:
  assumes "0 < cf_pollInterval s" and "nat (d - w_clock w) < n"
  shows "wp (waitForLock n E s (Some d) v) (\<lambda>r t. \<exists>y. r = Some y) w"
proof -
  have round: "wp (pollLock E s (Some d) u) (closer d q) q" for u q
    unfolding pollLock_def observeLock_def
    by (auto simp: wp_simps timeNow_def tick_def intro!: decideLock_closer [OF assms(1)])
  have "wp (pollLock E s (Some d) u) (\<lambda>r t. case r of None \<Rightarrow> False
      | Some (Inl y) \<Rightarrow> True \<and> nat (d - w_clock t) < nat (d - w_clock q) | Some (Inr b) \<Rightarrow> True) q" for u q
    by (rule wp_mono [OF round]) (auto elim!: closer.elims)
  from iter_terminates [of "\<lambda>_ _. True" v w "\<lambda>_ v. nat (d - w_clock v)", OF TrueI assms(2) this]
  show ?thesis unfolding waitForLock_def by (rule wp_mono) auto
qed

end
