(* ===== verification/OwnerText.thy ===== *)
theory OwnerText
  imports AcquireSafety
begin

text \<open>
  A lock ID of \<open>--persistent-lock\<close> that is not well-formed UTF-8. The encoder of a state file
  replaces ill-formed bytes by U+FFFD, so the owner that is read back from a file differs from
  the owner it was written with, and the process does not recognise its own lock.
\<close>

lemma storeString_sanitize: "storeString (jstr s) old = Some (sanitize s)"
  by (simp add: storeString_def jstr_def unquote_quote)

lemma sanitize_wellformed: "validString (sanitize s)"
  unfolding sanitize_def by (rule validString_encodeRunes) (auto dest: runes_valid)

definition ownedAs :: "syncFileData \<Rightarrow> syncFileLock \<Rightarrow> string \<Rightarrow> syncFileData" where
  "ownedAs d l owner = d\<lparr>Lock := Some (l\<lparr>Owner := owner\<rparr>)\<rparr>"

lemma decode_owner:
  assumes valid: "validData (ownedAs d l (sanitize (Owner l)))" and l: "Lock d = Some l"
    and s: "encodeSyncFile d = Inr s"
  shows "decodeSyncFile s = Inr (ownedAs d l (sanitize (Owner l)))"
proof -
  let ?d = "ownedAs d l (sanitize (Owner l))"
  define active where "active = (if Active d then [(''active'', JBool True)] else [])"
  define ms where "ms = baseMembers d @ active @ lockMembers (Lock d)"
  define ks where "ks = [(''owner'', jstr (Owner l)), (''timestamp'', JStr (formatRFC3339Nano (Timestamp l)))]
      @ (if TTL l = 0 then [] else [(''ttl'', JNum (decInt (TTL l)))])"
  have parts: "validTime (Timestamp l)" "0 \<le> TTL l" "TTL l < 2 ^ 63"
    using valid by (simp_all add: validData_def validLock_def ownedAs_def)
  have base: "baseMembers ?d = baseMembers d" by (simp add: baseMembers_def ownedAs_def)
  have lock: "lockMembers (Lock d) = [(''lock'', JObj ks)]" by (simp add: lockMembers_def ks_def l)
  have "storeLock ks zeroLock = Some (l\<lparr>Owner := sanitize (Owner l)\<rparr>)"
    using parts
    by (auto simp: ks_def storeString_sanitize storeInt64_decInt storeTime_format zeroLock_def)
  then have ptr: "storeLockPtr (JObj ks) None = Some (Some (l\<lparr>Owner := sanitize (Owner l)\<rparr>))"
    by (simp add: storeLockPtr_def)
  have "storeData ms zeroData = Some ?d"
    using storeData_base [OF valid, unfolded base, of "active @ lockMembers (Lock d)"] ptr
    by (simp add: ms_def lock active_def ownedAs_def data_eqI storeBool_def)
  moreover have "s = printJson 0 (JObj ms) @ nl"
    using s by (auto simp: encodeSyncFile_def marshalIndent_def ms_def active_def split: if_splits)
  moreover have "rawString (fst m) \<and> wfJson (snd m)" if "m \<in> set ms" for m
    using that by (auto simp: ms_def active_def dest: wfJson_members split: if_splits)
  ultimately show ?thesis using decodeSyncFile_members [OF valid] by simp
qed

text \<open>The state that was just written is not the candidate, and not owned, when it is read back.\<close>

theorem illformed_owner_lost:
  assumes "validData (ownedAs d l (sanitize (Owner l)))" and "Lock d = Some l" and "encodeSyncFile d = Inr s"
    and "\<not> validString (Owner l)"
  shows "\<exists>r. decodeSyncFile s = Inr r \<and> \<not> sameSyncFileData r d \<and>
    \<not> ownedBy \<lparr>rf_data = r, rf_etag = tag, rf_exists = True\<rparr> (Owner l)"
proof -
  have "sanitize (Owner l) \<noteq> Owner l" using assms(4) sanitize_wellformed [of "Owner l"] by auto
  then show ?thesis
    using decode_owner [OF assms(1-3)] assms(2)
    by (simp add: ownedAs_def sameSyncFileData_def sameLock_def ownedBy_def)
qed

text \<open>A lock ID of the single byte \<open>0xFF\<close>.\<close>

definition rawLock :: syncFileLock where
  "rawLock = \<lparr>Owner = [CHR 0xFF],
     Timestamp = \<lparr>t_year = 2024, t_month = 1, t_day = 2, t_hour = 3, t_min = 4, t_sec = 5, t_nsec = 0, t_off = 0\<rparr>,
     TTL = 60 * second\<rparr>"

definition rawData :: syncFileData where
  "rawData = zeroData\<lparr>RepositoryID := ''repo'', Generation := 1, Lock := Some rawLock\<rparr>"

lemma illformed_owner_example:
  "\<exists>s r. encodeSyncFile rawData = Inr s \<and> decodeSyncFile s = Inr r \<and> \<not> sameSyncFileData r rawData"
proof -
  have lock: "Lock rawData = Some rawLock" by (simp add: rawData_def)
  obtain s where s: "encodeSyncFile rawData = Inr s"
    by (simp add: encodeSyncFile_def marshalIndent_def marshalTimeOk_def rawData_def rawLock_def zeroData_def)
  have "runes_opt [CHR 0xFF] = [None]" by (simp add: byte_of_def)
  then have "\<not> validString [CHR 0xFF]" "sanitize [CHR 0xFF] \<noteq> []"
    by (simp_all add: validString_def sanitize_def runes_def)
  moreover have "validString ''repo''" "validString []" by code_simp+
  moreover have "validTime (Timestamp rawLock)"
    by (simp add: validTime_def rawLock_def daysIn_def)
  moreover have "\<not> isZeroTime (Timestamp rawLock)"
    by (simp add: isZeroTime_def timeEqual_def rawLock_def zeroTime_def unixSeconds_def daysFromCivil_def)
  ultimately have "\<not> validString (Owner rawLock)" "validData (ownedAs rawData rawLock (sanitize (Owner rawLock)))"
    by (simp_all add: validData_def validLock_def ownedAs_def rawData_def zeroData_def sanitize_wellformed rawLock_def second_def)
  then show ?thesis using illformed_owner_lost [OF _ lock s] s by blast
qed

end
