(* ===== verification/Startup.thy ===== *)
theory Startup
  imports Acquire
begin

text \<open>
  What happens after the lock is held, before watching begins: \<open>InitializeRemote\<close> and
  \<open>InitializeGeneration\<close> of src/syncstate.go. The decision is also stated as a table,
  \<open>startupAction\<close>.
\<close>

definition initializeRemote :: "'r env \<Rightarrow> syncConfig \<Rightarrow> ('r, goerr option) prog" where
  "initializeRemote E s = do {
     remote0 \<leftarrow> gets s_remote;
     if Generation (rf_data remote0) \<noteq> 0 then State_Monad.return None
     else do {
       e \<leftarrow> deleteRemotePayload E s;
       (case e of Some err \<Rightarrow> State_Monad.return (Some (Wrapped ''clear untracked remote payload: %w'' [] err)) | None \<Rightarrow> do {
       e \<leftarrow> syncToRemote E s;
       (case e of Some err \<Rightarrow> State_Monad.return (Some (Wrapped ''initial local-to-remote sync: %w'' [] err)) | None \<Rightarrow> do {
       remote \<leftarrow> gets s_remote;
       syncID \<leftarrow> randomText E;
       let candidate = (rf_data remote)\<lparr>Generation := 1, SyncID := syncID, Syncing := False\<rparr>;
       e \<leftarrow> replaceOwnedRemote E s remote candidate;
       (case e of Some err \<Rightarrow> State_Monad.return (Some (Wrapped ''complete remote initialization: %w'' [] err)) | None \<Rightarrow> do {
       e \<leftarrow> writeLocalSyncFile E (p_local (cf_paths s)) (localRecord (RepositoryID candidate) 1 (SyncID candidate) False);
       State_Monad.return (case e of
           Some err \<Rightarrow> Some (Wrapped ''write initial local state: %w'' [] err) | None \<Rightarrow> None) }) }) }) } }"

definition recoverUpload :: "'r env \<Rightarrow> syncConfig \<Rightarrow> ('r, goerr option) prog" where
  "recoverUpload E s = do {
     e \<leftarrow> beforeRemoteChange E s;
     (case e of Some err \<Rightarrow> State_Monad.return (Some err) | None \<Rightarrow> do {
     e \<leftarrow> syncToRemote E s;
     (case e of
        Some err \<Rightarrow> State_Monad.return (Some (Wrapped ''recover incomplete local-to-remote sync: %w'' [] err))
      | None \<Rightarrow> afterRemoteChange E s) }) }"

definition download :: "'r env \<Rightarrow> syncConfig \<Rightarrow> remoteSyncFile \<Rightarrow> ('r, goerr option) prog" where
  "download E s remote = do {
     e \<leftarrow> syncFromRemote E s;
     (case e of
        Some err \<Rightarrow> State_Monad.return (Some err)
      | None \<Rightarrow> writeLocalSyncFile E (p_local (cf_paths s))
          (localRecord (RepositoryID (rf_data remote)) (Generation (rf_data remote)) (SyncID (rf_data remote))
             (Syncing (rf_data remote)))) }"

definition initializeGeneration :: "'r env \<Rightarrow> syncConfig \<Rightarrow> ('r, goerr option) prog" where
  "initializeGeneration E s = do {
     l \<leftarrow> readLocalSyncFile E (p_local (cf_paths s));
     (case l of Inl err \<Rightarrow> State_Monad.return (Some err) | Inr (local, localExists) \<Rightarrow> do {
     e \<leftarrow> (if localExists then writeLocalSyncFile E (p_local (cf_paths s)) (local\<lparr>Active := True\<rparr>)
          else State_Monad.return None);
     (case e of Some err \<Rightarrow> State_Monad.return (Some (Wrapped ''mark local session active: %w'' [] err)) | None \<Rightarrow> do {
     remote \<leftarrow> gets s_remote;
     if Generation (rf_data remote) = 0 then initializeRemote E s
     else if needsSyncFromRemote local localExists (rf_data remote) then download E s remote
     else
       (let localIncompleteAdvance = Syncing local \<and> Generation local = Generation (rf_data remote) + 1;
            incomplete = Syncing local \<or> Syncing (rf_data remote)
        in if Generation local > Generation (rf_data remote) \<and> \<not> localIncompleteAdvance
           then State_Monad.return (Some (Errorf ''local generation %d is ahead of remote generation %d''
                  [Num (uint (Generation local)), Num (uint (Generation (rf_data remote)))]))
           else if incomplete \<or> Active local then
             (if incomplete \<and> Generation local = Generation (rf_data remote) \<and> SyncID local = []
              then State_Monad.return (Some (errorString ''cannot recover incomplete sync at equal generations without sync IDs; reconcile local and remote payloads manually''))
              else recoverUpload E s)
           else State_Monad.return None) }) }) }"

section \<open>The decision as a table\<close>

datatype startupAction = FirstUpload | Download | TooFarAhead | NoSyncIDs | Recover | Nothing

definition startupAction :: "(syncFileData) option \<Rightarrow> syncFileData \<Rightarrow> startupAction" where
  "startupAction local remote =
     (if Generation remote = 0 then FirstUpload
      else case local of
        None \<Rightarrow> Download
      | Some l \<Rightarrow>
          if Generation l < Generation remote then Download
          else if Generation l = Generation remote then
            (if SyncID l \<noteq> SyncID remote then Download
             else if Syncing l \<or> Syncing remote then (if SyncID l = [] then NoSyncIDs else Recover)
             else if Active l then Recover else Nothing)
          else if Syncing l \<and> unat (Generation l) = unat (Generation remote) + 1 then Recover
          else TooFarAhead)"

end
