(* ===== verification/Syncer.thy ===== *)
theory Syncer
  imports Lifecycle Scopes "HOL-Library.AList" "HOL-Library.Multiset"
begin

text \<open>
  The syncer of src/main.go with the scoped synchronisation of src/payload.go: the pending
  changes, the scopes of a batch on the current tree, and \<open>Sync\<close>, which announces a change
  of the remote, transfers the scopes and completes the change.

  A map from paths to changes is an association list; its order stands for the order in
  which Go happens to iterate over the map.
\<close>

section \<open>Pending changes\<close>

record change =
  ch_path :: string
  ch_isDir :: bool
  ch_removed :: bool

type_synonym batch = "(string \<times> change) list"

record syncer =
  y_source :: string
  y_dest :: string
  y_logs :: bool
  y_state :: "syncConfig option"
  y_trackState :: bool
  y_excludes :: "string list"

definition addPending :: "batch \<Rightarrow> change \<Rightarrow> batch" where
  "addPending pending item = AList.update (ch_path item) item pending"

text \<open>Whether a path is metadata of the synchronisation; without a state nothing is.\<close>

definition isMetadata :: "syncConfig option \<Rightarrow> string \<Rightarrow> bool" where
  "isMetadata state path = (case state of None \<Rightarrow> False | Some s \<Rightarrow> fst (protects s path))"

definition queueChange :: "syncConfig option \<Rightarrow> batch \<Rightarrow> change \<Rightarrow> batch" where
  "queueChange state pending item =
     (if isMetadata state (ch_path item) then pending else addPending pending item)"

fun mergeFailedBatch :: "batch \<Rightarrow> batch \<Rightarrow> batch" where
  "mergeFailedBatch pending [] = pending"
| "mergeFailedBatch pending ((path, item) # failed) =
     mergeFailedBatch (if map_of pending path = None then AList.update path item pending else pending) failed"

section \<open>Commands\<close>

text \<open>
  \<open>run\<close>: with logs the output goes to the standard output, otherwise it is captured and
  added to the error. The syncer always uses the runner that can be cancelled.
\<close>

definition syncerRun :: "'r env \<Rightarrow> syncer \<Rightarrow> string list \<Rightarrow> ('r, goerr option) prog" where
  "syncerRun E y args =
     (if y_logs y then do { r \<leftarrow> rcloneRun E True args; State_Monad.return (r_err r) }
      else runCaptured E True args)"

definition stateFilters :: "syncer \<Rightarrow> string list" where
  "stateFilters y = (case y_state y of None \<Rightarrow> [] | Some s \<Rightarrow> payloadFilters s)"

definition wrapWith :: "string \<Rightarrow> goerr option \<Rightarrow> goerr option" where
  "wrapWith message e = map_option (Wrapped message []) e"

definition fullSync :: "'r env \<Rightarrow> syncer \<Rightarrow> ('r, goerr option) prog" where
  "fullSync E y = do {
     e \<leftarrow> syncerRun E y (payloadSyncArgs (y_source y) (y_dest y) (stateFilters y) (y_excludes y));
     State_Monad.return (wrapWith ''full sync: %w'' e) }"

section \<open>The scopes of a batch\<close>

text \<open>The loop that promotes a path to its missing or replaced ancestor; the list holds the ancestors left.\<close>

fun promote :: "'r env \<Rightarrow> string \<Rightarrow> string \<Rightarrow> string list \<Rightarrow> ('r, goerr + string) prog" where
  "promote E source relative [] = State_Monad.return (Inr relative)"
| "promote E source relative (parent # parents) = do {
     info \<leftarrow> osLstat E (pathJoin [source, parent]);
     (case info of
        Inr isDir \<Rightarrow> if isDir then State_Monad.return (Inr relative) else promote E source parent parents
      | Inl err \<Rightarrow>
          if \<not> isNotExist err \<and> \<not> isNotDir err
          then State_Monad.return (Inl (Wrapped ''inspect changed ancestor %q: %w'' [Str parent] err))
          else promote E source parent parents) }"

text \<open>The first loop of \<open>reconciliationScopes\<close>; \<open>None\<close> is the early return of the whole tree.\<close>

fun normalizePaths :: "'r env \<Rightarrow> syncer \<Rightarrow> string list \<Rightarrow> ('r, goerr + string list option) prog" where
  "normalizePaths E y [] = State_Monad.return (Inr (Some []))"
| "normalizePaths E y (relative # rest) =
     (if relative = dot then State_Monad.return (Inr None)
      else if \<not> validChange relative
      then State_Monad.return (Inl (Errorf ''invalid changed path %q'' [Str relative]))
      else if representable relative = dot then State_Monad.return (Inr None)
      else do {
        p \<leftarrow> promote E (y_source y) (representable relative) (ancestors (representable relative));
        (case p of
           Inl err \<Rightarrow> State_Monad.return (Inl err)
         | Inr scope \<Rightarrow> do {
             r \<leftarrow> normalizePaths E y rest;
             State_Monad.return (case r of
                 Inl err \<Rightarrow> Inl err
               | Inr None \<Rightarrow> Inr None
               | Inr (Some scopes) \<Rightarrow> Inr (Some (if isMetadata (y_state y) scope then scopes else scope # scopes))) }) })"

definition reconciliationScopes :: "'r env \<Rightarrow> syncer \<Rightarrow> string list \<Rightarrow> ('r, goerr + string list) prog" where
  "reconciliationScopes E y paths = do {
     r \<leftarrow> normalizePaths E y paths;
     State_Monad.return (case r of
         Inl err \<Rightarrow> Inl err
       | Inr None \<Rightarrow> Inr [dot]
       | Inr (Some normalized) \<Rightarrow> Inr (collapseScopes normalized)) }"

section \<open>Transferring scopes\<close>

definition syncScopeGroup :: "'r env \<Rightarrow> syncer \<Rightarrow> string list \<Rightarrow> bool \<Rightarrow> ('r, goerr option) prog" where
  "syncScopeGroup E y scopes createDirectories = do {
     f \<leftarrow> createTemp E (tempDir E) ''rclonewatch-scopes-'';
     (case f of
        Inl err \<Rightarrow> State_Monad.return (Some err)
      | Inr name \<Rightarrow> do {
          res \<leftarrow> do {
            e \<leftarrow> fileWrite E name (scopeFile createDirectories scopes);
            (case e of Some err \<Rightarrow> State_Monad.return (Some err) | None \<Rightarrow> do {
            e \<leftarrow> fileOp E;
            (case e of Some err \<Rightarrow> State_Monad.return (Some err) | None \<Rightarrow> do {
            e \<leftarrow> syncerRun E y (payloadSyncArgs (y_source y) (y_dest y) (stateFilters y) (y_excludes y)
                   @ (if createDirectories then [] else [''--create-empty-src-dirs=false''])
                   @ [''--filter-from'', name]);
            State_Monad.return (wrapWith ''sync changed paths: %w'' e) }) }) };
          osRemove E name;
          State_Monad.return res }) }"

text \<open>The scopes that exist in the tree and those that are gone.\<close>

fun inspectScopes :: "'r env \<Rightarrow> syncer \<Rightarrow> string list \<Rightarrow> ('r, goerr + string list \<times> string list) prog" where
  "inspectScopes E y [] = State_Monad.return (Inr ([], []))"
| "inspectScopes E y (relative # rest) = do {
     info \<leftarrow> osLstat E (pathJoin [y_source y, relative]);
     (case info of
        Inr _ \<Rightarrow> do {
          r \<leftarrow> inspectScopes E y rest;
          State_Monad.return (map_sum id (\<lambda>(existing, deleted). (relative # existing, deleted)) r) }
      | Inl err \<Rightarrow>
          if isNotExist err \<or> isNotDir err then do {
            r \<leftarrow> inspectScopes E y rest;
            State_Monad.return (map_sum id (\<lambda>(existing, deleted). (existing, relative # deleted)) r) }
          else State_Monad.return (Inl (Wrapped ''inspect changed path %q: %w'' [Str relative] err))) }"

definition syncScopes :: "'r env \<Rightarrow> syncer \<Rightarrow> string list \<Rightarrow> ('r, goerr option) prog" where
  "syncScopes E y scopes = do {
     r \<leftarrow> inspectScopes E y scopes;
     (case r of
        Inl err \<Rightarrow> State_Monad.return (Some err)
      | Inr (existing, deleted) \<Rightarrow> do {
          e \<leftarrow> (if deleted \<noteq> [] then syncScopeGroup E y deleted False else State_Monad.return None);
          (case e of
             Some err \<Rightarrow> State_Monad.return (Some err)
           | None \<Rightarrow> if existing \<noteq> [] then syncScopeGroup E y existing True else State_Monad.return None) }) }"

section \<open>Sync\<close>

definition changedPaths :: "syncer \<Rightarrow> batch \<Rightarrow> string list" where
  "changedPaths y batch = filter (\<lambda>p. \<not> isMetadata (y_state y) p) (map fst batch)"

text \<open>The state that is announced and completed; \<open>trackState\<close> is only set with a state.\<close>

definition tracked :: "syncer \<Rightarrow> syncConfig option" where
  "tracked y = (if y_trackState y then y_state y else None)"

definition transferScopes :: "'r env \<Rightarrow> syncer \<Rightarrow> string list \<Rightarrow> ('r, goerr option) prog" where
  "transferScopes E y paths = (if hd paths = dot then fullSync E y else syncScopes E y paths)"

text \<open>
  \<open>Sync\<close>, with what the refresh loop does in the meantime: \<open>between\<close> once the change has been
  announced, \<open>during\<close> while the scopes are transferred. The announcement and the completion hold
  \<open>updateMu\<close>, so that a round of the refresh loop comes before, between or after them.
\<close>

definition syncWith ::
    "'r env \<Rightarrow> syncer \<Rightarrow> ('r, unit) prog \<Rightarrow> ('r, unit) prog \<Rightarrow> batch \<Rightarrow> ('r, goerr option) prog" where
  "syncWith E y between during batch =
     (if batch = [] then State_Monad.return None
      else do {
        r \<leftarrow> reconciliationScopes E y (changedPaths y batch);
        (case r of Inl err \<Rightarrow> State_Monad.return (Some err) | Inr paths \<Rightarrow>
        if paths = [] then State_Monad.return None
        else do {
          e \<leftarrow> (case tracked y of
                 None \<Rightarrow> State_Monad.return None
               | Some s \<Rightarrow> do { e \<leftarrow> beforeRemoteChange E s; State_Monad.return (wrapWith ''advance generation: %w'' e) });
          (case e of Some err \<Rightarrow> State_Monad.return (Some err) | None \<Rightarrow> do {
          between;
          e \<leftarrow> transferScopes E y paths;
          during;
          (case e of Some err \<Rightarrow> State_Monad.return (Some err) | None \<Rightarrow>
          (case tracked y of None \<Rightarrow> State_Monad.return None | Some s \<Rightarrow> afterRemoteChange E s)) }) }) })"

section \<open>The contract of the pending map\<close>

text \<open>
  What the main loop relies on: a later event for a path replaces an earlier one, and a
  failed batch comes back only where no newer event arrived. Then an attempt that fails is
  as if it had never been started.
\<close>

locale pending_map =
  fixes lookup :: "'q \<Rightarrow> string \<Rightarrow> change option"
    and add :: "'q \<Rightarrow> change \<Rightarrow> 'q"
    and merge :: "'q \<Rightarrow> 'q \<Rightarrow> 'q"
    and none :: 'q
  assumes lookup_none: "lookup none = Map.empty"
    and lookup_add: "lookup (add q x) = (lookup q)(ch_path x \<mapsto> x)"
    and lookup_merge: "lookup (merge q failed) = lookup failed ++ lookup q"
begin

lemma lookup_foldl: "lookup (foldl add q xs) = lookup q ++ map_of (rev (map (\<lambda>x. (ch_path x, x)) xs))"
  by (induction xs rule: rev_induct) (auto simp: lookup_add map_add_def fun_eq_iff)

lemma retry: "lookup (merge (foldl add none xs) failed) = lookup (foldl add failed xs)"
  by (simp add: lookup_merge lookup_foldl lookup_none)

lemma nothing_lost: "dom (lookup (merge q failed)) = dom (lookup q) \<union> dom (lookup failed)"
  by (auto simp: lookup_merge)

end

lemma map_of_addPending: "map_of (addPending pending item) = (map_of pending)(ch_path item \<mapsto> item)"
  by (simp add: addPending_def update_conv')

lemma map_of_mergeFailedBatch: "map_of (mergeFailedBatch pending failed) = map_of failed ++ map_of pending"
proof (induction pending failed rule: mergeFailedBatch.induct)
  case (2 pending path item failed)
  then show ?case
    by (auto simp: map_add_def fun_eq_iff update_conv' split: option.split if_splits)
qed simp

interpretation pending: pending_map map_of addPending mergeFailedBatch "[]"
  by unfold_locales (simp_all add: map_of_addPending map_of_mergeFailedBatch)

end
