(* ===== verification/SyncerSafety.thy ===== *)
theory SyncerSafety
  imports Syncer
begin

text \<open>
  What \<open>Sync\<close> guarantees. Its scopes are a function of the tree and the set of changed
  paths, they cover every change, none lies below another and each starts in an existing
  directory. With a tracked state no payload is transferred before the remote state carries
  the next generation marked as incomplete, and success completes that generation.
\<close>

section \<open>The scopes on a tree\<close>

definition dirAt :: "disk \<Rightarrow> string \<Rightarrow> bool" where
  "dirAt d p = (\<not> below d p \<and> d p = Some Dir)"

fun promoteOn :: "disk \<Rightarrow> string \<Rightarrow> string \<Rightarrow> string list \<Rightarrow> string" where
  "promoteOn d source relative [] = relative"
| "promoteOn d source relative (parent # parents) =
     (if dirAt d (pathJoin [source, parent]) then relative else promoteOn d source parent parents)"

definition scopeOn :: "disk \<Rightarrow> string \<Rightarrow> string \<Rightarrow> string" where
  "scopeOn d source p = promoteOn d source (representable p) (ancestors (representable p))"

definition scopesOn :: "disk \<Rightarrow> syncer \<Rightarrow> string list \<Rightarrow> string list" where
  "scopesOn d y paths =
     (if \<exists>p \<in> set paths. representable p = dot then [dot]
      else collapseScopes (filter (\<lambda>q. \<not> isMetadata (y_state y) q) (map (scopeOn d (y_source y)) paths)))"

definition still :: "'r session \<Rightarrow> 'r session \<Rightarrow> bool" where
  "still w t = (quiet w t \<and> w_disk t = w_disk w)"

lemma still_refl [simp]: "still w w"
  by (simp add: still_def quiet_def framed_def later_def)

lemma still_trans: "still w v \<Longrightarrow> still v t \<Longrightarrow> still w t"
  by (auto simp: still_def intro: quiet_trans)

definition looked :: "string \<Rightarrow> 'r session \<Rightarrow> goerr + bool \<Rightarrow> 'r session \<Rightarrow> bool" where
  "looked p w r t = (still w t \<and> (case r of Inr isDir \<Rightarrow> isDir = dirAt (w_disk w) p
     | Inl err \<Rightarrow> isNotExist err \<or> isNotDir err \<longrightarrow> \<not> dirAt (w_disk w) p))"

lemma osLstat_wp: "wp (osLstat E p) (looked p w) w"
  by (auto simp: osLstat_def osFails_def tick_def wp_simps looked_def still_def quiet_def framed_def later_def
      dirAt_def split: option.split node.split)

lemma wp_look:
  assumes "still w v" and "\<And>err t. still w t \<Longrightarrow> isNotExist err \<or> isNotDir err \<Longrightarrow> \<not> dirAt (w_disk w) p \<Longrightarrow> wp (f (Inl err)) Q t"
    and "\<And>err t. still w t \<Longrightarrow> \<not> isNotExist err \<Longrightarrow> \<not> isNotDir err \<Longrightarrow> wp (f (Inl err)) Q t"
    and "\<And>t. still w t \<Longrightarrow> wp (f (Inr (dirAt (w_disk w) p))) Q t"
  shows "wp (osLstat E p) (\<lambda>r. wp (f r) Q) v"
proof (rule wp_mono [OF osLstat_wp])
  fix r t assume l: "looked p v r t"
  then have "still v t" by (simp add: looked_def)
  then have t: "still w t" and d: "w_disk v = w_disk w" using still_trans [OF assms(1)] assms(1) by (auto simp: still_def)
  show "wp (f r) Q t"
    using l assms(2-4) [OF t] d by (cases r) (auto simp: looked_def)
qed

lemma promote_wp:
  assumes "still w v"
  shows "wp (promote E source relative parents) (\<lambda>r t. still w t \<and>
    (\<forall>q. r = Inr q \<longrightarrow> q = promoteOn (w_disk w) source relative parents)) v"
  using assms
proof (induction parents arbitrary: relative v)
  case (Cons parent parents)
  show ?case
    unfolding promote.simps wp_bind
    by (rule wp_look [OF Cons.prems]) (auto simp: wp_simps Cons.IH)
qed (simp add: wp_simps)

lemma representable_dot [simp]: "representable dot = dot"
  by (simp add: representable_def)

lemma normalizePaths_wp:
  assumes "still w v"
  shows "wp (normalizePaths E y paths) (\<lambda>r t. still w t \<and> (\<forall>x. r = Inr x \<longrightarrow>
    (case x of None \<Rightarrow> \<exists>p \<in> set paths. representable p = dot
     | Some scopes \<Rightarrow> (\<forall>p \<in> set paths. representable p \<noteq> dot \<and> validChange p) \<and>
         scopes = filter (\<lambda>q. \<not> isMetadata (y_state y) q) (map (scopeOn (w_disk w) (y_source y)) paths)))) v"
  using assms
proof (induction paths arbitrary: v)
  case (Cons p paths)
  show ?case
  proof (cases "p = dot \<or> \<not> validChange p \<or> representable p = dot")
    case True
    then show ?thesis using Cons.prems by (auto simp: wp_simps)
  next
    case False
    have rest: "wp (normalizePaths E y paths) (\<lambda>r. wp (State_Monad.return (case r of
                 Inl err \<Rightarrow> Inl err
               | Inr None \<Rightarrow> Inr None
               | Inr (Some scopes) \<Rightarrow> Inr (Some (if isMetadata (y_state y) q then scopes else q # scopes))))
          (\<lambda>r t. still w t \<and> (\<forall>x. r = Inr x \<longrightarrow>
    (case x of None \<Rightarrow> \<exists>p \<in> set (p # paths). representable p = dot
     | Some scopes \<Rightarrow> (\<forall>p \<in> set (p # paths). representable p \<noteq> dot \<and> validChange p) \<and>
         scopes = filter (\<lambda>q. \<not> isMetadata (y_state y) q) (map (scopeOn (w_disk w) (y_source y)) (p # paths)))))) t"
      if "still w t" "q = scopeOn (w_disk w) (y_source y) p" for q t
      by (rule wp_mono [OF Cons.IH [OF that(1)]])
        (use that False in \<open>auto simp: wp_simps split: sum.splits option.splits\<close>)
    show ?thesis
      using False
      by (simp only: normalizePaths.simps if_False wp_bind de_Morgan_disj not_not simp_thms)
        (rule wp_mono [OF promote_wp [OF Cons.prems]],
          auto simp: wp_simps scopeOn_def [symmetric] split: sum.splits intro!: rest [unfolded wp_simps])
  qed
qed (simp add: wp_simps)

lemma reconciliationScopes_wp:
  "wp (reconciliationScopes E y paths) (\<lambda>r t. still w t \<and>
     (\<forall>scopes. r = Inr scopes \<longrightarrow> scopes = scopesOn (w_disk w) y paths \<and>
        (scopes \<noteq> [dot] \<longrightarrow> (\<forall>p \<in> set paths. validChange p)))) w"
  unfolding reconciliationScopes_def wp_bind
  by (rule wp_mono [OF normalizePaths_wp [OF still_refl]])
    (auto simp: wp_simps scopesOn_def split: sum.splits option.splits)


section \<open>What the scopes are\<close>

lemma scopesOn_perm:
  assumes "mset paths = mset paths'"
  shows "scopesOn d y paths = scopesOn d y paths'"
proof -
  have "set paths = set paths'" using assms mset_eq_setD by blast
  moreover have "sort (filter P (map f paths)) = sort (filter P (map f paths'))" for P and f :: "string \<Rightarrow> string"
    using assms by (metis mset_filter mset_map sorted_list_of_multiset_mset)
  ultimately show ?thesis by (simp add: scopesOn_def collapseScopes_def)
qed

lemma ancestors_Cons: "ancestors p = q # qs \<Longrightarrow> q = pathDir p \<and> qs = ancestors q"
  by (subst (asm) ancestors.simps) (auto simp: Let_def split: if_splits)

lemma promoteOn_parent:
  assumes "ancestors p = ps" "promoteOn d source p ps = q"
  shows "ancestors q = [] \<or> dirAt d (pathJoin [source, hd (ancestors q)])"
  using assms
proof (induction ps arbitrary: p)
  case (Cons parent parents)
  then show ?case using ancestors_Cons [of p parent parents] by (auto split: if_splits)
qed auto

lemma promoteOn_in: "promoteOn d source p ps \<in> insert p (set ps)"
  by (induction d source p ps rule: promoteOn.induct) auto

lemma ancestors_not_dot: "q \<in> set (ancestors p) \<Longrightarrow> q \<noteq> dot"
proof (induction p rule: ancestors.induct)
  case (1 p)
  show ?case
  proof (cases "pathDir p = dot \<or> length p \<le> length (pathDir p)")
    case True
    then show ?thesis using 1(2) by (subst (asm) ancestors.simps) (auto simp: Let_def)
  next
    case False
    then have "ancestors p = pathDir p # ancestors (pathDir p)" by (subst ancestors.simps) (simp add: Let_def)
    then show ?thesis using 1(2) 1(1) [OF refl False] False by auto
  qed
qed

text \<open>A scope covers a path when it is the whole tree, the path or one of its ancestors.\<close>

definition covers :: "string \<Rightarrow> string \<Rightarrow> bool" where
  "covers q p = (q = dot \<or> q = p \<or> q \<in> set (ancestors p))"

lemma covers_rel:
  "relPath cs \<Longrightarrow> relPath ds \<Longrightarrow> covers (rel ds) (rel cs) \<longleftrightarrow> prefix ds cs"
  by (auto simp: covers_def set_ancestors_rel rel_dot rel_inject strict_prefix_def) (metis relPath_append prefix_def rel_inject)+

lemma ancestors_valid:
  assumes "validChange p" "q \<in> set (ancestors p)"
  shows "validChange q"
proof -
  obtain cs where cs: "relPath cs" "p = rel cs" using validChange_comps [OF assms(1)] by blast
  then obtain ds where "q = rel ds" "strict_prefix ds cs" using assms(2) by (auto simp: set_ancestors_rel)
  then show ?thesis using cs by (auto simp: strict_prefix_def prefix_def intro: validChange_rel)
qed

lemma covers_trans:
  assumes "validChange p" "covers q p" "covers r q"
  shows "covers r p"
proof -
  have valid: "validChange x \<or> x = dot" if "covers x p" for x
    using that assms(1) ancestors_valid by (auto simp: covers_def)
  have "validChange q \<or> q = dot" using valid assms(2) by blast
  moreover have "validChange r \<or> r = dot"
    using assms(3) calculation ancestors_valid [of q r] by (auto simp: covers_def)
  moreover have "\<exists>ds. relPath ds \<and> x = rel ds" if "validChange x \<or> x = dot" for x
    using that validChange_comps [of x] by (auto simp: relPath_def unComps_def intro: exI [of _ "[]"])
  ultimately obtain cs ds es where "relPath cs" "p = rel cs" "relPath ds" "q = rel ds" "relPath es" "r = rel es"
    using assms(1) by metis
  then show ?thesis using assms(2,3) prefix_order.trans by (simp add: covers_rel)
qed

lemma representable_covers: "covers (representable p) p"
  by (auto simp: representable_def covers_def find_Some_iff in_set_conv_nth split: option.split)

lemma representable_valid: "representable p = dot \<or> validString (representable p)"
  by (auto simp: representable_def find_Some_iff split: option.split)

lemma scopeOn_covers: "validChange p \<Longrightarrow> covers (scopeOn d source p) p"
proof -
  assume p: "validChange p"
  have "covers (scopeOn d source p) (representable p)"
    using promoteOn_in [of d source "representable p" "ancestors (representable p)"] by (auto simp: scopeOn_def covers_def)
  then show ?thesis using covers_trans [OF p representable_covers] by blast
qed

lemma covers_valid: "validChange p \<Longrightarrow> covers q p \<Longrightarrow> q \<noteq> dot \<Longrightarrow> validChange q"
  using ancestors_valid by (auto simp: covers_def)

text \<open>The four facts about the scopes of valid paths.\<close>

definition goodScopes :: "disk \<Rightarrow> syncer \<Rightarrow> string list \<Rightarrow> string list \<Rightarrow> bool" where
  "goodScopes d y paths scopes = (distinct scopes \<and>
     (\<forall>p \<in> set scopes. \<forall>q \<in> set scopes. q \<notin> set (ancestors p)) \<and>
     (\<forall>q \<in> set scopes. \<not> isMetadata (y_state y) q \<and>
        (ancestors q = [] \<or> dirAt d (pathJoin [y_source y, hd (ancestors q)]))) \<and>
     (\<forall>p \<in> set paths. isMetadata (y_state y) (scopeOn d (y_source y) p) \<or> (\<exists>q \<in> set scopes. covers q p)))"

lemma scopesOn_good:
  assumes "\<forall>p \<in> set paths. validChange p" "\<forall>p \<in> set paths. representable p \<noteq> dot"
    and "scopes = scopesOn d y paths"
  shows "goodScopes d y paths scopes"
proof -
  define ns where "ns = filter (\<lambda>q. \<not> isMetadata (y_state y) q) (map (scopeOn d (y_source y)) paths)"
  have sc: "scopes = collapse [] (sort ns)" using assms by (auto simp: scopesOn_def ns_def collapseScopes_def)
  have sub: "set scopes \<subseteq> set ns" using set_collapse [of "[]" "sort ns"] sc by simp
  have dots: "scopeOn d (y_source y) p \<noteq> dot" if "p \<in> set paths" for p
    using that assms(2) promoteOn_in [of d "y_source y" "representable p" "ancestors (representable p)"]
      ancestors_not_dot [of _ "representable p"] by (auto simp: scopeOn_def)
  have valid: "\<forall>q \<in> set (sort ns). validChange q"
    using assms(1) scopeOn_covers covers_valid dots by (fastforce simp: ns_def)
  have cov: "\<exists>q \<in> set scopes. covers q p"
    if p: "p \<in> set paths" "\<not> isMetadata (y_state y) (scopeOn d (y_source y) p)" for p
  proof -
    have "scopeOn d (y_source y) p \<in> set (sort ns)" using p by (simp add: ns_def)
    from collapse_covers [OF this, of "[]"]
    obtain q where "q \<in> set scopes" "covers q (scopeOn d (y_source y) p)" using sc by (auto simp: covers_def)
    then show ?thesis using covers_trans scopeOn_covers assms(1) p(1) by blast
  qed
  have dirs: "ancestors q = [] \<or> dirAt d (pathJoin [y_source y, hd (ancestors q)])" if "q \<in> set ns" for q
    using that promoteOn_parent [OF refl] by (auto simp: ns_def scopeOn_def)
  have chain: "q \<notin> set (ancestors p)" if "p \<in> set scopes" "q \<in> set scopes" for p q
    using collapse_antichain [OF sorted_sort valid, of p "[]" q] that sc by simp
  have meta: "\<not> isMetadata (y_state y) q" if "q \<in> set ns" for q using that by (simp add: ns_def)
  have "distinct scopes" using collapse_distinct sc by simp
  then show ?thesis
    unfolding goodScopes_def using chain sub dirs meta cov by blast
qed

section \<open>The order of an attempt\<close>

text \<open>A transfer of the syncer carries the protection of the state files and the user's exclusions.\<close>

definition isSyncTo :: "syncer \<Rightarrow> cmd \<Rightarrow> bool" where
  "isSyncTo y c = (\<exists>rest. c_args c = payloadSyncArgs (y_source y) (y_dest y) (stateFilters y) (y_excludes y) @ rest)"

lemma syncerRun_effects [intro!]:
  "state_io_rel framed (syncerRun E y args)" "state_io_rel later (syncerRun E y args)"
  unfolding syncerRun_def runCaptured_def by (auto intro!: framed.rules later.rules simp: Let_def)

lemma syncerRun_adds:
  "(\<And>c. c_args c = args @ [noCheckBucket] \<Longrightarrow> P c) \<Longrightarrow> state_io_rel (adds P) (syncerRun E y args)"
  unfolding syncerRun_def runCaptured_def by (auto intro!: adds.rules rcloneRun_adds simp: Let_def)

lemma group_effects [intro!]:
  "state_io_rel framed (syncScopeGroup E y scopes b)" "state_io_rel later (syncScopeGroup E y scopes b)"
  "state_io_rel (adds (isSyncTo y)) (syncScopeGroup E y scopes b)"
  "state_io_rel framed (fullSync E y)" "state_io_rel later (fullSync E y)" "state_io_rel (adds (isSyncTo y)) (fullSync E y)"
  unfolding syncScopeGroup_def fullSync_def
  by (auto intro!: framed.rules later.rules adds.rules syncerRun_adds simp: isSyncTo_def)

lemma inspect_effects [intro!]:
  "state_io_rel framed (inspectScopes E y scopes)" "state_io_rel later (inspectScopes E y scopes)"
  "state_io_rel (adds P) (inspectScopes E y scopes)"
  by (induction scopes) (auto intro!: framed.rules later.rules adds.rules)

lemma transferScopes_effects [intro!]:
  "state_io_rel framed (transferScopes E y paths)" "state_io_rel later (transferScopes E y paths)"
  "state_io_rel (adds (isSyncTo y)) (transferScopes E y paths)"
  unfolding transferScopes_def syncScopes_def
  by (auto intro!: framed.rules later.rules adds.rules)

lemma adds_mono: "adds P w t \<Longrightarrow> (\<And>c. P c \<Longrightarrow> Q c) \<Longrightarrow> adds Q w t"
  by (auto simp: adds_def)

lemma adds_weaken: "state_io_rel (adds P) m \<Longrightarrow> (\<And>c. P c \<Longrightarrow> Q c) \<Longrightarrow> state_io_rel (adds Q) m"
  by (auto simp: state_io_rel_def intro: adds_mono)

lemma state_access_not_transfer [intro!]:
  "state_io_rel (adds (\<lambda>c. \<not> isTransfer c)) (readRemote E s)"
  "state_io_rel (adds (\<lambda>c. \<not> isTransfer c)) (writeRemote E s data etag)"
  "state_io_rel (adds (\<lambda>c. \<not> isTransfer c)) (replaceOwnedRemote E s p c)"
  "state_io_rel (adds (\<lambda>c. \<not> isTransfer c)) (beforeRemoteChange E s)"
  "state_io_rel (adds (\<lambda>c. \<not> isTransfer c)) (afterRemoteChange E s)"
proof -
  have clear: "state_io_rel (adds (\<lambda>c. \<not> isTransfer c)) (modify (\<lambda>w :: 'a session. w\<lparr>s_pending := p, s_pendingExpiry := q\<rparr>))" for p q
    by (rule adds.modify_rule) (simp add: adds_def)
  have copy: "state_io_rel (adds (\<lambda>c. \<not> isTransfer c)) (stateRun E s (copyArgs s name etag))" for name etag E s
    by (rule runner_adds) (simp add: copyArgs_def isTransfer_def)
  show read [intro!]: "state_io_rel (adds (\<lambda>c. \<not> isTransfer c)) (readRemote E s)"
    by (rule adds_weaken [OF readRemote_effects(3)]) (use transfer_not_read in blast)
  show wr [intro!]: "state_io_rel (adds (\<lambda>c. \<not> isTransfer c)) (writeRemote E s data etag)" for data etag E s
    unfolding writeRemote_def by (auto intro!: adds.rules copy)
  show rep [intro!]: "state_io_rel (adds (\<lambda>c. \<not> isTransfer c)) (replaceOwnedRemote E s p c)" for p c
    unfolding replaceOwnedRemote_def verifyReplaced_def Let_def
    by (auto intro!: adds.rules clear)
  show "state_io_rel (adds (\<lambda>c. \<not> isTransfer c)) (beforeRemoteChange E s)"
    "state_io_rel (adds (\<lambda>c. \<not> isTransfer c)) (afterRemoteChange E s)"
    unfolding beforeRemoteChange_def afterRemoteChange_def Let_def
    by (auto intro!: adds.rules)
qed

text \<open>
  Each added transfer comes after a write of the state file, with a success, of a state that
  is marked as incomplete.
\<close>

definition marked :: "syncConfig \<Rightarrow> cmd list \<Rightarrow> bool" where
  "marked s cmds = (\<exists>d \<in> set cmds. r_err (c_result d) = None \<and> (\<exists>data etag. writeBy s d data etag \<and> Syncing data))"

definition ordered :: "syncConfig \<Rightarrow> syncer \<Rightarrow> cmd \<Rightarrow> cmd list \<Rightarrow> bool" where
  "ordered s y c older = (isTransfer c \<longrightarrow> isSyncTo y c \<and> marked s older)"

definition finished :: "syncConfig \<Rightarrow> remoteSyncFile \<Rightarrow> remoteSyncFile \<Rightarrow> bool" where
  "finished s before after = (\<exists>between. announced s before between \<and> completed s between after)"

text \<open>How an attempt ends: nothing to do, completed, or failed before or after the announcement.\<close>

definition synced :: "syncConfig \<Rightarrow> 'r session \<Rightarrow> goerr option \<Rightarrow> 'r session \<Rightarrow> bool" where
  "synced s w r t = (case r of
      None \<Rightarrow> quiet w t \<or> finished s (s_remote w) (s_remote t)
    | Some err \<Rightarrow> s_remote t = s_remote w \<or> announced s (s_remote w) (s_remote t) \<or>
        finished s (s_remote w) (s_remote t))"

lemma published_marked: "published s w t \<Longrightarrow> marked s (w_cmds t)"
  by (fastforce simp: published_def replaced_def replaceOk_def marked_def nextCandidate_def)

lemma not_transfer_ordered: "adds (\<lambda>c. \<not> isTransfer c) w t \<Longrightarrow> addsAfter (ordered s y) w t"
  by (erule adds_addsAfter) (simp add: ordered_def)

lemma transfers_ordered:
  assumes "adds (isSyncTo y) u t" "marked s (w_cmds u)"
  shows "addsAfter (ordered s y) u t"
proof -
  obtain xs where xs: "w_cmds t = xs @ w_cmds u" "\<forall>c \<in> set xs. isSyncTo y c" using assms(1) by (auto simp: adds_def)
  have "ordered s y d (zs @ w_cmds u)" if "xs = ys @ d # zs" for ys d zs
    using that xs(2) assms(2) by (auto simp: ordered_def marked_def)
  then show ?thesis using xs(1) by (auto simp: addsAfter_def)
qed

lemma quiet_ordered: "quiet w t \<Longrightarrow> addsAfter (ordered s y) w t"
  by (rule not_transfer_ordered) (simp add: quiet_def adds_def)

text \<open>
  What the refresh loop may do to the remembered state while an attempt runs: it renews the
  lock and runs no transfer.
\<close>

definition sameState :: "syncConfig \<Rightarrow> remoteSyncFile \<Rightarrow> remoteSyncFile \<Rightarrow> bool" where
  "sameState s r u = (RepositoryID (rf_data u) = RepositoryID (rf_data r) \<and> Generation (rf_data u) = Generation (rf_data r) \<and>
     SyncID (rf_data u) = SyncID (rf_data r) \<and> Syncing (rf_data u) = Syncing (rf_data r) \<and>
     (ownedBy r (cf_owner s) \<longrightarrow> ownedBy u (cf_owner s)))"

definition refreshed :: "syncConfig \<Rightarrow> 'r session \<Rightarrow> 'r session \<Rightarrow> bool" where
  "refreshed s w t = (adds (\<lambda>c. \<not> isTransfer c) w t \<and> sameState s (s_remote w) (s_remote t))"

interpretation refreshed: effect "refreshed s" for s
  using adds.R_refl adds.R_trans by unfold_locales (auto simp: refreshed_def sameState_def)

lemma rel_wp: "(\<And>w. wp m (\<lambda>_ t. R w t) w) \<Longrightarrow> state_io_rel R m"
  by (simp add: state_io_rel_def wp_def case_prod_beta)

lemma wp_framed:
  assumes "state_io_rel framed m" "state_io_rel (adds P) m"
  shows "wp m (\<lambda>_ t. framed w t \<and> adds P w t) w"
  unfolding wp_conj by (intro conjI framed.wp_effect adds.wp_effect assms)

lemma refreshed_framed:
  assumes "state_io_rel framed m" "state_io_rel (adds (\<lambda>c. \<not> isTransfer c)) m"
  shows "state_io_rel (refreshed s) m"
  by (rule rel_wp, rule wp_mono [OF wp_framed [OF assms]]) (auto simp: refreshed_def sameState_def framed_session)

lemma refreshed_then: "refreshed s w v \<Longrightarrow> state_io_rel (refreshed s) m \<Longrightarrow> wp m (\<lambda>_. refreshed s w) v"
  by (rule wp_mono [OF refreshed.wp_effect]) (auto intro: refreshed.R_trans)

lemma refreshed_ops [intro!]:
  "state_io_rel (refreshed s) (startRefreshWatchdog E s')" "state_io_rel (refreshed s) (refreshDelay E s')"
  "state_io_rel (refreshed s) (refreshRetryDelay E s')" "state_io_rel (refreshed s) (refreshDeadlinePassed E s')"
  "state_io_rel (refreshed s) (failRefresh s' err)" "state_io_rel (refreshed s) (newLock E s')"
  "state_io_rel (refreshed s) (stopWatchdog E)"
  by (auto intro!: refreshed_framed)

lemma renewed_lock:
  assumes "s_remote v = r" "candidate = (rf_data r)\<lparr>Lock := Some lock\<rparr>"
  shows "wp (replaceOwnedRemote E s r candidate) (\<lambda>_. refreshed s v) v"
proof (rule wp_mono [where Q = "\<lambda>e t. replaced s r candidate v e t \<and> adds (\<lambda>c. \<not> isTransfer c) v t"])
  show "wp (replaceOwnedRemote E s r candidate) (\<lambda>e t. replaced s r candidate v e t \<and> adds (\<lambda>c. \<not> isTransfer c) v t) v"
    unfolding wp_conj by (intro conjI replaceOwnedRemote_wp adds.wp_effect state_access_not_transfer)
  fix e t assume t: "replaced s r candidate v e t \<and> adds (\<lambda>c. \<not> isTransfer c) v t"
  have locked: "Lock (tried s r candidate v latest) \<noteq> None" if "mayReplace s r (s_pending v) latest" for latest
    using that assms(2) by (auto simp: tried_def effectiveCandidate_def mayReplace_def ownedBy_def split: option.splits)
  show "refreshed s v t"
  proof (cases e)
    case None
    then show ?thesis
      using t replaced_success [of s r candidate v t] locked assms
      by (auto simp: refreshed_def sameState_def replaced_def replaceOk_def)
  next
    case (Some err)
    then show ?thesis using t replaced_failure [of s r candidate v err t] by (simp add: refreshed_def sameState_def)
  qed
qed

lemma refreshRound_refreshed:
  assumes "state_io_rel (refreshed s) waiting"
  shows "state_io_rel (refreshed s) (refreshRound E s waiting)"
proof -
  have renew: "state_io_rel (refreshed s) (do {
       remote \<leftarrow> gets s_remote;
       lock \<leftarrow> newLock E s;
       startRefreshWatchdog E s;
       e \<leftarrow> replaceOwnedRemote E s remote ((rf_data remote)\<lparr>Lock := Some lock\<rparr>);
       f e })" if f: "\<And>e. state_io_rel (refreshed s) (f e)" for f :: "goerr option \<Rightarrow> ('a, duration + goerr) prog"
  proof (rule rel_wp, unfold wp_bind wp_gets)
    fix w :: "'a session"
    have rest: "wp (replaceOwnedRemote E s (s_remote w) ((rf_data (s_remote w))\<lparr>Lock := Some lock\<rparr>))
        (\<lambda>e. wp (f e) (\<lambda>_. refreshed s w)) v" if "refreshed s w v" "s_remote v = s_remote w" for lock v
      by (rule wp_mono [OF renewed_lock [OF that(2) refl]])
        (auto intro: refreshed_then [OF refreshed.R_trans [OF that(1)] f])
    have still: "refreshed s w v \<and> s_remote v = s_remote w"
      if "refreshed s w u" "s_remote u = s_remote w" "framed u v \<and> adds (\<lambda>c. \<not> isTransfer c) u v" for u v
    proof -
      have "s_remote v = s_remote u" using that(3) framed_session(1) [of u v] by blast
      moreover have "adds (\<lambda>c. \<not> isTransfer c) w v" using that(1,3) adds.R_trans unfolding refreshed_def by blast
      ultimately show ?thesis using that(2) by (simp add: refreshed_def sameState_def)
    qed
    have start: "wp (startRefreshWatchdog E s) (\<lambda>_. wp (replaceOwnedRemote E s (s_remote w)
        ((rf_data (s_remote w))\<lparr>Lock := Some lock\<rparr>)) (\<lambda>e. wp (f e) (\<lambda>_. refreshed s w))) v"
      if v: "refreshed s w v" "s_remote v = s_remote w" for lock v
    proof (rule wp_mono [OF wp_framed [OF refresh_ops(7,1)]])
      fix r u assume "framed v u \<and> adds (\<lambda>c. \<not> isTransfer c) v u"
      from still [OF v this] show "wp (replaceOwnedRemote E s (s_remote w)
        ((rf_data (s_remote w))\<lparr>Lock := Some lock\<rparr>)) (\<lambda>e. wp (f e) (\<lambda>_. refreshed s w)) u" by (intro rest) blast+
    qed
    show "wp (newLock E s) (\<lambda>lock. wp (startRefreshWatchdog E s) (\<lambda>_. wp (replaceOwnedRemote E s (s_remote w)
        ((rf_data (s_remote w))\<lparr>Lock := Some lock\<rparr>)) (\<lambda>e. wp (f e) (\<lambda>_. refreshed s w)))) w"
    proof (rule wp_mono [OF wp_framed [OF refresh_ops(12,6)]])
      fix lock u assume "framed w u \<and> adds (\<lambda>c. \<not> isTransfer c) w u"
      from still [OF refreshed.R_refl refl this] show "wp (startRefreshWatchdog E s) (\<lambda>_. wp (replaceOwnedRemote E s (s_remote w)
        ((rf_data (s_remote w))\<lparr>Lock := Some lock\<rparr>)) (\<lambda>e. wp (f e) (\<lambda>_. refreshed s w))) u" by (intro start) blast+
    qed
  qed
  show ?thesis
    unfolding refreshRound_def
    by (intro refreshed.rules refreshed_ops assms renew)
qed

section \<open>An attempt\<close>

lemma announced_sameState: "announced s r u \<Longrightarrow> sameState s u v \<Longrightarrow> announced s r v"
  by (simp add: announced_def sameState_def)

lemma marked_later: "marked s cmds \<Longrightarrow> marked s (xs @ cmds)"
  by (auto simp: marked_def)

text \<open>Announced and in order: what holds from the announcement to the completion.\<close>

definition underway :: "syncConfig \<Rightarrow> syncer \<Rightarrow> 'r session \<Rightarrow> 'r session \<Rightarrow> bool" where
  "underway s y w t = (addsAfter (ordered s y) w t \<and> marked s (w_cmds t) \<and> announced s (s_remote w) (s_remote t))"

lemma underway_refreshed:
  assumes "underway s y w u" "refreshed s u t"
  shows "underway s y w t"
proof -
  obtain xs where "w_cmds t = xs @ w_cmds u" using assms(2) by (auto simp: refreshed_def adds_def)
  moreover have "addsAfter (ordered s y) w t"
    using assms addsAfter.R_trans [of "ordered s y" w u t] not_transfer_ordered [of u t] by (auto simp: underway_def refreshed_def)
  ultimately show ?thesis
    using assms announced_sameState marked_later by (fastforce simp: underway_def refreshed_def)
qed

lemma underway_transfers:
  assumes "underway s y w u" "framed u t" "adds (isSyncTo y) u t"
  shows "underway s y w t"
proof -
  obtain xs where "w_cmds t = xs @ w_cmds u" using assms(3) by (auto simp: adds_def)
  moreover have "addsAfter (ordered s y) w t"
    using assms addsAfter.R_trans [of "ordered s y" w u t] transfers_ordered [of y u t s] by (auto simp: underway_def)
  ultimately show ?thesis
    using assms framed_session(1) [of u t] marked_later by (simp add: underway_def)
qed

lemma completion_wp:
  assumes u: "underway s y w u"
  shows "wp (afterRemoteChange E s) (\<lambda>r t. addsAfter (ordered s y) w t \<and> synced s w r t) u"
proof (rule wp_mono [where Q = "\<lambda>r t. adds (\<lambda>c. \<not> isTransfer c) u t \<and> (completed s (s_remote u) (s_remote t) \<or>
     (r \<noteq> None \<and> s_remote t = s_remote u \<and> s_lockExpiry t = s_lockExpiry u))"])
  show "wp (afterRemoteChange E s) (\<lambda>r t. adds (\<lambda>c. \<not> isTransfer c) u t \<and> (completed s (s_remote u) (s_remote t) \<or>
       (r \<noteq> None \<and> s_remote t = s_remote u \<and> s_lockExpiry t = s_lockExpiry u))) u"
    unfolding wp_conj by (intro conjI afterRemoteChange_wp adds.wp_effect state_access_not_transfer)
  show "addsAfter (ordered s y) w t \<and> synced s w r t"
    if "adds (\<lambda>c. \<not> isTransfer c) u t \<and> (completed s (s_remote u) (s_remote t) \<or>
       (r \<noteq> None \<and> s_remote t = s_remote u \<and> s_lockExpiry t = s_lockExpiry u))" for r t
    using that u addsAfter.R_trans [of "ordered s y" w u t] not_transfer_ordered [of u t]
    by (auto simp: underway_def synced_def finished_def split: option.split)
qed

text \<open>From the announcement on: \<open>between\<close>, the transfers, \<open>during\<close>, and the completion.\<close>

lemma transfers_wp:
  assumes between: "state_io_rel (refreshed s) between" and during: "state_io_rel (refreshed s) during"
    and u: "underway s y w u"
  shows "wp (do { between;
          e \<leftarrow> transferScopes E y paths;
          during;
          (case e of Some err \<Rightarrow> State_Monad.return (Some err) | None \<Rightarrow> afterRemoteChange E s) })
       (\<lambda>r t. addsAfter (ordered s y) w t \<and> synced s w r t) u"
proof -
  have final: "wp (case e of Some err \<Rightarrow> State_Monad.return (Some err) | None \<Rightarrow> afterRemoteChange E s)
      (\<lambda>r t. addsAfter (ordered s y) w t \<and> synced s w r t) t" if "underway s y w t" for e t
    using completion_wp [OF that] that by (auto simp: wp_return synced_def underway_def split: option.split)
  have mid: "wp during (\<lambda>_. underway s y w) t" if "underway s y w t" for t
    by (rule wp_mono [OF refreshed.wp_effect [OF during]]) (rule underway_refreshed [OF that])
  have move: "wp (transferScopes E y paths) (\<lambda>_. underway s y w) t" if "underway s y w t" for t
    by (rule wp_mono [where Q = "\<lambda>_ q. framed t q \<and> adds (isSyncTo y) t q"])
      (auto simp: wp_conj intro: underway_transfers [OF that] framed.wp_effect adds.wp_effect transferScopes_effects)
  have start: "wp between (\<lambda>_. underway s y w) u"
    by (rule wp_mono [OF refreshed.wp_effect [OF between]]) (rule underway_refreshed [OF u])
  show ?thesis
    unfolding wp_bind
    by (rule wp_mono [OF start], rule wp_mono [OF move], assumption, rule wp_mono [OF mid], assumption, rule final)
qed

lemma attempt_wp:
  assumes "quiet w v" and "state_io_rel (refreshed s) between" "state_io_rel (refreshed s) during"
  shows "wp (beforeRemoteChange E s) (\<lambda>r. wp (case wrapWith m r of Some err \<Rightarrow> State_Monad.return (Some err) | None \<Rightarrow> do {
          between;
          e \<leftarrow> transferScopes E y paths;
          during;
          (case e of Some err \<Rightarrow> State_Monad.return (Some err) | None \<Rightarrow> afterRemoteChange E s) })
       (\<lambda>r t. addsAfter (ordered s y) w t \<and> synced s w r t)) v"
proof (rule wp_mono [where Q = "\<lambda>r u. adds (\<lambda>c. \<not> isTransfer c) v u \<and> outcome (published s v) v r u"])
  show "wp (beforeRemoteChange E s) (\<lambda>r u. adds (\<lambda>c. \<not> isTransfer c) v u \<and> outcome (published s v) v r u) v"
    unfolding wp_conj by (intro conjI adds.wp_effect beforeRemoteChange_publishes state_access_not_transfer)
  fix r u assume u: "adds (\<lambda>c. \<not> isTransfer c) v u \<and> outcome (published s v) v r u"
  then have before: "addsAfter (ordered s y) w u"
    using addsAfter.R_trans [OF quiet_ordered [OF assms(1)] not_transfer_ordered] by blast
  show "wp (case wrapWith m r of Some err \<Rightarrow> State_Monad.return (Some err) | None \<Rightarrow> do {
          between;
          e \<leftarrow> transferScopes E y paths;
          during;
          (case e of Some err \<Rightarrow> State_Monad.return (Some err) | None \<Rightarrow> afterRemoteChange E s) })
       (\<lambda>r t. addsAfter (ordered s y) w t \<and> synced s w r t) u"
  proof (cases r)
    case None
    then have "underway s y w u"
      using u before published_marked published_announced quiet_session [OF assms(1)] by (fastforce simp: underway_def)
    then show ?thesis using None transfers_wp [OF assms(2,3)] by (simp add: wrapWith_def)
  next
    case (Some err)
    then show ?thesis using u before quiet_session [OF assms(1)] by (simp add: wrapWith_def wp_return synced_def)
  qed
qed

lemma syncWith_wp:
  assumes "tracked y = Some s" and "state_io_rel (refreshed s) between" "state_io_rel (refreshed s) during"
  shows "wp (syncWith E y between during batch) (\<lambda>r t. addsAfter (ordered s y) w t \<and> synced s w r t) w"
proof -
  have "wp (case r of Inl err \<Rightarrow> State_Monad.return (Some err) | Inr paths \<Rightarrow>
        if paths = [] then State_Monad.return None
        else do {
          e \<leftarrow> do { e \<leftarrow> beforeRemoteChange E s; State_Monad.return (wrapWith ''advance generation: %w'' e) };
          (case e of Some err \<Rightarrow> State_Monad.return (Some err) | None \<Rightarrow> do {
          between;
          e \<leftarrow> transferScopes E y paths;
          during;
          (case e of Some err \<Rightarrow> State_Monad.return (Some err) | None \<Rightarrow> afterRemoteChange E s) }) })
      (\<lambda>r t. addsAfter (ordered s y) w t \<and> synced s w r t) v" if v: "quiet w v" for r v
    using quiet_session [OF v] quiet_ordered [OF v] v attempt_wp [OF v assms(2,3)]
    by (cases r) (auto simp: wp_bind wp_return synced_def)
  note attempted = this
  have refl: "quiet w w" by (simp add: quiet_def framed_def later_def)
  show ?thesis
  proof (cases "batch = []")
    case True
    then show ?thesis using refl quiet_ordered [OF refl] by (simp add: syncWith_def wp_simps synced_def)
  next
    case False
    show ?thesis
      using attempted
      by (simp only: syncWith_def assms False if_False wp_bind option.case)
        (rule wp_mono [OF reconciliationScopes_wp], simp only: wp_bind still_def)
  qed
qed

definition renewal :: "'r env \<Rightarrow> syncConfig \<Rightarrow> ('r, unit) prog" where
  "renewal E s = do { refreshRound E s (State_Monad.return ()); State_Monad.return () }"

lemma renewal_refreshed [intro!]: "state_io_rel (refreshed s) (renewal E s)"
  unfolding renewal_def by (intro refreshed.rules refreshRound_refreshed)

end
