(* ===== verification/StartupSafety.thy ===== *)
theory StartupSafety
  imports Startup SyncerSafety
begin

text \<open>
  \<open>InitializeGeneration\<close> refines the decision table \<open>startupAction\<close>: which action is taken
  depends only on the local file and the remembered remote state, generations are compared
  without wrap-around, and each action runs the payload commands the table stands for, in the
  order that keeps an interrupted startup recoverable.
\<close>

section \<open>What each action may do\<close>

definition isPayloadSync :: "syncConfig \<Rightarrow> string \<Rightarrow> string \<Rightarrow> cmd \<Rightarrow> bool" where
  "isPayloadSync s from to c = (c_args c = payloadSyncArgs from to (payloadFilters s) (cf_excludes s) @ [noCheckBucket])"

definition isClearing :: "syncConfig \<Rightarrow> cmd \<Rightarrow> bool" where
  "isClearing s c = (c_args c = deleteArgs s @ [noCheckBucket] \<or>
     c_args c = [''rmdirs'', cf_dest s, ''--leave-root'', noCheckBucket])"

text \<open>At most one run of one command; none at all only with an error.\<close>

definition ranOnce :: "(cmd \<Rightarrow> bool) \<Rightarrow> 'r session \<Rightarrow> goerr option \<Rightarrow> 'r session \<Rightarrow> bool" where
  "ranOnce P w r t = (framed w t \<and> ((w_cmds t = w_cmds w \<and> r \<noteq> None) \<or>
     (\<exists>c. w_cmds t = c # w_cmds w \<and> P c \<and> (r = None) = (r_err (c_result c) = None))))"

text \<open>The commands of a first upload: clearing the destination, one upload, the publication.\<close>

definition firstUploaded :: "syncConfig \<Rightarrow> 'r session \<Rightarrow> goerr option \<Rightarrow> 'r session \<Rightarrow> bool" where
  "firstUploaded s w r t =
     ((\<exists>cs. w_cmds t = cs @ w_cmds w \<and> (\<forall>c \<in> set cs. isClearing s c) \<and> r \<noteq> None) \<or>
      (\<exists>ps c cs. w_cmds t = ps @ c # cs @ w_cmds w \<and> (\<forall>c \<in> set cs. isClearing s c) \<and>
         isPayloadSync s (cf_source s) (cf_dest s) c \<and> (\<forall>d \<in> set ps. \<not> isTransfer d) \<and>
         (r = None \<longrightarrow> r_err (c_result c) = None \<and> Generation (rf_data (s_remote t)) = 1 \<and>
            \<not> Syncing (rf_data (s_remote t)) \<and> RepositoryID (rf_data (s_remote t)) = RepositoryID (rf_data (s_remote w)))))"

text \<open>A recovery: the next generation is announced, one upload follows, then it is completed.\<close>

definition recovered :: "syncConfig \<Rightarrow> 'r session \<Rightarrow> goerr option \<Rightarrow> 'r session \<Rightarrow> bool" where
  "recovered s w r t =
     ((adds (\<lambda>c. \<not> isTransfer c) w t \<and> r \<noteq> None) \<or>
      (\<exists>u ps c. published s w u \<and> adds (\<lambda>c. \<not> isTransfer c) w u \<and> w_cmds t = ps @ c # w_cmds u \<and>
         isPayloadSync s (cf_source s) (cf_dest s) c \<and> (\<forall>d \<in> set ps. \<not> isTransfer d) \<and>
         (r = None \<longrightarrow> r_err (c_result c) = None \<and> completed s (s_remote u) (s_remote t))))"

fun performed :: "syncConfig \<Rightarrow> startupAction \<Rightarrow> 'r session \<Rightarrow> goerr option \<Rightarrow> 'r session \<Rightarrow> bool" where
  "performed s FirstUpload w r t = firstUploaded s w r t"
| "performed s Download w r t =
     (s_remote t = s_remote w \<and> ((\<exists>c. w_cmds t = c # w_cmds w \<and> isPayloadSync s (cf_dest s) (cf_source s) c \<and>
        (r = None \<longrightarrow> r_err (c_result c) = None)) \<or> (w_cmds t = w_cmds w \<and> r \<noteq> None)))"
| "performed s TooFarAhead w r t = (quiet w t \<and> r \<noteq> None)"
| "performed s NoSyncIDs w r t = (quiet w t \<and> r \<noteq> None)"
| "performed s Recover w r t = recovered s w r t"
| "performed s Nothing w r t = (quiet w t \<and> r = None)"

text \<open>The local state on the disk; \<open>None\<close> in the sum when there is no file.\<close>

definition storedLocal :: "disk \<Rightarrow> string \<Rightarrow> syncFileData option \<Rightarrow> bool" where
  "storedLocal d path local = (case local of
      None \<Rightarrow> d path = None
    | Some l \<Rightarrow> \<exists>contents. d path = Some (File contents) \<and> decodeSyncFile contents = Inr l \<and> Generation l \<noteq> 0)"

lemma performed_eqs: "performed s FirstUpload = firstUploaded s" "performed s Recover = recovered s"
  by (intro ext, simp)+

section \<open>The parts\<close>

lemma stateRun_once:
  assumes "\<And>c. c_args c = args @ [noCheckBucket] \<Longrightarrow> P c"
  shows "wp (stateRun E s args) (ranOnce P w) w"
proof -
  have "wp (stateRun E s args) (\<lambda>r t. framed w t \<and> (w_clock w \<le> w_clock t \<and>
      ((w_cmds t = w_cmds w \<and> r \<noteq> None) \<or>
       (\<exists>c. w_cmds t = c # w_cmds w \<and> c_args c = args @ [noCheckBucket] \<and> c_disk c = w_disk w \<and>
            (r = None) = (r_err (c_result c) = None) \<and> w_clock w \<le> c_time c \<and> c_time c = w_clock t)))) w"
    unfolding wp_conj [where Q = "\<lambda>r t. framed w t"] by (intro conjI framed.wp_effect stateRun_cmds runner_effects)
  then show ?thesis by (rule wp_mono) (use assms in \<open>auto simp: ranOnce_def\<close>)
qed

lemma sync_once:
  "wp (syncToRemote E s) (ranOnce (isPayloadSync s (cf_source s) (cf_dest s)) w) w"
  "wp (syncFromRemote E s) (ranOnce (isPayloadSync s (cf_dest s) (cf_source s)) w) w"
  unfolding syncToRemote_def syncFromRemote_def by (rule stateRun_once, simp add: isPayloadSync_def)+

lemma readLocalSyncFile_stored:
  "wp (readLocalSyncFile E path) (\<lambda>r t. quiet w t \<and> w_disk t = w_disk w \<and> (\<forall>l e. r = Inr (l, e) \<longrightarrow>
     storedLocal (w_disk w) path (if e then Some l else None) \<and> (\<not> e \<longrightarrow> l = zeroData))) w"
  by (auto simp: readLocalSyncFile_def readFile_def osFails_def tick_def wp_simps storedLocal_def quiet_def framed_def
      later_def split: sum.splits node.splits option.splits if_splits)

lemma deleteRemotePayload_clears:
  "wp (deleteRemotePayload E s) (\<lambda>r t. framed w t \<and> (\<exists>cs. w_cmds t = cs @ w_cmds w \<and> (\<forall>c \<in> set cs. isClearing s c))) w"
proof -
  have rm: "wp (stateRun E s [''rmdirs'', cf_dest s, ''--leave-root''])
      (\<lambda>r t. framed w t \<and> (\<exists>cs. w_cmds t = cs @ w_cmds w \<and> (\<forall>c \<in> set cs. isClearing s c))) v"
    if v: "framed w v" "w_cmds v = cs @ w_cmds w" "\<forall>c \<in> set cs. isClearing s c" for v :: "'a session" and cs
  proof (rule wp_mono [OF stateRun_once [of _ "isClearing s"]])
    fix r t assume "ranOnce (isClearing s) v r t"
    then obtain ds where "framed v t" "w_cmds t = ds @ w_cmds v" "\<forall>c \<in> set ds. isClearing s c"
      unfolding ranOnce_def by (metis append_Cons append_Nil empty_iff list.set(1) set_ConsD)
    then show "framed w t \<and> (\<exists>cs. w_cmds t = cs @ w_cmds w \<and> (\<forall>c \<in> set cs. isClearing s c))"
      using v framed.R_trans [OF v(1)] by (auto intro!: exI [of _ "ds @ cs"])
  qed (simp add: isClearing_def)
  show ?thesis
    unfolding deleteRemotePayload_def wp_bind
    by (rule wp_mono [OF stateRun_once [of _ "isClearing s"]])
      (auto simp: isClearing_def ranOnce_def wp_simps intro!: wp_mono [OF rm] split: option.split)
qed

lemma replace_publishes:
  "wp (replaceOwnedRemote E s p c) (\<lambda>r t. adds (\<lambda>c. \<not> isTransfer c) w t \<and> replaced s p c w r t) w"
  unfolding wp_conj by (intro conjI replaceOwnedRemote_wp adds.wp_effect state_access_not_transfer)

lemma initializeRemote_uploads:
  fixes w :: "'a session"
  assumes "Generation (rf_data (s_remote w)) = 0"
  shows "wp (initializeRemote E s) (firstUploaded s w) w"
proof -
  let ?c = "\<lambda>i. (rf_data (s_remote w))\<lparr>Generation := 1, SyncID := i, Syncing := False\<rparr>"
  define U where "U = (\<lambda>u :: 'a session. \<exists>c cs. s_remote u = s_remote w \<and> w_cmds u = c # cs @ w_cmds w \<and> (\<forall>c \<in> set cs. isClearing s c) \<and>
    isPayloadSync s (cf_source s) (cf_dest s) c \<and> r_err (c_result c) = None)"
  have publish: "wp (replaceOwnedRemote E s (s_remote w) (?c i)) (\<lambda>e. wp (case e of
        Some err \<Rightarrow> State_Monad.return (Some (f err))
      | None \<Rightarrow> do {
          e \<leftarrow> writeLocalSyncFile E p l;
          State_Monad.return (case e of Some err \<Rightarrow> Some (g err) | None \<Rightarrow> None) }) (firstUploaded s w)) u"
    if U: "U u" for u i p l f g
  proof (rule wp_mono [OF replace_publishes], elim conjE)
    obtain c cs where u: "w_cmds u = c # cs @ w_cmds w" "\<forall>c \<in> set cs. isClearing s c"
      "isPayloadSync s (cf_source s) (cf_dest s) c" "r_err (c_result c) = None" using U by (auto simp: U_def)
    fix e t assume adds: "adds (\<lambda>c. \<not> isTransfer c) u t" and rep: "replaced s (s_remote w) (?c i) u e t"
    obtain ps where ps: "w_cmds t = ps @ w_cmds u" "\<forall>d \<in> set ps. \<not> isTransfer d" using adds by (auto simp: adds_def)
    have ok: "Generation (rf_data (s_remote t)) = 1 \<and> \<not> Syncing (rf_data (s_remote t)) \<and>
        RepositoryID (rf_data (s_remote t)) = RepositoryID (rf_data (s_remote w))" if "e = None"
      using replaced_success [of s "s_remote w" "?c i" u t] rep that by simp
    have done_: "firstUploaded s w r q" if "quiet t q" "r = None \<Longrightarrow> e = None" for r q
      unfolding firstUploaded_def
      by (rule disjI2, rule exI [of _ ps], rule exI [of _ c], rule exI [of _ cs])
        (use that u ps ok quiet_session [OF that(1)] in auto)
    have "quiet t t" by (simp add: quiet_def framed_def later_def)
    then show "wp (case e of
        Some err \<Rightarrow> State_Monad.return (Some (f err))
      | None \<Rightarrow> do {
          e \<leftarrow> writeLocalSyncFile E p l;
          State_Monad.return (case e of Some err \<Rightarrow> Some (g err) | None \<Rightarrow> None) }) (firstUploaded s w) t"
      using done_ by (cases e) (auto simp: wp_simps intro!: quiet_rules split: option.split)
  qed
  have identified: "wp (randomText E) (\<lambda>i. wp (replaceOwnedRemote E s (s_remote w) (?c i)) (\<lambda>e. wp (case e of
        Some err \<Rightarrow> State_Monad.return (Some (f err))
      | None \<Rightarrow> do {
          e \<leftarrow> writeLocalSyncFile E p (l i);
          State_Monad.return (case e of Some err \<Rightarrow> Some (g err) | None \<Rightarrow> None) }) (firstUploaded s w))) u"
    if "U u" for u p l f g
    by (intro quiet_rules publish) (use that quiet_session [of u] in \<open>auto simp: U_def\<close>)
  have upload: "wp (do { e \<leftarrow> syncToRemote E s; (case e of
        Some err \<Rightarrow> State_Monad.return (Some (h err))
      | None \<Rightarrow> do {
          remote \<leftarrow> gets s_remote;
          i \<leftarrow> randomText E;
          e \<leftarrow> replaceOwnedRemote E s remote ((rf_data remote)\<lparr>Generation := 1, SyncID := i, Syncing := False\<rparr>);
          (case e of
             Some err \<Rightarrow> State_Monad.return (Some (f err))
           | None \<Rightarrow> do {
               e \<leftarrow> writeLocalSyncFile E p (l remote i);
               State_Monad.return (case e of Some err \<Rightarrow> Some (g err) | None \<Rightarrow> None) }) }) }) (firstUploaded s w) v"
    if v: "framed w v" "w_cmds v = cs @ w_cmds w" "\<forall>c \<in> set cs. isClearing s c" for v cs p l f g h
    unfolding wp_bind [of "syncToRemote E s"]
  proof (rule wp_mono [OF sync_once(1)])
    fix e u assume once: "ranOnce (isPayloadSync s (cf_source s) (cf_dest s)) v e u"
    then have rem: "s_remote u = s_remote w"
      using v(1) framed_session(1) [of v u] framed_session(1) [of w v] by (simp add: ranOnce_def)
    show "wp (case e of
        Some err \<Rightarrow> State_Monad.return (Some (h err))
      | None \<Rightarrow> do {
          remote \<leftarrow> gets s_remote;
          i \<leftarrow> randomText E;
          e \<leftarrow> replaceOwnedRemote E s remote ((rf_data remote)\<lparr>Generation := 1, SyncID := i, Syncing := False\<rparr>);
          (case e of
             Some err \<Rightarrow> State_Monad.return (Some (f err))
           | None \<Rightarrow> do {
               e \<leftarrow> writeLocalSyncFile E p (l remote i);
               State_Monad.return (case e of Some err \<Rightarrow> Some (g err) | None \<Rightarrow> None) }) }) (firstUploaded s w) u"
    proof (cases e)
      case None
      then have "U u" using once v(2,3) rem by (auto simp: ranOnce_def U_def)
      then show ?thesis using None rem by (simp add: wp_bind wp_gets) (rule identified)
    next
      case (Some err)
      have "firstUploaded s w (Some (h err)) u"
        using once v(2,3) Some by (fastforce simp: ranOnce_def firstUploaded_def)
      then show ?thesis using Some by (simp add: wp_return)
    qed
  qed
  have cleared: "firstUploaded s w (Some err) u" if "w_cmds u = cs @ w_cmds w" "\<forall>c \<in> set cs. isClearing s c" for err u cs
    using that by (auto simp: firstUploaded_def)
  show ?thesis
    unfolding initializeRemote_def wp_bind wp_gets
    by (simp add: assms wp_bind, rule wp_mono [OF deleteRemotePayload_clears], elim conjE exE)
      (auto simp: wp_return Let_def cleared intro!: upload split: option.split)
qed

lemma published_quiet: "quiet w v \<Longrightarrow> published s v u \<Longrightarrow> published s w u"
  using quiet_session [of w v] quiet_trans [of w v] by (auto simp: published_def nextCandidate_def)

lemma completing: "wp (afterRemoteChange E s) (\<lambda>r t. adds (\<lambda>c. \<not> isTransfer c) w t \<and>
    (completed s (s_remote w) (s_remote t) \<or> (r \<noteq> None \<and> s_remote t = s_remote w \<and> s_lockExpiry t = s_lockExpiry w))) w"
  unfolding wp_conj by (intro conjI afterRemoteChange_wp adds.wp_effect state_access_not_transfer)

lemma recoverUpload_recovers:
  fixes w :: "'a session"
  assumes v: "quiet w v"
  shows "wp (recoverUpload E s) (recovered s w) v"
proof -
  have finish: "wp (afterRemoteChange E s) (recovered s w) q"
    if "published s w u" "adds (\<lambda>c. \<not> isTransfer c) w u" "framed u q" "w_cmds q = c # w_cmds u"
      "isPayloadSync s (cf_source s) (cf_dest s) c" "r_err (c_result c) = None" for u q c
    by (rule wp_mono [OF completing])
      (use that framed_session(1) [OF that(3)] in \<open>fastforce simp: recovered_def adds_def [of _ q]\<close>)
  have move: "wp (syncToRemote E s) (\<lambda>e. wp (case e of
        Some err \<Rightarrow> State_Monad.return (Some (f err)) | None \<Rightarrow> afterRemoteChange E s) (recovered s w)) u"
    if u: "published s w u" "adds (\<lambda>c. \<not> isTransfer c) w u" for u f
  proof (rule wp_mono [OF sync_once(1)])
    fix e q assume once: "ranOnce (isPayloadSync s (cf_source s) (cf_dest s)) u e q"
    show "wp (case e of Some err \<Rightarrow> State_Monad.return (Some (f err)) | None \<Rightarrow> afterRemoteChange E s) (recovered s w) q"
    proof (cases e)
      case None
      then show ?thesis using once finish [OF u] by (auto simp: ranOnce_def)
    next
      case (Some err)
      from once consider (still) "w_cmds q = w_cmds u"
        | (ran) c where "w_cmds q = c # w_cmds u" "isPayloadSync s (cf_source s) (cf_dest s) c"
        by (auto simp: ranOnce_def)
      then have "recovered s w (Some (f err)) q"
      proof cases
        case still
        then show ?thesis using u(2) by (simp add: recovered_def adds_def)
      next
        case (ran c)
        then show ?thesis
          unfolding recovered_def by (intro disjI2 exI [of _ u] exI [of _ "[]"] exI [of _ c]) (use u in auto)
      qed
      then show ?thesis using Some by (simp add: wp_return)
    qed
  qed
  have after: "adds (\<lambda>c. \<not> isTransfer c) w u" if "adds (\<lambda>c. \<not> isTransfer c) v u" for u :: "'a session"
    using that v by (simp add: adds_def quiet_def)
  show ?thesis
    unfolding recoverUpload_def wp_bind
  proof (rule wp_mono [where Q = "\<lambda>r u. adds (\<lambda>c. \<not> isTransfer c) v u \<and> outcome (published s v) v r u"])
    show "wp (beforeRemoteChange E s) (\<lambda>r u. adds (\<lambda>c. \<not> isTransfer c) v u \<and> outcome (published s v) v r u) v"
      unfolding wp_conj by (intro conjI adds.wp_effect beforeRemoteChange_publishes state_access_not_transfer)
  qed (auto simp: wp_return wp_bind outcome_def recovered_def [of _ _ "Some _"] after
      intro!: move published_quiet [OF v] split: option.splits)
qed

lemma download_downloads:
  fixes w :: "'a session"
  assumes v: "quiet w v"
  shows "wp (download E s remote) (performed s Download w) v"
proof -
  have stored: "wp (writeLocalSyncFile E p d) (performed s Download w) q"
    if "framed v q" "w_cmds q = c # w_cmds v" "isPayloadSync s (cf_dest s) (cf_source s) c" "r_err (c_result c) = None" for c q p d
    by (rule quiet_rules) (use that v quiet_session [of q] quiet_session [OF v] framed_session(1) [OF that(1)] in auto)
  show ?thesis
    unfolding download_def wp_bind
    by (rule wp_mono [OF sync_once(2)])
      (use v quiet_session [OF v] framed_session(1) [of v] stored in
        \<open>auto simp: ranOnce_def wp_return split: option.split\<close>)
qed

section \<open>The whole\<close>

text \<open>The code's decisions as the table has them; the next generation does not wrap around to a stored one.\<close>

lemma startupAction_first: "Generation remote = 0 \<Longrightarrow> startupAction local remote = FirstUpload"
  by (simp add: startupAction_def)

lemma startupAction_download:
  "Generation remote \<noteq> 0 \<Longrightarrow> needsSyncFromRemote l e remote \<Longrightarrow> startupAction (if e then Some l else None) remote = Download"
  by (auto simp: startupAction_def needsSyncFromRemote_def)

lemma next_generation: "l \<noteq> 0 \<Longrightarrow> l = r + 1 \<longleftrightarrow> unat l = unat r + 1" for l r :: u64
proof (cases "r = - 1")
  case True
  have limit: "unat l < 2 ^ LENGTH(64)" by (rule unsigned_less)
  from True have "unat r + 1 = 2 ^ 64" by (simp add: unsigned_minus_1_eq_mask mask_eq_exp_minus_1)
  then show "l \<noteq> 0 \<Longrightarrow> l = r + 1 \<longleftrightarrow> unat l = unat r + 1" using True limit by simp
qed (simp add: unat_next word_unat_eq_iff [of l])

lemma startupAction_ahead:
  assumes "Generation remote \<noteq> 0" "\<not> needsSyncFromRemote l e remote" "e \<Longrightarrow> Generation l \<noteq> 0"
  shows "e" and "startupAction (Some l) remote =
    (if Generation l > Generation remote \<and> \<not> (Syncing l \<and> Generation l = Generation remote + 1) then TooFarAhead
     else if Syncing l \<or> Syncing remote \<or> Active l
     then (if (Syncing l \<or> Syncing remote) \<and> Generation l = Generation remote \<and> SyncID l = [] then NoSyncIDs else Recover)
     else Nothing)"
proof -
  show e: "e" using assms(1,2) by (simp add: needsSyncFromRemote_def)
  have le: "\<not> Generation l < Generation remote" "Generation l = Generation remote \<longrightarrow> SyncID l = SyncID remote"
    using assms(1,2) e by (auto simp: needsSyncFromRemote_def)
  then consider "Generation l = Generation remote" | "Generation l > Generation remote" by fastforce
  then show "startupAction (Some l) remote =
    (if Generation l > Generation remote \<and> \<not> (Syncing l \<and> Generation l = Generation remote + 1) then TooFarAhead
     else if Syncing l \<or> Syncing remote \<or> Active l
     then (if (Syncing l \<or> Syncing remote) \<and> Generation l = Generation remote \<and> SyncID l = [] then NoSyncIDs else Recover)
     else Nothing)"
  proof cases
    case 1
    then show ?thesis using assms(1) le by (auto simp: startupAction_def)
  next
    case 2
    then show ?thesis
      using assms(1) next_generation [OF assms(3) [OF e], of "Generation remote"] by (auto simp: startupAction_def)
  qed
qed

lemma initializeGeneration_wp:
  fixes w :: "'a session"
  shows "wp (initializeGeneration E s) (\<lambda>r t. (r \<noteq> None \<and> quiet w t) \<or>
    (\<exists>local. storedLocal (w_disk w) (p_local (cf_paths s)) local \<and>
       performed s (startupAction local (rf_data (s_remote w))) w r t)) w"
    (is "wp _ ?Q w")
proof -
  define R where "R = ?Q"
  have failed: "R (Some err) v" if "quiet w v" for err v using that by (simp add: R_def)
  have act: "wp (do { remote \<leftarrow> gets s_remote;
     if Generation (rf_data remote) = 0 then initializeRemote E s
     else if needsSyncFromRemote l e (rf_data remote) then download E s remote
     else
       (let localIncompleteAdvance = Syncing l \<and> Generation l = Generation (rf_data remote) + 1;
            incomplete = Syncing l \<or> Syncing (rf_data remote)
        in if Generation l > Generation (rf_data remote) \<and> \<not> localIncompleteAdvance
           then State_Monad.return (Some (err remote))
           else if incomplete \<or> Active l then
             (if incomplete \<and> Generation l = Generation (rf_data remote) \<and> SyncID l = []
              then State_Monad.return (Some err') else recoverUpload E s)
           else State_Monad.return None) }) R v"
    if st: "storedLocal (w_disk w) (p_local (cf_paths s)) (if e then Some l else None)" and v: "quiet w v" for l e v err err'
  proof -
    have remote: "s_remote v = s_remote w" using quiet_session [OF v] by simp
    let ?r = "rf_data (s_remote w)" and ?local = "if e then Some l else None"
    have Q: "wp m R v" if "wp m (performed s (startupAction ?local ?r) w) v" for m
      unfolding R_def by (rule wp_mono [OF that]) (use st in blast)
    consider (first) "Generation ?r = 0" | (down) "Generation ?r \<noteq> 0" "needsSyncFromRemote l e ?r"
      | (ahead) "Generation ?r \<noteq> 0" "\<not> needsSyncFromRemote l e ?r" by blast
    then show ?thesis
    proof cases
      case first
      have "wp (initializeRemote E s) (firstUploaded s w) v"
        by (rule wp_mono [OF initializeRemote_uploads])
          (use first remote quiet_session [OF v] in \<open>simp_all add: firstUploaded_def\<close>)
      then show ?thesis using first remote Q [of "initializeRemote E s"] startupAction_first [OF first]
        by (simp add: wp_bind wp_gets performed_eqs)
    next
      case down
      then show ?thesis
        using remote download_downloads [OF v]
        by (auto simp: wp_bind wp_gets startupAction_download intro!: Q)
    next
      case ahead
      have e: "e" and table: "startupAction (Some l) ?r =
        (if Generation l > Generation ?r \<and> \<not> (Syncing l \<and> Generation l = Generation ?r + 1) then TooFarAhead
         else if Syncing l \<or> Syncing ?r \<or> Active l
         then (if (Syncing l \<or> Syncing ?r) \<and> Generation l = Generation ?r \<and> SyncID l = [] then NoSyncIDs else Recover)
         else Nothing)"
        using startupAction_ahead [OF ahead] st by (auto simp: storedLocal_def split: if_splits)
      have "R None v" if "startupAction (Some l) ?r = Nothing"
        using that st e v unfolding R_def by (intro disjI2 exI [of _ "Some l"]) simp
      then show ?thesis
        using ahead remote e failed [OF v] table recoverUpload_recovers [OF v, of E s]
        by (auto simp: performed_eqs wp_bind wp_gets Let_def wp_return intro!: Q)
    qed
  qed
  have "wp (initializeGeneration E s) R w"
    unfolding initializeGeneration_def wp_bind [of "readLocalSyncFile E (p_local (cf_paths s))"]
  proof (rule wp_mono [OF readLocalSyncFile_stored], elim conjE, goal_cases)
    case (1 r v)
    show ?case
    proof (cases r)
      case (Inl err)
      then show ?thesis using failed 1 by (simp add: wp_return)
    next
      case (Inr b)
      obtain l e where b: "b = (l, e)" by (cases b)
      have st: "storedLocal (w_disk w) (p_local (cf_paths s)) (if e then Some l else None)" using 1 Inr b by blast
      have marked: "wp (if e then writeLocalSyncFile E p d else State_Monad.return None) (\<lambda>_ u. quiet w u) v" for p d
        using 1(1) by (auto simp: wp_return intro!: quiet_rules intro: quiet_trans)
      show ?thesis
        unfolding Inr b sum.case prod.case wp_bind [of "if _ then _ else _"]
        by (rule wp_mono [OF marked]) (auto simp: wp_return intro!: act [OF st] failed split: option.split)
    qed
  qed
  then show ?thesis by (simp add: R_def)
qed

end
