(* ===== verification/Store.thy ===== *)
theory Store
  imports Startup
begin

text \<open>
  A provider: rclone over an object store that honours the conditional headers of a write
  (\<open>If-None-Match: *\<close> and \<open>If-Match: "tag"\<close>), as the README requires of S3-compatible
  destinations. It is one instance of the environment's \<open>rclone\<close>; the examples run on it.
\<close>

record store =
  st_object :: "(string \<times> nat) option"
  st_version :: nat
  st_payload :: "string list"

definition success :: "string \<Rightarrow> string \<Rightarrow> cmdResult" where
  "success out err = \<lparr>r_err = None, r_stdout = out, r_stderr = err\<rparr>"

definition failure :: "int \<Rightarrow> cmdResult" where
  "failure code = \<lparr>r_err = Some (ExitError code None), r_stdout = [], r_stderr = []\<rparr>"

definition etagOf :: "nat \<Rightarrow> string" where
  "etagOf v = dec v"

text \<open>The condition of an upload, from its arguments.\<close>

definition headerHolds :: "string \<Rightarrow> (string \<times> nat) option \<Rightarrow> bool" where
  "headerHolds header obj = (case obj of
      None \<Rightarrow> header = uploadHeader []
    | Some (_, v) \<Rightarrow> header = uploadHeader (etagOf v))"

fun uploadAllowed :: "string list \<Rightarrow> (string \<times> nat) option \<Rightarrow> bool" where
  "uploadAllowed (flag # header # rest) obj =
     (if flag = ''--header-upload'' then headerHolds header obj else True)"
| "uploadAllowed _ obj = True"

fun serve :: "string list \<Rightarrow> disk \<Rightarrow> store \<Rightarrow> cmdResult \<times> disk \<times> store" where
  "serve (name # args) d st =
     (if name = ''cat'' then
        (case st_object st of
           None \<Rightarrow> (failure 4, d, st)
         | Some (contents, v) \<Rightarrow> (success contents (''ETag: '' @ [CHR 0x22] @ etagOf v @ [CHR 0x22]), d, st))
      else if name = ''copyto'' then
        (case args of
           source # _ # rest \<Rightarrow>
             (case d source of
                Some (File contents) \<Rightarrow>
                  if uploadAllowed rest (st_object st)
                  then (success [] [], d, st\<lparr>st_object := Some (contents, st_version st), st_version := Suc (st_version st)\<rparr>)
                  else (failure 1, d, st)
              | _ \<Rightarrow> (failure 1, d, st))
         | _ \<Rightarrow> (failure 1, d, st))
      else if name = ''lsjson'' then
        (success (if st_payload st = [] then ''[]'' else ''[{}]'') [], d, st)
      else if name = ''delete'' then (success [] [], d, st\<lparr>st_payload := []\<rparr>)
      else (success [] [], d, st))"
| "serve [] d st = (failure 1, d, st)"

section \<open>An environment and a session to run on\<close>

definition sampleTime :: gotime where
  "sampleTime = \<lparr>t_year = 2024, t_month = 1, t_day = 2, t_hour = 3, t_min = 4, t_sec = 5, t_nsec = 0, t_off = 0\<rparr>"

definition sampleEnv :: "store env" where
  "sampleEnv = \<lparr>rclone = serve, elapse = (\<lambda>n. 1), wallClock = (\<lambda>n. sampleTime),
     randText = (\<lambda>n. ''TEXT'' @ dec n), randNumber = (\<lambda>n. n), randByte = (\<lambda>n i. of_nat (n + i)),
     arriving = (\<lambda>n. None), fault = (\<lambda>n. False), tempDir = ''/tmp''\<rparr>"

definition samplePaths :: syncFilePaths where
  "samplePaths = \<lparr>p_local = ''/src/.rcw-state'', p_remote = ''r:d/.rcw-state'', p_localFilter = ''.rcw-state'',
     p_remoteFilter = ''.rcw-state''\<rparr>"

definition sampleConfig :: syncConfig where
  "sampleConfig =
     \<lparr>cf_paths = samplePaths, cf_source = ''/src'', cf_dest = ''r:d'', cf_timeout = 200,
      cf_wait = \<lparr>wait_duration = 0, wait_infinite = False, wait_explicit = False\<rparr>, cf_pollInterval = second,
      cf_consistentWrites = True, cf_failOnIncomplete = False, cf_logs = False, cf_owner = ''me'',
      cf_repositoryID = ''repo'', cf_persistent = False, cf_excludes = [], cf_forceDelete = False,
      cf_hasCancel = True, cf_hasReleaseRunner = True\<rparr>"

definition sampleSession :: "store \<Rightarrow> store session" where
  "sampleSession st =
     \<lparr>w_service = st, w_disk = (\<lambda>p. None), w_clock = 0, w_calls = 0, w_cancelled = False, w_watchdog = None,
      w_fired = False, w_cmds = [], s_remote = noRemote, s_lockExpiry = None, s_pending = None,
      s_pendingExpiry = None, s_releaseRunner = False, s_closed = None\<rparr>"

definition emptyStore :: store where
  "emptyStore = \<lparr>st_object = None, st_version = 1, st_payload = []\<rparr>"

end
