(* ===== verification/Config.thy ===== *)
theory Config
  imports Options SyncPath
begin

text \<open>
  \<open>parseConfig\<close> of src/main.go: the command line. The package \<open>flag\<close> of the standard
  library is modelled as far as the program uses it (\<open>parseFlags\<close>); the working directory
  and the two lookups of the source folder in the file system are parameters (\<open>fsys\<close>).
  The lemmas state what a configuration that is accepted satisfies.
\<close>

section \<open>The configuration\<close>

record config =
  g_interval :: duration
  g_lockTimeout :: duration
  g_lockWait :: lockWait
  g_persistentLock :: string
  g_excludes :: "string list"
  g_logs :: bool
  g_uploadOnly :: bool
  g_forceDeleteRemote :: bool
  g_failOnIncomplete :: bool
  g_noConsistentWrites :: bool
  g_stateFile :: string
  g_stateFileLocal :: string
  g_stateFileRemote :: string
  g_syncPaths :: syncFilePaths
  g_source :: string
  g_dest :: string
  g_command :: "string list"

definition defaultLockTTL :: duration where
  "defaultLockTTL = 2 * minute"

definition noPaths :: syncFilePaths where
  "noPaths = \<lparr>p_local = [], p_remote = [], p_localFilter = [], p_remoteFilter = []\<rparr>"

definition defaultConfig :: config where
  "defaultConfig =
     \<lparr>g_interval = 0, g_lockTimeout = defaultLockTTL, g_lockWait = noLockWait, g_persistentLock = [],
      g_excludes = [], g_logs = False, g_uploadOnly = False, g_forceDeleteRemote = False,
      g_failOnIncomplete = False, g_noConsistentWrites = False, g_stateFile = [], g_stateFileLocal = [],
      g_stateFileRemote = [], g_syncPaths = noPaths, g_source = [], g_dest = [], g_command = []\<rparr>"

section \<open>Flags\<close>

definition boolFlags :: "string list" where
  "boolFlags = [''logs'', ''upload-only'', ''force-delete-untracked-remote'', ''fail-on-incomplete-sync'',
     ''no-consistent-writes'']"

definition valueFlags :: "string list" where
  "valueFlags = [''interval'', ''lock-ttl'', ''lock-wait'', ''persistent-lock'', ''exclude'', ''state-file'',
     ''state-file-local'', ''state-file-remote'']"

text \<open>\<open>strconv.ParseBool\<close>.\<close>

definition parseBool :: "string \<Rightarrow> bool option" where
  "parseBool s =
     (if s \<in> {''1'', ''t'', ''T'', ''TRUE'', ''true'', ''True''} then Some True
      else if s \<in> {''0'', ''f'', ''F'', ''FALSE'', ''false'', ''False''} then Some False
      else None)"

definition setBool :: "string \<Rightarrow> bool \<Rightarrow> config \<Rightarrow> config" where
  "setBool name b cfg =
     (if name = ''logs'' then cfg\<lparr>g_logs := b\<rparr>
      else if name = ''upload-only'' then cfg\<lparr>g_uploadOnly := b\<rparr>
      else if name = ''force-delete-untracked-remote'' then cfg\<lparr>g_forceDeleteRemote := b\<rparr>
      else if name = ''fail-on-incomplete-sync'' then cfg\<lparr>g_failOnIncomplete := b\<rparr>
      else cfg\<lparr>g_noConsistentWrites := b\<rparr>)"

definition setValue :: "string \<Rightarrow> string \<Rightarrow> config \<Rightarrow> config option" where
  "setValue name value cfg =
     (if name = ''interval'' then map_option (\<lambda>d. cfg\<lparr>g_interval := d\<rparr>) (parseDuration value)
      else if name = ''lock-ttl'' then map_option (\<lambda>d. cfg\<lparr>g_lockTimeout := d\<rparr>) (parseDuration value)
      else if name = ''lock-wait'' then
        (case lockWaitSet value of Inl err \<Rightarrow> None | Inr w \<Rightarrow> Some (cfg\<lparr>g_lockWait := w\<rparr>))
      else if name = ''persistent-lock'' then Some (cfg\<lparr>g_persistentLock := value\<rparr>)
      else if name = ''exclude'' then
        (case excludeSet (g_excludes cfg) value of Inl err \<Rightarrow> None | Inr ps \<Rightarrow> Some (cfg\<lparr>g_excludes := ps\<rparr>))
      else if name = ''state-file'' then Some (cfg\<lparr>g_stateFile := value\<rparr>)
      else if name = ''state-file-local'' then Some (cfg\<lparr>g_stateFileLocal := value\<rparr>)
      else Some (cfg\<lparr>g_stateFileRemote := value\<rparr>))"

text \<open>
  \<open>FlagSet.Parse\<close> with \<open>parseOne\<close>: one flag gives the new configuration, its name and
  the arguments left; \<open>None\<close> is the end of the flags. The text of an error of \<open>Set\<close>
  inside the message is left out.
\<close>

definition badValue :: "string \<Rightarrow> string \<Rightarrow> goerr" where
  "badValue value name = Errorf ''invalid value %q for flag -%s: %v'' [Str value, Str name]"

definition setFlag :: "config \<Rightarrow> string \<Rightarrow> string \<Rightarrow> string list \<Rightarrow> goerr + (config \<times> string \<times> string list) option" where
  "setFlag cfg name value rest =
     (case setValue name value cfg of
        None \<Rightarrow> Inl (badValue value name)
      | Some cfg' \<Rightarrow> Inr (Some (cfg', name, rest)))"

definition parseNamed ::
    "config \<Rightarrow> string \<Rightarrow> string \<Rightarrow> bool \<Rightarrow> string list \<Rightarrow> goerr + (config \<times> string \<times> string list) option" where
  "parseNamed cfg name value found args =
     (if name \<in> set boolFlags then
        (case parseBool (if found then value else ''true'') of
           None \<Rightarrow> Inl (Errorf ''invalid boolean value %q for -%s: %v'' [Str value, Str name])
         | Some b \<Rightarrow> Inr (Some (setBool name b cfg, name, args)))
      else if name \<in> set valueFlags then
        (if found then setFlag cfg name value args
         else (case args of
             [] \<Rightarrow> Inl (Errorf ''flag needs an argument: -%s'' [Str name])
           | v # args' \<Rightarrow> setFlag cfg name v args'))
      else if name = ''help'' \<or> name = ''h'' then Inl ErrHelp
      else Inl (Errorf ''flag provided but not defined: -%s'' [Str name]))"

definition parseOne :: "config \<Rightarrow> string \<Rightarrow> string list \<Rightarrow> goerr + (config \<times> string \<times> string list) option" where
  "parseOne cfg s args =
     (if length s < 2 \<or> hd s \<noteq> CHR ''-'' \<or> s = ''--'' then Inr None
      else
        (let body = (if s ! 1 = CHR ''-'' then drop 2 s else drop 1 s) in
         if body = [] \<or> hd body = CHR ''-'' \<or> hd body = CHR ''=''
         then Inl (Errorf ''bad flag syntax: %s'' [Str s])
         else (case cutAt (CHR ''='') body of (name, value, found) \<Rightarrow> parseNamed cfg name value found args)))"

lemma setFlag_Some: "setFlag cfg name v args = Inr (Some (cfg', name', rest)) \<longleftrightarrow>
    setValue name v cfg = Some cfg' \<and> name' = name \<and> rest = args"
  by (auto simp: setFlag_def split: option.split)

lemma parseNamed_Some:
  assumes "parseNamed cfg n v found args = Inr (Some (cfg', name, rest))"
  shows "length rest \<le> length args \<and>
     ((name \<in> set boolFlags \<and> (\<exists>b. cfg' = setBool name b cfg)) \<or>
      (name \<in> set valueFlags \<and> (\<exists>v. setValue name v cfg = Some cfg')))"
  using assms unfolding parseNamed_def
  by (auto simp: setFlag_Some split: if_split_asm option.split_asm list.split_asm)

lemma parseOne_Some:
  assumes "parseOne cfg s args = Inr (Some (cfg', name, rest))"
  shows "length rest \<le> length args \<and>
     ((name \<in> set boolFlags \<and> (\<exists>b. cfg' = setBool name b cfg)) \<or>
      (name \<in> set valueFlags \<and> (\<exists>v. setValue name v cfg = Some cfg')))"
proof -
  have "\<exists>n v found. parseNamed cfg n v found args = Inr (Some (cfg', name, rest))"
    using assms unfolding parseOne_def Let_def by (simp only: split: if_split_asm prod.split_asm) (blast | simp)+
  then show ?thesis using parseNamed_Some by blast
qed

function parseFlags :: "config \<Rightarrow> string list \<Rightarrow> string list \<Rightarrow> goerr + (config \<times> string list \<times> string list)" where
  "parseFlags cfg seen [] = Inr (cfg, seen, [])"
| "parseFlags cfg seen (s # args) =
     (case parseOne cfg s args of
        Inl err \<Rightarrow> Inl err
      | Inr None \<Rightarrow> Inr (cfg, seen, if s = ''--'' then args else s # args)
      | Inr (Some (cfg', name, rest)) \<Rightarrow> parseFlags cfg' (name # seen) rest)"
  by pat_completeness auto
termination by (relation "measure (\<lambda>(cfg, seen, args). length args)") (auto dest: parseOne_Some)

section \<open>Checks\<close>

definition uploadOnlyConflict :: "config \<Rightarrow> (string \<Rightarrow> bool) \<Rightarrow> goerr option" where
  "uploadOnlyConflict cfg isSet =
     (if isSet ''lock-ttl'' then Some (errorString ''--lock-ttl cannot be used with --upload-only'')
      else if isSet ''lock-wait'' then Some (errorString ''--lock-wait cannot be used with --upload-only'')
      else if isSet ''persistent-lock'' then Some (errorString ''--persistent-lock cannot be used with --upload-only'')
      else if g_forceDeleteRemote cfg then Some (errorString ''--force-delete-untracked-remote cannot be used with --upload-only'')
      else if g_noConsistentWrites cfg then Some (errorString ''--no-consistent-writes cannot be used with --upload-only'')
      else if g_failOnIncomplete cfg then Some (errorString ''--fail-on-incomplete-sync cannot be used with --upload-only'')
      else if isSet ''state-file'' \<or> isSet ''state-file-local''
        then Some (errorString ''state file path options cannot be used with --upload-only'')
      else None)"

definition checkFlags :: "config \<Rightarrow> (string \<Rightarrow> bool) \<Rightarrow> goerr option" where
  "checkFlags cfg isSet =
     (if g_interval cfg < 0 then Some (errorString ''--interval must not be negative'')
      else if g_lockTimeout cfg \<le> 0 then Some (errorString ''--lock-ttl must be greater than zero'')
      else if isSet ''persistent-lock'' \<and> g_persistentLock cfg = []
        then Some (errorString ''--persistent-lock must not be empty'')
      else if isSet ''state-file'' \<and> (isSet ''state-file-local'' \<or> isSet ''state-file-remote'')
        then Some (errorString ''--state-file cannot be combined with --state-file-local or --state-file-remote'')
      else if isSet ''state-file-local'' \<noteq> isSet ''state-file-remote''
        then Some (errorString ''--state-file-local and --state-file-remote must be specified together'')
      else if g_uploadOnly cfg then uploadOnlyConflict cfg isSet
      else None)"

section \<open>The source folder\<close>

text \<open>\<open>os.Getwd\<close>, whether \<open>os.Stat\<close> finds a directory, and \<open>filepath.EvalSymlinks\<close>.\<close>

record fsys =
  fs_getwd :: "goerr + string"
  fs_stat :: "string \<Rightarrow> goerr + bool"
  fs_evalSymlinks :: "string \<Rightarrow> goerr + string"

definition absPath :: "fsys \<Rightarrow> string \<Rightarrow> goerr + string" where
  "absPath F p = (if isAbs p then Inr (pathClean p)
     else map_sum id (\<lambda>cwd. pathJoin [cwd, p]) (fs_getwd F))"

text \<open>A source that has been resolved is absolute: the working directory is not looked at then.\<close>

definition workingDir :: "fsys \<Rightarrow> string" where
  "workingDir F = (case fs_getwd F of Inl err \<Rightarrow> [] | Inr cwd \<Rightarrow> cwd)"

definition resolveSource :: "fsys \<Rightarrow> string \<Rightarrow> goerr + string" where
  "resolveSource F argument =
     (case absPath F argument of
        Inl err \<Rightarrow> Inl (Wrapped ''resolve source folder: %w'' [] err)
      | Inr source \<Rightarrow>
          (case fs_stat F source of
             Inl err \<Rightarrow> Inl (Wrapped ''source folder: %w'' [] err)
           | Inr isDir \<Rightarrow>
               if \<not> isDir then Inl (Errorf ''source folder %q is not a directory'' [Str source])
               else map_sum (Wrapped ''resolve source folder: %w'' []) id (fs_evalSymlinks F source)))"

definition stateFileNames :: "config \<Rightarrow> (string \<Rightarrow> bool) \<Rightarrow> string \<times> string" where
  "stateFileNames cfg isSet =
     (if isSet ''state-file'' then (g_stateFile cfg, g_stateFile cfg)
      else if isSet ''state-file-local'' then (g_stateFileLocal cfg, g_stateFileRemote cfg)
      else (defaultStateFile, defaultStateFile))"

section \<open>parseConfig\<close>

text \<open>Everything after the first \<open>--\<close> is the wrapped command.\<close>

definition splitCommand :: "string list \<Rightarrow> goerr + (string list \<times> string list)" where
  "splitCommand args =
     (let front = takeWhile (\<lambda>a. a \<noteq> ''--'') args in
      case drop (length front) args of
        [] \<Rightarrow> Inr (args, [])
      | _ # command \<Rightarrow>
          if command = [] then Inl (errorString ''expected a command after --'') else Inr (front, command))"

definition finishConfig :: "fsys \<Rightarrow> config \<Rightarrow> (string \<Rightarrow> bool) \<Rightarrow> string list \<Rightarrow> goerr + config" where
  "finishConfig F cfg isSet positional =
     (case positional of
        [argument, dest] \<Rightarrow>
          (case resolveSource F argument of
             Inl err \<Rightarrow> Inl err
           | Inr source \<Rightarrow>
               if g_uploadOnly cfg then Inr (cfg\<lparr>g_source := source, g_dest := dest\<rparr>)
               else (case stateFileNames cfg isSet of (localRelative, remoteRelative) \<Rightarrow>
                 (case resolveSyncFilePaths (workingDir F) source dest localRelative remoteRelative of
                    Inl err \<Rightarrow> Inl (Wrapped ''resolve state file paths: %w'' [] err)
                  | Inr paths \<Rightarrow> Inr (cfg\<lparr>g_source := source, g_dest := dest, g_syncPaths := paths\<rparr>))))
      | _ \<Rightarrow> Inl (errorString ''expected a source folder and rclone destination''))"

definition parseConfig :: "fsys \<Rightarrow> string list \<Rightarrow> goerr + config" where
  "parseConfig F args =
     (case splitCommand args of
        Inl err \<Rightarrow> Inl err
      | Inr (flags, command) \<Rightarrow>
          (case parseFlags (defaultConfig\<lparr>g_command := command\<rparr>) [] flags of
             Inl err \<Rightarrow> Inl err
           | Inr (cfg, seen, positional) \<Rightarrow>
               (let isSet = (\<lambda>name. name \<in> set seen) in
                case checkFlags cfg isSet of
                  Some err \<Rightarrow> Inl err
                | None \<Rightarrow> finishConfig F cfg isSet positional)))"

section \<open>Accepted configurations\<close>

text \<open>What the flags establish one by one, and what the checks add.\<close>

definition flagsInv :: "string list \<Rightarrow> config \<Rightarrow> string list \<Rightarrow> bool" where
  "flagsInv command cfg seen = (g_command cfg = command \<and> validWait (g_lockWait cfg) \<and>
     [] \<notin> set (g_excludes cfg) \<and> g_interval cfg < 2 ^ 63 \<and> g_lockTimeout cfg < 2 ^ 63 \<and>
     (''lock-ttl'' \<notin> set seen \<longrightarrow> g_lockTimeout cfg = defaultLockTTL) \<and>
     (''lock-wait'' \<notin> set seen \<longrightarrow> g_lockWait cfg = noLockWait) \<and>
     (''persistent-lock'' \<notin> set seen \<longrightarrow> g_persistentLock cfg = []))"

lemma setValue_inv:
  assumes "setValue name v cfg = Some cfg'" "flagsInv command cfg seen"
  shows "flagsInv command cfg' (name # seen)"
proof -
  have below: "parseDuration v = Some d \<Longrightarrow> d < 9223372036854775808" for d using parseDuration_bounds [of v d] by simp
  show ?thesis
  proof (cases "name = ''interval'' \<or> name = ''lock-ttl''")
    case True
    show ?thesis
    proof (cases "parseDuration v")
      case None
      then show ?thesis using True assms(1) by (simp add: setValue_def split: if_split_asm)
    next
      case (Some d)
      then have "d < 2 ^ 63" using below by simp
      then show ?thesis
        using True assms(2) arg_cong [OF assms(1) [symmetric], of the] Some
        by (cases "name = ''interval''") (simp_all add: setValue_def flagsInv_def)
    qed
  next
    case dur: False
    show ?thesis
    proof (cases "name = ''lock-wait''")
      case True
      then obtain w where w: "lockWaitSet v = Inr w" using assms(1) by (cases "lockWaitSet v") (simp_all add: setValue_def)
      then have "validWait w" using lockWaitSet_valid by blast
      then show ?thesis
        using True w assms(2) arg_cong [OF assms(1) [symmetric], of the] by (simp add: setValue_def flagsInv_def)
    next
      case wait: False
      show ?thesis
      proof (cases "name = ''exclude''")
        case True
        then show ?thesis using assms by (auto simp: setValue_def flagsInv_def excludeSet_def split: if_split_asm)
      next
        case False
        then show ?thesis
          using dur wait assms(2) arg_cong [OF assms(1) [symmetric], of the]
          by (cases "name = ''persistent-lock''") (simp_all add: setValue_def flagsInv_def split: if_split)
      qed
    qed
  qed
qed

lemma setBool_fields [simp]:
  "g_interval (setBool name b cfg) = g_interval cfg" "g_lockTimeout (setBool name b cfg) = g_lockTimeout cfg"
  "g_lockWait (setBool name b cfg) = g_lockWait cfg" "g_persistentLock (setBool name b cfg) = g_persistentLock cfg"
  "g_excludes (setBool name b cfg) = g_excludes cfg" "g_command (setBool name b cfg) = g_command cfg"
  "g_syncPaths (setBool name b cfg) = g_syncPaths cfg"
  by (simp_all add: setBool_def)

lemma setBool_inv: "flagsInv command cfg seen \<Longrightarrow> flagsInv command (setBool name b cfg) (name # seen)"
  by (simp add: flagsInv_def)

lemma parseFlags_inv:
  "parseFlags cfg seen args = Inr (cfg', seen', rest) \<Longrightarrow> flagsInv command cfg seen \<Longrightarrow> flagsInv command cfg' seen'"
proof (induction cfg seen args rule: parseFlags.induct)
  case (2 cfg seen s args)
  show ?case
  proof (cases "\<exists>x. parseOne cfg s args = Inr (Some x)")
    case True
    then obtain cfg1 name left where one: "parseOne cfg s args = Inr (Some (cfg1, name, left))" by auto
    then have "flagsInv command cfg1 (name # seen)"
      using parseOne_Some [OF one] "2.prems"(2) setValue_inv setBool_inv by auto
    then show ?thesis using "2.IH" [OF one refl refl refl] "2.prems"(1) one by simp
  next
    case False
    then show ?thesis using "2.prems" by (auto split: sum.splits option.splits)
  qed
qed simp

text \<open>The type of a configuration that \<open>parseConfig\<close> accepts.\<close>

definition validConfig :: "config \<Rightarrow> bool" where
  "validConfig cfg = (0 \<le> g_interval cfg \<and> g_interval cfg < 2 ^ 63 \<and>
     0 < g_lockTimeout cfg \<and> g_lockTimeout cfg < 2 ^ 63 \<and> validWait (g_lockWait cfg) \<and>
     [] \<notin> set (g_excludes cfg) \<and>
     (g_uploadOnly cfg \<longrightarrow> g_lockTimeout cfg = defaultLockTTL \<and> g_lockWait cfg = noLockWait \<and>
        g_persistentLock cfg = [] \<and> \<not> g_forceDeleteRemote cfg \<and> \<not> g_noConsistentWrites cfg \<and>
        \<not> g_failOnIncomplete cfg \<and> g_syncPaths cfg = noPaths))"

lemma setValue_paths: "setValue name v cfg = Some cfg' \<Longrightarrow> g_syncPaths cfg' = g_syncPaths cfg"
  by (auto simp: setValue_def split: if_splits sum.splits)

lemma parseFlags_paths:
  "parseFlags cfg seen args = Inr (cfg', seen', rest) \<Longrightarrow> g_syncPaths cfg' = g_syncPaths cfg"
proof (induction cfg seen args rule: parseFlags.induct)
  case (2 cfg seen s args)
  show ?case
  proof (cases "\<exists>x. parseOne cfg s args = Inr (Some x)")
    case True
    then obtain cfg1 name left where one: "parseOne cfg s args = Inr (Some (cfg1, name, left))" by auto
    then have "g_syncPaths cfg1 = g_syncPaths cfg" using parseOne_Some [OF one] setValue_paths by auto
    then show ?thesis using "2.IH" [OF one refl refl refl] "2.prems" one by simp
  next
    case False
    then show ?thesis using "2.prems" by (auto split: sum.splits option.splits)
  qed
qed simp

lemma checkFlags_None:
  "checkFlags cfg isSet = None \<Longrightarrow> 0 \<le> g_interval cfg \<and> 0 < g_lockTimeout cfg \<and>
     (isSet ''persistent-lock'' \<longrightarrow> g_persistentLock cfg \<noteq> []) \<and>
     (isSet ''state-file-local'' = isSet ''state-file-remote'') \<and>
     (g_uploadOnly cfg \<longrightarrow> uploadOnlyConflict cfg isSet = None)"
  by (auto simp: checkFlags_def split: if_splits)

lemma finishConfig_Inr:
  "finishConfig F cfg isSet ps = Inr cfg' \<Longrightarrow>
     \<exists>source dest paths. cfg' = cfg\<lparr>g_source := source, g_dest := dest, g_syncPaths := paths\<rparr> \<and>
       (g_uploadOnly cfg \<longrightarrow> paths = g_syncPaths cfg)"
proof -
  assume fin: "finishConfig F cfg isSet ps = Inr cfg'"
  then obtain a dest where ps: "ps = [a, dest]" by (auto simp: finishConfig_def split: list.splits)
  then obtain source where src: "resolveSource F a = Inr source" using fin by (auto simp: finishConfig_def split: sum.splits)
  show ?thesis
  proof (cases "g_uploadOnly cfg")
    case True
    then have "cfg' = cfg\<lparr>g_source := source, g_dest := dest, g_syncPaths := g_syncPaths cfg\<rparr>"
      using fin ps src by (cases cfg) (auto simp: finishConfig_def)
    then show ?thesis by blast
  next
    case False
    then show ?thesis
      using fin ps src by (fastforce simp: finishConfig_def split: prod.splits sum.splits)
  qed
qed

lemma parseConfig_valid:
  assumes "parseConfig F args = Inr cfg"
  shows "validConfig cfg \<and> splitCommand args = Inr (takeWhile (\<lambda>a. a \<noteq> ''--'') args, g_command cfg)"
proof -
  obtain flags command cfg0 seen ps where c: "splitCommand args = Inr (flags, command)"
    "parseFlags (defaultConfig\<lparr>g_command := command\<rparr>) [] flags = Inr (cfg0, seen, ps)"
    "checkFlags cfg0 (\<lambda>name. name \<in> set seen) = None" "finishConfig F cfg0 (\<lambda>name. name \<in> set seen) ps = Inr cfg"
    using assms by (auto simp: parseConfig_def Let_def split: sum.splits option.splits prod.splits)
  have "flagsInv command (defaultConfig\<lparr>g_command := command\<rparr>) []"
    by (simp add: flagsInv_def defaultConfig_def noLockWait_valid defaultLockTTL_def minute_def second_def)
  from parseFlags_inv [OF c(2) this] have inv: "flagsInv command cfg0 seen" .
  have paths: "g_syncPaths cfg0 = noPaths" using parseFlags_paths [OF c(2)] by (simp add: defaultConfig_def)
  obtain source dest p where cfg: "cfg = cfg0\<lparr>g_source := source, g_dest := dest, g_syncPaths := p\<rparr>"
    "g_uploadOnly cfg0 \<longrightarrow> p = g_syncPaths cfg0"
    using finishConfig_Inr [OF c(4)] by blast
  have all: "takeWhile (\<lambda>a. a \<noteq> ''--'') args = args" if "length args \<le> length (takeWhile (\<lambda>a. a \<noteq> ''--'') args)"
    using that takeWhile_eq_take [of "\<lambda>a. a \<noteq> ''--''" args] by (metis take_all)
  have "flags = takeWhile (\<lambda>a. a \<noteq> ''--'') args"
  proof (cases "drop (length (takeWhile (\<lambda>a. a \<noteq> ''--'') args)) args")
    case Nil
    then have "flags = args" using c(1) by (simp add: splitCommand_def Let_def)
    moreover have "takeWhile (\<lambda>a. a \<noteq> ''--'') args = args" using Nil by (intro all) simp
    ultimately show ?thesis by (simp only:)
  next
    case (Cons x xs)
    then show ?thesis using c(1) by (simp add: splitCommand_def Let_def split: if_splits)
  qed
  moreover have "validConfig cfg"
    using inv checkFlags_None [OF c(3)] cfg paths
    by (auto simp: validConfig_def flagsInv_def uploadOnlyConflict_def split: if_splits)
  ultimately show ?thesis using c(1) inv cfg by (simp add: flagsInv_def)
qed

end
