(* ===== verification/Backend.thy ===== *)
theory Backend
  imports World SyncPath Scopes
begin

text \<open>
  src/backend.go: whether state writes can be conditional. The type of the destination's
  backend comes from the connection string, the process environment (\<open>getenv\<close>) or rclone's
  configuration, and S3 needs an rclone that is recent enough. Names of remotes are
  upper-cased byte by byte, which is \<open>strings.ToUpper\<close> on ASCII names.
\<close>

definition newlineChar :: char where
  "newlineChar = CHR 0x0A"

text \<open>\<open>strings.Cut\<close> for a one character separator is \<open>cutAt\<close>.\<close>

fun listedType :: "string \<Rightarrow> string list \<Rightarrow> string option" where
  "listedType wanted [] = None"
| "listedType wanted (line # rest) =
     (case cutAt (CHR '':'') line of (name, after, found) \<Rightarrow>
        if found \<and> name = wanted \<and> GoStrings.fields after \<noteq> [] then Some (hd (GoStrings.fields after))
        else listedType wanted rest)"

definition destinationBackend ::
    "'r env \<Rightarrow> (string \<Rightarrow> string option) \<Rightarrow> string \<Rightarrow> (('r, 'z) world_scheme, goerr + string) state" where
  "destinationBackend E getenv destination =
     (case parseRemote destination of
        Inl err \<Rightarrow> State_Monad.return (Inl err)
      | Inr remote \<Rightarrow>
          if rs_colon remote = None then State_Monad.return (Inr ''local'')
          else if prefix '':'' (rs_name remote) then State_Monad.return (Inr (trimPrefix (rs_name remote) '':''))
          else (case rs_options remote ''type'' of
            Some backend \<Rightarrow> State_Monad.return (Inr backend)
          | None \<Rightarrow>
              (case getenv (''RCLONE_CONFIG_'' @ map toUpper (rs_name remote) @ ''_TYPE'') of
                 Some backend \<Rightarrow> State_Monad.return (Inr backend)
               | None \<Rightarrow> do {
                   r \<leftarrow> rcloneRun E True [''listremotes'', ''--long''];
                   State_Monad.return (case r_err r of
                       Some err \<Rightarrow> Inl (Wrapped ''detect destination backend: %w'' [] (commandError err (r_stderr r)))
                     | None \<Rightarrow>
                         (case listedType (rs_name remote) (splitOn newlineChar (r_stdout r)) of
                            Some backend \<Rightarrow> Inr backend
                          | None \<Rightarrow> Inl (Errorf ''cannot determine backend type for remote %q'' [Str (rs_name remote)]))) })))"

text \<open>The check of the version text, the output of \<open>rclone version\<close>.\<close>

definition checkVersion :: "string \<Rightarrow> goerr option" where
  "checkVersion output =
     (let line = fst (cutAt newlineChar output);
          words = GoStrings.fields line;
          unparsed = Some (Errorf ''cannot parse rclone version from %q'' [Str line])
      in if length words < 2 \<or> hd words \<noteq> ''rclone'' then unparsed
         else (let parts = splitOn (CHR ''.'') (fst (cutAt (CHR ''-'') (trimPrefix (words ! 1) ''v''))) in
           if length parts < 2 then unparsed
           else (case (parseInt64 (parts ! 0), parseInt64 (parts ! 1)) of
               (Some major, Some minor) \<Rightarrow>
                 if major < 1 \<or> major = 1 \<and> minor < 73
                 then Some (Errorf ''S3 consistent writes require rclone v1.73.0 or newer (found %s); use --no-consistent-writes only if the provider does not support conditional writes'' [Str (words ! 1)])
                 else None
             | _ \<Rightarrow> unparsed)))"

definition requireConditionalWriteVersion :: "'r env \<Rightarrow> (('r, 'z) world_scheme, goerr option) state" where
  "requireConditionalWriteVersion E = do {
     r \<leftarrow> rcloneRun E True [''version''];
     State_Monad.return (case r_err r of
         Some err \<Rightarrow> Some (Wrapped ''check rclone version: %w'' [] (commandError err (r_stderr r)))
       | None \<Rightarrow> checkVersion (r_stdout r)) }"

definition useConsistentWrites ::
    "'r env \<Rightarrow> (string \<Rightarrow> string option) \<Rightarrow> string \<Rightarrow> bool \<Rightarrow> (('r, 'z) world_scheme, goerr + bool) state" where
  "useConsistentWrites E getenv destination disabled =
     (if disabled then State_Monad.return (Inr False)
      else do {
        b \<leftarrow> destinationBackend E getenv destination;
        (case b of
           Inl err \<Rightarrow> State_Monad.return (Inl err)
         | Inr backend \<Rightarrow>
             if backend \<noteq> ''s3'' then State_Monad.return (Inr False)
             else do {
               e \<leftarrow> requireConditionalWriteVersion E;
               State_Monad.return (case e of Some err \<Rightarrow> Inl err | None \<Rightarrow> Inr True) }) })"

section \<open>Versions that are accepted\<close>

lemma segments_ascii:
  assumes "\<forall>c \<in> set s. byte_of c < 128"
  shows "segments s = map (\<lambda>c. (Some (byte_of c), [c])) s"
proof -
  have "\<forall>r \<in> set (map byte_of s). valid_rune r" using assms by (auto simp: valid_rune_def)
  moreover have "encodeRune (byte_of c) = [c]" if "c \<in> set s" for c
  proof -
    have "byte_of c < 128" using assms that by simp
    then show ?thesis by (simp add: encodeRune_def valid_rune_def)
  qed
  ultimately show ?thesis
    using segments_encodeRunes [of "map byte_of s"] encodeRunes_ascii [OF assms] by simp
qed

text \<open>A word of printable ASCII characters.\<close>

definition wordChars :: "string \<Rightarrow> bool" where
  "wordChars s = (\<forall>c \<in> set s. 32 < byte_of c \<and> byte_of c < 127)"

lemma fieldsOf_word:
  "\<forall>g \<in> set gs. \<not> isSpaceSeg g \<Longrightarrow> fieldsOf (gs @ rest) acc = fieldsOf rest (acc @ concat (map snd gs))"
  by (induction gs arbitrary: acc) auto

lemma wordChars_seg: "wordChars s \<Longrightarrow> \<forall>g \<in> set (map (\<lambda>c. (Some (byte_of c), [c])) s). \<not> isSpaceSeg g"
  by (auto simp: wordChars_def isSpaceSeg_def isSpace_def)

lemma fields_two:
  assumes "wordChars a" "wordChars b" "a \<noteq> []" "b \<noteq> []"
  shows "GoStrings.fields (a @ CHR '' '' # b) = [a, b]"
proof -
  have ascii: "\<forall>c \<in> set (a @ CHR '' '' # b). byte_of c < 128"
    using assms(1,2) by (fastforce simp: wordChars_def byte_of_def [of "CHR '' ''"])
  have space: "isSpaceSeg (Some (byte_of (CHR '' '')), [CHR '' ''])" by (simp add: isSpaceSeg_def isSpace_def byte_of_def)
  have "concat (map (\<lambda>c. [c]) s) = s" for s :: string by (induction s) auto
  then show ?thesis
    using assms(3,4) fieldsOf_word [OF wordChars_seg [OF assms(1)], of _ "[]"]
      fieldsOf_word [OF wordChars_seg [OF assms(2)], of "[]" "[]"] space
    by (simp add: GoStrings.fields_def segments_ascii [OF ascii] comp_def)
qed

lemma wordChars_dec [simp]: "wordChars (dec n)"
  using dec_digits [of n] by (auto simp: wordChars_def list_all_iff isDigit_def)

lemma parseInt64_dec: "n < 2 ^ 63 \<Longrightarrow> parseInt64 (dec n) = Some (int n)"
  using parseInt64_decInt [of "int n"] by (simp add: decInt_def)

lemma digit_free: "c \<in> set (dec n) \<Longrightarrow> 48 \<le> byte_of c \<and> byte_of c \<le> 57"
  using dec_digits [of n] by (auto simp: list_all_iff isDigit_def)

lemma checkVersion_release:
  assumes "major < 2 ^ 63" "minor < 2 ^ 63"
  shows "checkVersion (''rclone v'' @ dec major @ ''.'' @ dec minor @ ''.'' @ dec patch @ newlineChar # tail) = None \<longleftrightarrow>
    1 < major \<or> (major = 1 \<and> 73 \<le> minor)"
proof -
  define v where "v = dec major @ ''.'' @ dec minor @ ''.'' @ dec patch"
  have notin: "c \<notin> set (dec n)" if "byte_of c < 48" for c n using digit_free [of c n] that by auto
  have v: "wordChars (''v'' @ v)" "newlineChar \<notin> set v" "CHR ''-'' \<notin> set v"
    using notin by (auto simp: v_def wordChars_def newlineChar_def byte_of_def dest: digit_free)
  have r: "wordChars ''rclone''" by (simp add: wordChars_def byte_of_def)
  have line: "fst (cutAt newlineChar (''rclone'' @ CHR '' '' # (''v'' @ v) @ newlineChar # tail)) = ''rclone'' @ CHR '' '' # ''v'' @ v"
  proof -
    have "newlineChar \<notin> set (''rclone'' @ CHR '' '' # ''v'' @ v)" using v(2) by (simp add: newlineChar_def)
    then have "takeWhile (\<lambda>x. x \<noteq> newlineChar) ((''rclone'' @ CHR '' '' # ''v'' @ v) @ newlineChar # tail) = ''rclone'' @ CHR '' '' # ''v'' @ v"
      by (subst takeWhile_append2) auto
    then show ?thesis by (simp add: cutAt_def)
  qed
  have words: "GoStrings.fields (''rclone'' @ CHR '' '' # ''v'' @ v) = [''rclone'', ''v'' @ v]"
    by (rule fields_two [OF r v(1)]) simp_all
  have parts: "splitOn (CHR ''.'') v = [dec major, dec minor, dec patch]"
    using notin [of "CHR ''.''"] by (simp add: v_def splitOn_append splitOn_single byte_of_def)
  have trim: "trimPrefix (''v'' @ v) ''v'' = v" "fst (cutAt (CHR ''-'') v) = v"
    using v(3) by (simp_all add: trimPrefix_def cutAt_def)
  have "checkVersion (''rclone'' @ CHR '' '' # (''v'' @ v) @ newlineChar # tail) = None \<longleftrightarrow>
    1 < major \<or> (major = 1 \<and> 73 \<le> minor)"
    unfolding checkVersion_def line Let_def words
    using trim parts parseInt64_dec [OF assms(1)] parseInt64_dec [OF assms(2)] by auto
  then show ?thesis by (simp add: v_def)
qed

lemma useConsistentWrites_disabled: "run_state (useConsistentWrites E getenv destination True) w = (Inr False, w)"
  by (simp add: useConsistentWrites_def)

end
