(* ===== verification/Watcher.thy ===== *)
theory Watcher
  imports Syncer
begin

text \<open>
  src/watcher_linux.go: the recursive inotify watcher. Its state is the record
  \<open>watcher\<close>; the kernel and the file tree that is walked are parameters (\<open>kernel\<close>): the
  entries \<open>filepath.WalkDir\<close> visits, the descriptor \<open>inotify_add_watch\<close> returns on an instance and
  whether a new instance can be made, each by the index of the call. Reads of the inotify
  descriptor are a schedule of results. The channel of events is the list of all changes
  sent, oldest first; the channel of errors holds at most one.
\<close>

section \<open>Masks\<close>

type_synonym mask = "32 word"

definition IN_MODIFY :: mask where "IN_MODIFY = 0x2"
definition IN_ATTRIB :: mask where "IN_ATTRIB = 0x4"
definition IN_CLOSE_WRITE :: mask where "IN_CLOSE_WRITE = 0x8"
definition IN_MOVED_FROM :: mask where "IN_MOVED_FROM = 0x40"
definition IN_MOVED_TO :: mask where "IN_MOVED_TO = 0x80"
definition IN_CREATE :: mask where "IN_CREATE = 0x100"
definition IN_DELETE :: mask where "IN_DELETE = 0x200"
definition IN_DELETE_SELF :: mask where "IN_DELETE_SELF = 0x400"
definition IN_MOVE_SELF :: mask where "IN_MOVE_SELF = 0x800"
definition IN_Q_OVERFLOW :: mask where "IN_Q_OVERFLOW = 0x4000"
definition IN_IGNORED :: mask where "IN_IGNORED = 0x8000"
definition IN_ISDIR :: mask where "IN_ISDIR = 0x40000000"

text \<open>\<open>mask&bits != 0\<close>.\<close>

definition hasAny :: "mask \<Rightarrow> mask list \<Rightarrow> bool" where
  "hasAny m bits = (and m (foldr or bits 0) \<noteq> 0)"

text \<open>The events that are asked for.\<close>

definition watchMask :: mask where
  "watchMask = foldr or [IN_ATTRIB, IN_CLOSE_WRITE, IN_CREATE, IN_DELETE, IN_DELETE_SELF, IN_MODIFY, IN_MOVED_FROM,
     IN_MOVED_TO, IN_MOVE_SELF] 0"

section \<open>State\<close>

record entry =
  e_path :: string
  e_err :: "goerr option"
  e_isDir :: bool

record kernel =
  k_walk :: "nat \<Rightarrow> string \<Rightarrow> entry list"
  k_addWatch :: "nat \<Rightarrow> nat \<Rightarrow> string \<Rightarrow> mask \<Rightarrow> goerr + int"
  k_init :: "nat \<Rightarrow> goerr + nat"

record watcher =
  x_root :: string
  x_fd :: nat
  x_file :: nat
  x_closed :: bool
  x_events :: "change list"
  x_errors :: "goerr option"
  x_finished :: bool
  x_byDescriptor :: "(int \<times> string) list"
  x_byPath :: "(string \<times> int) list"
  x_removed :: "int list"
  x_calls :: nat

text \<open>\<open>x_removed\<close> are the descriptors given to \<open>inotify_rm_watch\<close>; nothing reads it.\<close>

type_synonym 'a watching = "(watcher, 'a) state"

definition nextCall :: "nat watching" where
  "nextCall = State (\<lambda>w. (x_calls w, w\<lparr>x_calls := Suc (x_calls w)\<rparr>))"

section \<open>Channels\<close>

definition sendChange :: "change \<Rightarrow> unit watching" where
  "sendChange item = modify (\<lambda>w. w\<lparr>x_events := x_events w @ [item]\<rparr>)"

text \<open>An error is dropped when one is already waiting.\<close>

definition failWatcher :: "goerr \<Rightarrow> unit watching" where
  "failWatcher err = modify (\<lambda>w. w\<lparr>x_errors := (case x_errors w of None \<Rightarrow> Some err | Some e \<Rightarrow> Some e)\<rparr>)"

definition closeWatcher :: "unit watching" where
  "closeWatcher = modify (\<lambda>w. w\<lparr>x_closed := True\<rparr>)"

section \<open>Watches\<close>

definition relativeTo :: "string \<Rightarrow> string \<Rightarrow> string" where
  "relativeTo root path = (case filepathRel root path of None \<Rightarrow> path | Some r \<Rightarrow> r)"

definition addPath :: "kernel \<Rightarrow> string \<Rightarrow> goerr option watching" where
  "addPath K path = do {
     w \<leftarrow> State_Monad.get;
     if map_of (x_byPath w) path \<noteq> None then State_Monad.return None
     else do {
       n \<leftarrow> nextCall;
       (case k_addWatch K (x_fd w) n path watchMask of
          Inl err \<Rightarrow> State_Monad.return (Some (Wrapped ''watch %q: %w'' [Str path] err))
        | Inr d \<Rightarrow> do {
            modify (\<lambda>w. w\<lparr>x_byDescriptor := AList.update d path (x_byDescriptor w),
              x_byPath := AList.update path d (x_byPath w)\<rparr>);
            State_Monad.return None }) } }"

definition inSubtree :: "string \<Rightarrow> string \<Rightarrow> bool" where
  "inSubtree path watched = (watched = path \<or>
     length watched > length path \<and> take (length path + 1) watched = path @ ''/'')"

text \<open>The order in which the map is visited does not matter: every entry is judged by itself.\<close>

definition removeTree :: "string \<Rightarrow> unit watching" where
  "removeTree path = modify (\<lambda>w.
     let gone = filter (\<lambda>(watched, d). inSubtree path watched) (x_byPath w) in
     w\<lparr>x_byPath := filter (\<lambda>(watched, d). \<not> inSubtree path watched) (x_byPath w),
       x_byDescriptor := filter (\<lambda>(d, p). d \<notin> snd ` set gone) (x_byDescriptor w),
       x_removed := map snd gone @ x_removed w\<rparr>)"

text \<open>The function \<open>addTree\<close> passes to \<open>WalkDir\<close>, on one entry, and the walk up to the first error.\<close>

definition visit :: "kernel \<Rightarrow> bool \<Rightarrow> entry \<Rightarrow> goerr option watching" where
  "visit K emit entry =
     (case e_err entry of
        Some err \<Rightarrow> State_Monad.return (if isNotExist err then None else Some err)
      | None \<Rightarrow> do {
          e \<leftarrow> (if e_isDir entry then do {
                 a \<leftarrow> addPath K (e_path entry);
                 State_Monad.return (case a of None \<Rightarrow> None | Some err \<Rightarrow> if isNotExist err then None else Some err) }
               else State_Monad.return None);
          (case e of
             Some err \<Rightarrow> State_Monad.return (Some err)
           | None \<Rightarrow> do {
               w \<leftarrow> State_Monad.get;
               (if emit \<and> e_path entry \<noteq> x_root w
                then sendChange \<lparr>ch_path = relativeTo (x_root w) (e_path entry), ch_isDir = e_isDir entry, ch_removed = False\<rparr>
                else State_Monad.return ());
               State_Monad.return None }) })"

fun visitAll :: "kernel \<Rightarrow> bool \<Rightarrow> entry list \<Rightarrow> goerr option watching" where
  "visitAll K emit [] = State_Monad.return None"
| "visitAll K emit (entry # rest) = do {
     e \<leftarrow> visit K emit entry;
     (case e of Some err \<Rightarrow> State_Monad.return (Some err) | None \<Rightarrow> visitAll K emit rest) }"

definition addTree :: "kernel \<Rightarrow> string \<Rightarrow> bool \<Rightarrow> goerr option watching" where
  "addTree K root emit = do { n \<leftarrow> nextCall; visitAll K emit (k_walk K n root) }"

text \<open>
  A new instance with new maps takes over only if the whole tree could be watched;
  \<open>x_file\<close> counts the instances. \<open>restore\<close> keeps the old one.
\<close>

definition restore :: "watcher \<Rightarrow> unit watching" where
  "restore old = modify (\<lambda>w. w\<lparr>x_fd := x_fd old, x_byDescriptor := x_byDescriptor old,
     x_byPath := x_byPath old\<rparr>)"

definition rebuild :: "kernel \<Rightarrow> goerr option watching" where
  "rebuild K = do {
     n \<leftarrow> nextCall;
     (case k_init K n of
        Inl err \<Rightarrow> State_Monad.return (Some (Wrapped ''initialize inotify: %w'' [] err))
      | Inr fd \<Rightarrow> do {
          old \<leftarrow> State_Monad.get;
          modify (\<lambda>w. w\<lparr>x_fd := fd, x_byDescriptor := [], x_byPath := []\<rparr>);
          e \<leftarrow> addTree K (x_root old) False;
          (case e of
             Some err \<Rightarrow> do { restore old; State_Monad.return (Some err) }
           | None \<Rightarrow> do {
               w \<leftarrow> State_Monad.get;
               if map_of (x_byPath w) (x_root w) = None
               then do { restore old; State_Monad.return (Some (errorString ''source folder is no longer a directory'')) }
               else do { modify (\<lambda>w. w\<lparr>x_file := Suc (x_file w)\<rparr>); State_Monad.return None } }) }) }"

definition newWatcher :: "kernel \<Rightarrow> (string \<Rightarrow> goerr + string) \<Rightarrow> string \<Rightarrow> goerr + watcher" where
  "newWatcher K evalSymlinks root0 =
     (case evalSymlinks root0 of
        Inl err \<Rightarrow> Inl (Wrapped ''resolve watch root: %w'' [] err)
      | Inr root \<Rightarrow>
          (case run_state (rebuild K)
              \<lparr>x_root = root, x_fd = 0, x_file = 0, x_closed = False, x_events = [], x_errors = None,
               x_finished = False, x_byDescriptor = [], x_byPath = [], x_removed = [], x_calls = 0\<rparr>
           of (Some err, w) \<Rightarrow> Inl err | (None, w) \<Rightarrow> Inr w))"

section \<open>Events\<close>

definition dropNameZeros :: "string \<Rightarrow> string" where
  "dropNameZeros s = rev (dropWhile (\<lambda>c. c = CHR 0x00) (rev s))"

definition reportChange :: "mask \<Rightarrow> string \<Rightarrow> bool \<Rightarrow> unit watching" where
  "reportChange m path isDir = do {
     w \<leftarrow> State_Monad.get;
     if hasAny m [IN_ATTRIB, IN_CLOSE_WRITE, IN_CREATE, IN_DELETE, IN_MODIFY, IN_MOVED_FROM, IN_MOVED_TO]
     then sendChange \<lparr>ch_path = relativeTo (x_root w) path, ch_isDir = isDir,
            ch_removed = hasAny m [IN_DELETE, IN_MOVED_FROM]\<rparr>
     else State_Monad.return () }"

text \<open>What \<open>handle\<close> does with an event of a watched directory, and its end.\<close>

definition handleEntry :: "kernel \<Rightarrow> int \<Rightarrow> mask \<Rightarrow> string \<Rightarrow> string \<Rightarrow> unit watching" where
  "handleEntry K descriptor m base path =
     (if hasAny m [IN_ISDIR] \<and> hasAny m [IN_CREATE, IN_MOVED_TO] then do {
        e \<leftarrow> addTree K path True;
        (case e of
           None \<Rightarrow> State_Monad.return ()
         | Some err \<Rightarrow> if isNotExist err then State_Monad.return () else do { failWatcher err; closeWatcher }) }
      else if hasAny m [IN_IGNORED]
      then modify (\<lambda>w. w\<lparr>x_byDescriptor := AList.delete descriptor (x_byDescriptor w),
             x_byPath := AList.delete base (x_byPath w)\<rparr>)
      else reportChange m path (hasAny m [IN_ISDIR]))"

definition handleAt :: "kernel \<Rightarrow> int \<Rightarrow> mask \<Rightarrow> string \<Rightarrow> string \<Rightarrow> unit watching" where
  "handleAt K descriptor m base path = do {
     root \<leftarrow> gets x_root;
     if hasAny m [IN_DELETE_SELF, IN_MOVE_SELF] \<and> path = root
     then do { failWatcher (errorString ''source folder was removed or moved''); closeWatcher }
     else do {
       (if hasAny m [IN_ISDIR] \<and> hasAny m [IN_DELETE, IN_MOVED_FROM] then removeTree path else State_Monad.return ());
       handleEntry K descriptor m base path } }"

definition handle :: "kernel \<Rightarrow> int \<Rightarrow> mask \<Rightarrow> string \<Rightarrow> unit watching" where
  "handle K descriptor m name =
     (if hasAny m [IN_Q_OVERFLOW] then do {
        e \<leftarrow> rebuild K;
        (case e of
           Some err \<Rightarrow> do { failWatcher (Wrapped ''rebuild watches after overflow: %w'' [] err); closeWatcher }
         | None \<Rightarrow> sendChange \<lparr>ch_path = dot, ch_isDir = True, ch_removed = False\<rparr>) }
      else do {
        w \<leftarrow> State_Monad.get;
        (case map_of (x_byDescriptor w) descriptor of
           None \<Rightarrow> State_Monad.return ()
         | Some base \<Rightarrow> handleAt K descriptor m base (if name \<noteq> [] then pathJoin [base, name] else base)) })"

section \<open>Reading\<close>

text \<open>The header of an event: four little-endian words, the descriptor signed.\<close>

definition headerSize :: nat where
  "headerSize = 16"

definition le32 :: "string \<Rightarrow> nat" where
  "le32 s = byte_of (s ! 0) + 256 * byte_of (s ! 1) + 65536 * byte_of (s ! 2) + 16777216 * byte_of (s ! 3)"

definition eventWd :: "string \<Rightarrow> int" where
  "eventWd s = sint (of_nat (le32 s) :: 32 word)"

definition eventMask :: "string \<Rightarrow> mask" where
  "eventMask s = of_nat (le32 (drop 4 s))"

definition eventSize :: "string \<Rightarrow> nat" where
  "eventSize s = headerSize + le32 (drop 12 s)"

definition eventName :: "string \<Rightarrow> string" where
  "eventName s = dropNameZeros (slice headerSize (eventSize s) s)"

text \<open>\<open>process\<close> from an offset on; the buffer is what is left of the \<open>nread\<close> bytes read.\<close>

function processFrom :: "kernel \<Rightarrow> nat \<Rightarrow> nat \<Rightarrow> string \<Rightarrow> bool watching" where
  "processFrom K nread offset buffer =
     (if length buffer < headerSize then State_Monad.return True
      else if length buffer < eventSize buffer then do {
        failWatcher (Errorf ''truncated inotify event: read=%d offset=%d event-size=%d name-size=%d''
          [Num (int nread), Num (int offset), Num (int (eventSize buffer)), Num (int (le32 (drop 12 buffer)))]);
        State_Monad.return False }
      else do {
        file \<leftarrow> gets x_file;
        handle K (eventWd buffer) (eventMask buffer) (eventName buffer);
        now \<leftarrow> gets x_file;
        if now \<noteq> file then State_Monad.return True
        else processFrom K nread (offset + eventSize buffer) (drop (eventSize buffer) buffer) })"
  by auto
termination by (relation "measure (\<lambda>(K, nread, offset, buffer). length buffer)") (auto simp: eventSize_def headerSize_def)

declare processFrom.simps [simp del]

definition process :: "kernel \<Rightarrow> string \<Rightarrow> bool watching" where
  "process K buffer = processFrom K (length buffer) 0 buffer"

text \<open>
  \<open>readLoop\<close> over a schedule of reads: blocking ones until the deadline that \<open>Close\<close> sets,
  then direct ones until nothing is left. It ends with the channels closed.
\<close>

datatype readResult = Data string | DeadlineExceeded | Interrupt | Again | ReadError goerr

definition finishReading :: "unit watching" where
  "finishReading = modify (\<lambda>w. w\<lparr>x_finished := True\<rparr>)"

fun readLoop :: "kernel \<Rightarrow> bool \<Rightarrow> readResult list \<Rightarrow> unit watching" where
  "readLoop K draining [] = State_Monad.return ()"
| "readLoop K draining (Data buffer # reads) = do {
     more \<leftarrow> process K buffer;
     if more then readLoop K draining reads else finishReading }"
| "readLoop K False (DeadlineExceeded # reads) = readLoop K True reads"
| "readLoop K True (Interrupt # reads) = readLoop K True reads"
| "readLoop K True (Again # reads) = finishReading"
| "readLoop K draining (r # reads) = do {
     failWatcher (Wrapped ''read inotify events: %w'' [] (case r of ReadError err \<Rightarrow> err | _ \<Rightarrow> OSError));
     finishReading }"

end
