(* ===== verification/WatcherSafety.thy ===== *)
theory WatcherSafety
  imports Watcher
begin

text \<open>
  What the watcher guarantees. Every change it reports names a path inside the source
  folder that the scoped synchronisation accepts. As long as the kernel gives each watch a
  descriptor of its own, the two maps stay inverse to each other, so that no watched
  directory loses its events. A read of well-formed events handles each of them once, in
  order, up to a rebuild.
\<close>

section \<open>Paths inside the root\<close>

definition cleanRoot :: "string \<Rightarrow> bool" where
  "cleanRoot root = (isAbs root \<and> pathClean root = root)"

definition inTree :: "string \<Rightarrow> string \<Rightarrow> bool" where
  "inTree root p = (\<exists>cs. relPath cs \<and> p = unComps True (comps root @ cs))"

lemma cleanRoot_comps: "cleanRoot root \<Longrightarrow> relPath (comps root) \<and> root = unComps True (comps root)"
  using comps_plain [of _ root] comps_rooted [of root] by (auto simp: cleanRoot_def relPath_def pathClean_def)

lemma inTree_root: "cleanRoot root \<Longrightarrow> inTree root root"
  using cleanRoot_comps [of root] by (auto simp: inTree_def relPath_def intro!: exI [of _ "[]"])

lemma comps_unComps_rel: "relPath cs \<Longrightarrow> comps (unComps True cs) = cs"
  by (rule comps_unComps) (simp add: relPath_def)

lemma pathJoin_child:
  assumes "relPath ds" "relPath [b]"
  shows "pathJoin [unComps True ds, b] = unComps True (ds @ [b])"
proof -
  have b: "plainComp b" "b \<noteq> dotdot" using assms(2) by (auto simp: relPath_def)
  have "isAbs (unComps True ds @ ''/'' @ b)" by (simp add: isAbs_append)
  moreover have "comps (unComps True ds @ ''/'' @ b) = ds @ [b]"
    using comps_slash [of "unComps True ds" b] comps_unComps_rel [OF assms(1)] b
    by (simp add: splitOn_single plainComp_def)
  ultimately show ?thesis
    using b by (simp add: pathJoin_def pathClean_def plainComp_def unComps_def)
qed

lemma inTree_child:
  assumes "cleanRoot root" "inTree root p" "relPath [b]"
  shows "inTree root (pathJoin [p, b])"
proof -
  obtain cs where cs: "relPath cs" "p = unComps True (comps root @ cs)" using assms(2) by (auto simp: inTree_def)
  have "pathJoin [p, b] = unComps True (comps root @ cs @ [b])"
    using pathJoin_child [of "comps root @ cs" b] cs cleanRoot_comps [OF assms(1)] assms(3) by simp
  then show ?thesis using cs(1) assms(3) by (auto simp: inTree_def intro!: exI [of _ "cs @ [b]"])
qed

lemma relativeTo_inTree:
  assumes "cleanRoot root" "relPath cs"
  shows "relativeTo root (unComps True (comps root @ cs)) = rel cs"
proof -
  let ?p = "unComps True (comps root @ cs)"
  have p: "isAbs ?p" "comps ?p = comps root @ cs"
    using comps_unComps_rel [of "comps root @ cs"] cleanRoot_comps [OF assms(1)] assms(2) by auto
  show ?thesis
  proof (cases "cs = []")
    case True
    then show ?thesis
      using cleanRoot_comps [OF assms(1)] by (simp add: relativeTo_def filepathRel_def unComps_def [of False])
  next
    case False
    have strip: "stripCommon bs (bs @ cs) = ([], cs)" for bs
      by (induction bs) (cases cs, auto)
    have ne: "pathClean root \<noteq> pathClean ?p"
      using pathClean_eq_iff [of root ?p] assms(1) p False by (simp add: cleanRoot_def)
    show ?thesis
      using ne assms(1) p strip False rel_nonempty [OF assms(2) False]
      by (simp add: relativeTo_def filepathRel_def cleanRoot_def)
  qed
qed

lemma relative_valid: "cleanRoot root \<Longrightarrow> inTree root p \<Longrightarrow> validChange (relativeTo root p)"
  using relativeTo_inTree validChange_rel by (auto simp: inTree_def)

section \<open>The paths that are watched and reported\<close>

definition kernelInside :: "kernel \<Rightarrow> string \<Rightarrow> bool" where
  "kernelInside K root = (\<forall>n r e. inTree root r \<longrightarrow> e \<in> set (k_walk K n r) \<longrightarrow> inTree root (e_path e))"

definition pathsInv :: "string \<Rightarrow> watcher \<Rightarrow> bool" where
  "pathsInv root w = (x_root w = root \<and> (\<forall>(d, p) \<in> set (x_byDescriptor w). inTree root p) \<and>
     (\<forall>c \<in> set (x_events w). validChange (ch_path c)))"

lemma pathsInv_send:
  "pathsInv root w \<Longrightarrow> validChange (ch_path c) \<Longrightarrow> pathsInv root (w\<lparr>x_events := x_events w @ [c]\<rparr>)"
  by (auto simp: pathsInv_def)

lemma set_update: "set (AList.update k v xs) \<subseteq> insert (k, v) (set xs)"
  by (induction xs) auto

lemma addPath_paths:
  assumes "pathsInv root w" "inTree root path"
  shows "wp (addPath K path) (\<lambda>_. pathsInv root) w"
  using assms set_update [of _ path "x_byDescriptor w"]
  by (fastforce simp: addPath_def wp_simps nextCall_def pathsInv_def split: sum.split)

lemma visit_paths:
  assumes "cleanRoot root" "pathsInv root w" "inTree root (e_path entry)"
  shows "wp (visit K emit entry) (\<lambda>_. pathsInv root) w"
proof -
  have emit: "wp (do { w \<leftarrow> State_Monad.get;
               (if emit \<and> e_path entry \<noteq> x_root w
                then sendChange \<lparr>ch_path = relativeTo (x_root w) (e_path entry), ch_isDir = e_isDir entry, ch_removed = False\<rparr>
                else State_Monad.return ());
               State_Monad.return None }) (\<lambda>_. pathsInv root) t" if "pathsInv root t" for t
    using that relative_valid [OF assms(1,3)] pathsInv_send [OF that]
    by (auto simp: wp_simps sendChange_def pathsInv_def)
  show ?thesis
    using assms(2) emit
    by (auto simp: visit_def wp_bind wp_return intro!: wp_mono [OF addPath_paths [OF assms(2,3)]] split: option.split)
qed

lemma visitAll_paths:
  assumes "cleanRoot root" "pathsInv root w" "\<forall>e \<in> set entries. inTree root (e_path e)"
  shows "wp (visitAll K emit entries) (\<lambda>_. pathsInv root) w"
  using assms(2,3)
proof (induction entries arbitrary: w)
  case (Cons e es)
  then show ?case
    by (auto simp: wp_simps intro!: wp_mono [OF visit_paths [OF assms(1)]] split: option.split)
qed (simp add: wp_simps)

lemma addTree_paths:
  assumes "cleanRoot root" "kernelInside K root" "pathsInv root w" "inTree root path"
  shows "wp (addTree K path emit) (\<lambda>_. pathsInv root) w"
proof -
  have "pathsInv root (w\<lparr>x_calls := Suc (x_calls w)\<rparr>)" using assms(3) by (simp add: pathsInv_def)
  moreover have "\<forall>e \<in> set (k_walk K (x_calls w) path). inTree root (e_path e)"
    using assms(2,4) by (auto simp: kernelInside_def)
  ultimately show ?thesis using visitAll_paths [OF assms(1)] by (simp add: addTree_def wp_simps nextCall_def)
qed

lemma rebuild_paths:
  assumes "cleanRoot root" "kernelInside K root" "pathsInv root w"
  shows "wp (rebuild K) (\<lambda>_. pathsInv root) w"
proof -
  have after: "wp (addTree K root False) (\<lambda>e. wp (case e of
             Some err \<Rightarrow> do { restore w'; State_Monad.return (Some err) }
           | None \<Rightarrow> do {
               w \<leftarrow> State_Monad.get;
               if map_of (x_byPath w) (x_root w) = None
               then do { restore w'; State_Monad.return (Some (errorString ''source folder is no longer a directory'')) }
               else do { modify (\<lambda>w. w\<lparr>x_file := Suc (x_file w)\<rparr>); State_Monad.return None } })
           (\<lambda>_. pathsInv root)) v" if "pathsInv root v" "pathsInv root w'" for v w'
    by (rule wp_mono [OF addTree_paths [OF assms(1,2) that(1) inTree_root [OF assms(1)]]])
      (use that in \<open>auto simp: wp_simps restore_def pathsInv_def split: option.split\<close>)
  show ?thesis
    using assms(3) after
    by (auto simp: rebuild_def wp_simps nextCall_def pathsInv_def split: sum.split)
qed

lemma report_paths:
  assumes "cleanRoot root" "pathsInv root w" "inTree root path"
  shows "wp (reportChange m path isDir) (\<lambda>_. pathsInv root) w"
  using assms relative_valid [OF assms(1,3)]
  by (auto simp: reportChange_def wp_simps sendChange_def pathsInv_def)

lemma failWatcher_paths: "pathsInv root w \<Longrightarrow> wp (failWatcher err) (\<lambda>_. pathsInv root) w"
  by (simp add: failWatcher_def wp_simps pathsInv_def)

lemma closeWatcher_paths: "pathsInv root w \<Longrightarrow> wp closeWatcher (\<lambda>_. pathsInv root) w"
  by (simp add: closeWatcher_def wp_simps pathsInv_def)

lemma fail_close_paths:
  "pathsInv root w \<Longrightarrow> wp (do { failWatcher err; closeWatcher }) (\<lambda>_. pathsInv root) w"
  unfolding wp_bind by (rule wp_mono [OF failWatcher_paths]) (auto intro: closeWatcher_paths)

lemma removeTree_paths: "pathsInv root w \<Longrightarrow> wp (removeTree path) (\<lambda>_. pathsInv root) w"
  by (auto simp: removeTree_def wp_simps pathsInv_def Let_def)

lemma set_delete: "set (AList.delete k xs) \<subseteq> set xs"
  by (auto simp: AList.delete_eq)

lemma handleEntry_paths:
  assumes "cleanRoot root" "kernelInside K root" "pathsInv root w" "inTree root path"
  shows "wp (handleEntry K d m base path) (\<lambda>_. pathsInv root) w"
proof -
  have "wp (addTree K path True) (\<lambda>e. wp (case e of
            None \<Rightarrow> State_Monad.return ()
          | Some err \<Rightarrow> if isNotExist err then State_Monad.return () else do { failWatcher err; closeWatcher })
       (\<lambda>_. pathsInv root)) w"
    by (rule wp_mono [OF addTree_paths [OF assms]])
      (auto simp: wp_return fail_close_paths [unfolded wp_bind] wp_bind split: option.split)
  moreover have "pathsInv root (w\<lparr>x_byDescriptor := AList.delete d (x_byDescriptor w),
            x_byPath := AList.delete base (x_byPath w)\<rparr>)"
    using assms(3) set_delete [of d "x_byDescriptor w"] by (fastforce simp: pathsInv_def)
  ultimately show ?thesis
    using report_paths [OF assms(1,3,4)] by (simp add: handleEntry_def wp_bind wp_modify)
qed

lemma handleAt_paths:
  assumes "cleanRoot root" "kernelInside K root" "pathsInv root w" "inTree root path"
  shows "wp (handleAt K d m base path) (\<lambda>_. pathsInv root) w"
proof -
  have "wp (removeTree path) (\<lambda>_. wp (handleEntry K d m base path) (\<lambda>_. pathsInv root)) w"
    by (rule wp_mono [OF removeTree_paths [OF assms(3)]]) (rule handleEntry_paths [OF assms(1,2) _ assms(4)])
  then show ?thesis
    using handleEntry_paths [OF assms] fail_close_paths [OF assms(3), unfolded wp_bind]
    by (simp add: handleAt_def wp_bind wp_gets wp_return)
qed

lemma handle_paths:
  assumes "cleanRoot root" "kernelInside K root" "pathsInv root w" "name = [] \<or> relPath [name]"
  shows "wp (handle K d m name) (\<lambda>_. pathsInv root) w"
proof (cases "hasAny m [IN_Q_OVERFLOW]")
  case True
  have "validChange dot" by (simp add: validChange_def pathClean_def comps_def unComps_def isAbs_def)
  then show ?thesis
    using True fail_close_paths pathsInv_send
    by (auto simp: handle_def wp_bind sendChange_def wp_modify intro!: wp_mono [OF rebuild_paths [OF assms(1-3)]]
        split: option.split)
next
  case False
  have "inTree root (if name \<noteq> [] then pathJoin [base, name] else base)"
    if "map_of (x_byDescriptor w) d = Some base" for base
    using map_of_SomeD [OF that] assms inTree_child by (auto simp: pathsInv_def)
  then show ?thesis
    using False assms(3) handleAt_paths [OF assms(1-3)]
    by (auto simp: handle_def wp_bind wp_get wp_return split: option.split)
qed

section \<open>The two maps\<close>

text \<open>
  The descriptors of one instance are all different: each call that succeeds returns a new
  one. The kernel returns an old one exactly when the directory is watched already.
\<close>

definition freshDescriptors :: "kernel \<Rightarrow> bool" where
  "freshDescriptors K = (\<forall>fd n m p q d. k_addWatch K fd n p watchMask = Inr d \<longrightarrow> k_addWatch K fd m q watchMask = Inr d \<longrightarrow> n = m)"

definition mapsAgree :: "kernel \<Rightarrow> watcher \<Rightarrow> bool" where
  "mapsAgree K w = ((\<forall>d p. map_of (x_byDescriptor w) d = Some p \<longleftrightarrow> map_of (x_byPath w) p = Some d) \<and>
     distinct (map fst (x_byPath w)) \<and>
     (\<forall>d p. map_of (x_byDescriptor w) d = Some p \<longrightarrow> (\<exists>n < x_calls w. \<exists>q. k_addWatch K (x_fd w) n q watchMask = Inr d)))"

lemma mapsAgree_call: "mapsAgree K w \<Longrightarrow> mapsAgree K (w\<lparr>x_calls := Suc (x_calls w)\<rparr>)"
proof -
  have sel: "x_byDescriptor (w\<lparr>x_calls := n\<rparr>) = x_byDescriptor w" "x_byPath (w\<lparr>x_calls := n\<rparr>) = x_byPath w"
    "x_fd (w\<lparr>x_calls := n\<rparr>) = x_fd w" "x_calls (w\<lparr>x_calls := n\<rparr>) = n" for n by simp_all
  assume "mapsAgree K w"
  then show ?thesis
    unfolding mapsAgree_def sel by (elim conjE, intro conjI) (assumption, assumption, meson less_SucI)
qed

lemma addPath_maps:
  assumes "freshDescriptors K" "mapsAgree K w"
  shows "wp (addPath K path) (\<lambda>_. mapsAgree K) w"
proof -
  let ?D = "map_of (x_byDescriptor w)" and ?P = "map_of (x_byPath w)"
  have new: "?D d = None" if "k_addWatch K (x_fd w) (x_calls w) path watchMask = Inr d" for d
    using assms(1) assms(2)[unfolded mapsAgree_def] that unfolding freshDescriptors_def by (metis less_irrefl option.exhaust)
  have iff: "?D d = Some p \<longleftrightarrow> ?P p = Some d" for d p using assms(2) by (simp add: mapsAgree_def)
  have dist: "distinct (map fst (x_byPath w))" using assms(2) by (simp add: mapsAgree_def)
  have agree: "((?D(d \<mapsto> path)) e = Some p) = ((?P(path \<mapsto> d)) p = Some e)"
    if "?D d = None" "?P path = None" for d e p
    using iff [of d p] iff [of e path] iff [of e p] that by (cases "e = d"; cases "p = path") auto
  have third: "\<forall>d p. ?D d = Some p \<longrightarrow> (\<exists>n < x_calls w. \<exists>q. k_addWatch K (x_fd w) n q watchMask = Inr d)"
    using assms(2) unfolding mapsAgree_def by (elim conjE)
  have old: "\<exists>n < x_calls w. \<exists>q. k_addWatch K (x_fd w) n q watchMask = Inr e" if "?D e = Some p" for e p
    using third that by blast
  have calls: "\<exists>n < Suc (x_calls w). \<exists>q. k_addWatch K (x_fd w) n q watchMask = Inr e"
    if "(?D(d \<mapsto> path)) e = Some p" "k_addWatch K (x_fd w) (x_calls w) path watchMask = Inr d" for d e p
  proof (cases "e = d")
    case True
    then show ?thesis using that(2) by (intro exI [of _ "x_calls w"]) auto
  next
    case False
    then have "?D e = Some p" using that(1) by simp
    from old [OF this] show ?thesis using less_SucI by blast
  qed
  show ?thesis
  proof (cases "?P path")
    case (Some d)
    then show ?thesis using assms(2) by (simp add: addPath_def wp_simps)
  next
    case None
    show ?thesis
    proof (cases "k_addWatch K (x_fd w) (x_calls w) path watchMask")
      case (Inl err)
      have "mapsAgree K (w\<lparr>x_calls := Suc (x_calls w)\<rparr>)" by (rule mapsAgree_call [OF assms(2)])
      then show ?thesis
        using None Inl by (simp add: addPath_def wp_simps nextCall_def)
    next
      case (Inr d)
      define t where "t = w\<lparr>x_calls := Suc (x_calls w), x_byDescriptor := AList.update d path (x_byDescriptor w),
        x_byPath := AList.update path d (x_byPath w)\<rparr>"
      have t: "map_of (x_byDescriptor t) = ?D(d \<mapsto> path)" "map_of (x_byPath t) = ?P(path \<mapsto> d)"
        "distinct (map fst (x_byPath t))" "x_calls t = Suc (x_calls w)" "x_fd t = x_fd w"
        using dist by (simp_all add: t_def update_conv' distinct_update)
      have "mapsAgree K t"
        unfolding mapsAgree_def t using agree [OF new [OF Inr] None] calls [OF _ Inr] t(3) by blast
      then show ?thesis using None Inr by (simp add: addPath_def wp_simps nextCall_def t_def)
    qed
  qed
qed

text \<open>An invariant that every run keeps is an effect, so that it is enough to know it of the parts.\<close>

definition keeping :: "(watcher \<Rightarrow> bool) \<Rightarrow> watcher \<Rightarrow> watcher \<Rightarrow> bool" where
  "keeping Inv w t = (Inv w \<longrightarrow> Inv t)"

interpretation keeping: effect "keeping Inv" for Inv
  by unfold_locales (auto simp: keeping_def)

lemma keepingI: "(\<And>w. Inv w \<Longrightarrow> wp m (\<lambda>_. Inv) w) \<Longrightarrow> state_io_rel (keeping Inv) m"
  by (auto simp: state_io_rel_def keeping_def wp_def case_prod_beta)

lemma keeping_wp: "state_io_rel (keeping Inv) m \<Longrightarrow> Inv w \<Longrightarrow> wp m (\<lambda>_. Inv) w"
  using keeping.wp_effect [of Inv m w] by (simp add: keeping_def)

lemma parts_maps [intro!]:
  "state_io_rel (keeping (mapsAgree K)) (sendChange c)" "state_io_rel (keeping (mapsAgree K)) (failWatcher err)"
  "state_io_rel (keeping (mapsAgree K)) closeWatcher" "state_io_rel (keeping (mapsAgree K)) finishReading"
  "state_io_rel (keeping (mapsAgree K)) nextCall"
  unfolding sendChange_def failWatcher_def closeWatcher_def nextCall_def finishReading_def
  by (auto intro!: keepingI simp: wp_simps mapsAgree_def intro: less_SucI) (meson less_SucI)

lemma map_of_filter_key: "map_of (filter (\<lambda>(k, v). P k) xs) = (map_of xs) |` {k. P k}"
  by (induction xs) (auto simp: restrict_map_def fun_eq_iff)

lemma removeTree_maps [intro!]: "state_io_rel (keeping (mapsAgree K)) (removeTree path)"
proof (rule keepingI)
  fix w assume inv: "mapsAgree K w"
  let ?D = "map_of (x_byDescriptor w)" and ?P = "map_of (x_byPath w)"
  let ?gone = "snd ` {(p, d). (p, d) \<in> set (x_byPath w) \<and> inSubtree path p}"
  have iff: "?D d = Some p \<longleftrightarrow> ?P p = Some d" for d p using inv by (simp add: mapsAgree_def)
  have dist: "distinct (map fst (x_byPath w))" using inv by (simp add: mapsAgree_def)
  have gone: "d \<in> ?gone \<longleftrightarrow> (\<exists>p. ?P p = Some d \<and> inSubtree path p)" for d
    using dist by (auto simp: map_of_eq_Some_iff image_def)
  have inj: "?P p = Some d \<Longrightarrow> ?P q = Some d \<Longrightarrow> p = q" for p q d using iff [of d p] iff [of d q] by simp
  have agree: "(?D |` {d. d \<notin> ?gone}) d = Some p \<longleftrightarrow> (?P |` {p. \<not> inSubtree path p}) p = Some d" for d p
    using iff gone by (auto simp: restrict_map_def dest: inj split: if_splits)
  show "wp (removeTree path) (\<lambda>_. mapsAgree K) w"
  proof -
    have P: "map_of (filter (\<lambda>(p, d). \<not> inSubtree path p) (x_byPath w)) = ?P |` {p. \<not> inSubtree path p}"
      by (rule map_of_filter_key)
    have D: "map_of (filter (\<lambda>(d, p). d \<notin> ?gone) (x_byDescriptor w)) = ?D |` {d. d \<notin> ?gone}"
      by (rule map_of_filter_key)
    have set: "snd ` set (filter (\<lambda>(p, d). inSubtree path p) (x_byPath w)) = ?gone" by (auto simp: image_def)
    have calls: "\<exists>n < x_calls w. \<exists>q. k_addWatch K (x_fd w) n q watchMask = Inr d" if "(?D |` {d. d \<notin> ?gone}) d = Some p" for d p
      using inv that unfolding mapsAgree_def by (elim conjE) (auto simp: restrict_map_def split: if_splits)
    define t where "t = w\<lparr>x_byPath := filter (\<lambda>(p, d). \<not> inSubtree path p) (x_byPath w),
       x_byDescriptor := filter (\<lambda>(d, p). d \<notin> ?gone) (x_byDescriptor w),
       x_removed := map snd (filter (\<lambda>(p, d). inSubtree path p) (x_byPath w)) @ x_removed w\<rparr>"
    have t: "map_of (x_byPath t) = ?P |` {p. \<not> inSubtree path p}" "map_of (x_byDescriptor t) = ?D |` {d. d \<notin> ?gone}"
      "distinct (map fst (x_byPath t))" "x_calls t = x_calls w" "x_fd t = x_fd w"
      using P D dist by (simp_all add: t_def distinct_map_filter)
    have "mapsAgree K t" unfolding mapsAgree_def t using agree calls t(3) by blast
    then show ?thesis unfolding removeTree_def wp_modify Let_def set t_def .
  qed
qed

lemma addPath_keeping: "freshDescriptors K \<Longrightarrow> state_io_rel (keeping (mapsAgree K)) (addPath K path)"
  by (rule keepingI) (rule addPath_maps)

lemma addTree_keeping:
  assumes "freshDescriptors K"
  shows "state_io_rel (keeping (mapsAgree K)) (addTree K path emit)"
proof -
  have "state_io_rel (keeping (mapsAgree K)) (visit K emit entry)" for entry
    unfolding visit_def by (intro keeping.rules addPath_keeping [OF assms] parts_maps)
  then have "state_io_rel (keeping (mapsAgree K)) (visitAll K emit entries)" for entries
    by (induction entries) (auto intro!: keeping.rules)
  then show ?thesis unfolding addTree_def by (intro keeping.rules parts_maps)
qed

definition callsGrow :: "watcher \<Rightarrow> watcher \<Rightarrow> bool" where
  "callsGrow w t = (x_calls w \<le> x_calls t)"

interpretation callsGrow: effect callsGrow
  by unfold_locales (auto simp: callsGrow_def)

lemma addTree_calls: "state_io_rel callsGrow (addTree K path emit)"
proof -
  have nc: "state_io_rel callsGrow nextCall" by (simp add: nextCall_def state_io_rel_def callsGrow_def)
  have send: "state_io_rel callsGrow (sendChange c)" for c
    unfolding sendChange_def by (rule callsGrow.modify_rule) (simp add: callsGrow_def)
  have "state_io_rel callsGrow (addPath K p)" for p
    unfolding addPath_def by (intro callsGrow.rules nc callsGrow.modify_rule) (simp add: callsGrow_def)
  then have "state_io_rel callsGrow (visit K emit entry)" for entry
    unfolding visit_def by (intro callsGrow.rules send)
  then have "state_io_rel callsGrow (visitAll K emit entries)" for entries
    by (induction entries) (auto intro!: callsGrow.rules)
  then show ?thesis unfolding addTree_def by (intro callsGrow.rules nc)
qed

lemma mapsAgree_empty: "mapsAgree K (w\<lparr>x_calls := n, x_fd := fd, x_byDescriptor := [], x_byPath := []\<rparr>)"
  by (simp add: mapsAgree_def)

lemma mapsAgree_restored:
  "mapsAgree K w \<Longrightarrow> x_calls w \<le> x_calls t \<Longrightarrow> x_fd t = x_fd w \<Longrightarrow> x_byDescriptor t = x_byDescriptor w \<Longrightarrow>
   x_byPath t = x_byPath w \<Longrightarrow> mapsAgree K t"
  unfolding mapsAgree_def by (metis order_less_le_trans)

lemma mapsAgree_back: "mapsAgree K w \<Longrightarrow> Suc (x_calls w) \<le> x_calls t \<Longrightarrow>
  mapsAgree K (t\<lparr>x_fd := x_fd w, x_byDescriptor := x_byDescriptor w, x_byPath := x_byPath w\<rparr>)"
  by (rule mapsAgree_restored [of _ w]) simp_all

lemma mapsAgree_file: "mapsAgree K w \<Longrightarrow> mapsAgree K (w\<lparr>x_file := n\<rparr>)"
  by (rule mapsAgree_restored [of _ w]) simp_all

lemma rebuild_maps:
  assumes "freshDescriptors K" "mapsAgree K w"
  shows "wp (rebuild K) (\<lambda>_. mapsAgree K) w"
proof -
  have after: "wp (addTree K r False) (\<lambda>_ t. mapsAgree K t \<and> x_calls v \<le> x_calls t) v"
    if "mapsAgree K v" for v r
    using keeping_wp [OF addTree_keeping [OF assms(1)] that] callsGrow.wp_effect [OF addTree_calls]
    by (simp add: wp_conj callsGrow_def)
  show ?thesis
    using assms(2)
    by (auto simp: rebuild_def wp_simps nextCall_def restore_def mapsAgree_file
        intro: mapsAgree_call mapsAgree_back
        intro!: wp_mono [OF after [OF mapsAgree_empty]] split: sum.split option.split)
qed

text \<open>An ignored watch is forgotten in both maps.\<close>

lemma ignore_maps:
  assumes "mapsAgree K w" "map_of (x_byDescriptor w) d \<in> {None, Some base}"
    "map_of (x_byPath w) base \<in> {None, Some d}"
  shows "mapsAgree K (w\<lparr>x_byDescriptor := AList.delete d (x_byDescriptor w),
    x_byPath := AList.delete base (x_byPath w)\<rparr>)"
proof -
  let ?D = "map_of (x_byDescriptor w)" and ?P = "map_of (x_byPath w)"
  have iff: "?D e = Some p \<longleftrightarrow> ?P p = Some e" for e p using assms(1) by (simp add: mapsAgree_def)
  have dist: "distinct (map fst (x_byPath w))" using assms(1) by (simp add: mapsAgree_def)
  have third: "\<forall>d p. ?D d = Some p \<longrightarrow> (\<exists>n < x_calls w. \<exists>q. k_addWatch K (x_fd w) n q watchMask = Inr d)"
    using assms(1) unfolding mapsAgree_def by (elim conjE)
  define t where "t = w\<lparr>x_byDescriptor := AList.delete d (x_byDescriptor w), x_byPath := AList.delete base (x_byPath w)\<rparr>"
  have t: "map_of (x_byDescriptor t) = ?D(d := None)" "map_of (x_byPath t) = ?P(base := None)"
    "distinct (map fst (x_byPath t))" "x_calls t = x_calls w" "x_fd t = x_fd w"
    using dist by (simp_all add: t_def delete_conv' distinct_delete)
  have agree: "(?D(d := None)) e = Some p \<longleftrightarrow> (?P(base := None)) p = Some e" for e p
    using iff [of e p] assms(2,3) iff [of e base] iff [of d p] by (cases "e = d"; cases "p = base") auto
  have old: "\<exists>n < x_calls w. \<exists>q. k_addWatch K (x_fd w) n q watchMask = Inr e" if "(?D(d := None)) e = Some p" for e p
    using third that by (cases "e = d") auto
  have "mapsAgree K t" unfolding mapsAgree_def t using agree old t(3) by blast
  then show ?thesis by (simp add: t_def)
qed

definition paired :: "int \<Rightarrow> string \<Rightarrow> watcher \<Rightarrow> bool" where
  "paired d base w = (map_of (x_byDescriptor w) d \<in> {None, Some base} \<and> map_of (x_byPath w) base \<in> {None, Some d})"

lemma removeTree_paired: "paired d base w \<Longrightarrow> wp (removeTree path) (\<lambda>_. paired d base) w"
  by (auto simp: removeTree_def wp_simps Let_def paired_def map_of_filter_key restrict_map_def)

lemma handleEntry_maps:
  assumes "freshDescriptors K" "mapsAgree K w" "paired d base w"
  shows "wp (handleEntry K d m base path) (\<lambda>_. mapsAgree K) w"
proof (cases "(\<not> (hasAny m [IN_ISDIR] \<and> hasAny m [IN_CREATE, IN_MOVED_TO])) \<and> hasAny m [IN_IGNORED]")
  case True
  then show ?thesis
    using ignore_maps [OF assms(2)] assms(3) by (simp only: handleEntry_def if_False simp_thms paired_def if_True wp_modify)
next
  case False
  then have "handleEntry K d m base path = (if hasAny m [IN_ISDIR] \<and> hasAny m [IN_CREATE, IN_MOVED_TO] then do {
        e \<leftarrow> addTree K path True;
        (case e of
           None \<Rightarrow> State_Monad.return ()
         | Some err \<Rightarrow> if isNotExist err then State_Monad.return () else do { failWatcher err; closeWatcher }) }
      else reportChange m path (hasAny m [IN_ISDIR]))"
    by (auto simp: handleEntry_def)
  moreover have "state_io_rel (keeping (mapsAgree K)) \<dots>"
    unfolding reportChange_def by (intro keeping.rules parts_maps addTree_keeping [OF assms(1)])
  ultimately show ?thesis using assms(2) by (auto intro: keeping_wp)
qed

lemma handle_maps:
  assumes "freshDescriptors K" "mapsAgree K w"
  shows "wp (handle K d m name) (\<lambda>_. mapsAgree K) w"
proof -
  have part: "wp n (\<lambda>_. mapsAgree K) t" if "mapsAgree K t" "state_io_rel (keeping (mapsAgree K)) n" for t and n :: "unit watching"
    using that by (auto intro: keeping_wp)
  have stop: "state_io_rel (keeping (mapsAgree K)) (do { failWatcher e; closeWatcher })" for e
    by (intro keeping.rules parts_maps)
  have stopped: "wp (failWatcher e) (\<lambda>_. wp closeWatcher (\<lambda>_. mapsAgree K)) t" if "mapsAgree K t" for e t
    using that stop [of e] part unfolding wp_bind [symmetric] by blast
  have sent: "wp (sendChange c) (\<lambda>_. mapsAgree K) t" if "mapsAgree K t" for c t
    using that parts_maps(1) part by blast
  have entry: "wp (removeTree p) (\<lambda>_. wp (handleEntry K d m base q) (\<lambda>_. mapsAgree K)) w"
    if "paired d base w" for base p q
  proof -
    have "wp (removeTree p) (\<lambda>_ t. mapsAgree K t \<and> paired d base t) w"
      using part [OF assms(2)] removeTree_maps removeTree_paired [OF that] by (simp add: wp_conj)
    then show ?thesis by (rule wp_mono) (use handleEntry_maps [OF assms(1)] in auto)
  qed
  have at: "wp (handleAt K d m base p) (\<lambda>_. mapsAgree K) w" if "paired d base w" for base p
    using stopped [OF assms(2)] entry [OF that] handleEntry_maps [OF assms that]
    by (simp add: handleAt_def wp_bind [of _ _ "\<lambda>_. mapsAgree K"] wp_gets wp_if wp_return del: bind_assoc)
  have "paired d base w" if "map_of (x_byDescriptor w) d = Some base" for base
    using assms(2) that by (simp add: mapsAgree_def paired_def)
  then have "wp (case map_of (x_byDescriptor w) d of None \<Rightarrow> State_Monad.return ()
      | Some base \<Rightarrow> handleAt K d m base (if name \<noteq> [] then pathJoin [base, name] else base)) (\<lambda>_. mapsAgree K) w"
    using at assms(2) by (auto simp: wp_return split: option.split)
  moreover have "wp (rebuild K) (\<lambda>e. wp (case e of
           Some err \<Rightarrow> do { failWatcher (Wrapped ''rebuild watches after overflow: %w'' [] err); closeWatcher }
         | None \<Rightarrow> sendChange \<lparr>ch_path = dot, ch_isDir = True, ch_removed = False\<rparr>) (\<lambda>_. mapsAgree K)) w"
    by (rule wp_mono [OF rebuild_maps [OF assms]])
      (auto simp: wp_bind stopped sent split: option.split)
  ultimately show ?thesis by (simp add: handle_def wp_bind wp_get)
qed

section \<open>Reading events\<close>

text \<open>An event as the kernel writes it: the name is padded with zeros.\<close>

record event =
  ev_wd :: "32 word"
  ev_mask :: mask
  ev_cookie :: "32 word"
  ev_name :: string
  ev_pad :: nat

definition bytes32 :: "nat \<Rightarrow> string" where
  "bytes32 n = map (\<lambda>k. char_of (n div 256 ^ k)) [0, 1, 2, 3]"

definition encodeEvent :: "event \<Rightarrow> string" where
  "encodeEvent e = bytes32 (unat (ev_wd e)) @ bytes32 (unat (ev_mask e)) @ bytes32 (unat (ev_cookie e)) @
     bytes32 (length (ev_name e) + ev_pad e) @ ev_name e @ replicate (ev_pad e) (CHR 0x00)"

definition wellFormed :: "event \<Rightarrow> bool" where
  "wellFormed e = (length (ev_name e) + ev_pad e < 2 ^ 32 \<and> (ev_name e = [] \<or> List.last (ev_name e) \<noteq> CHR 0x00))"

fun handleEvents :: "kernel \<Rightarrow> event list \<Rightarrow> unit watching" where
  "handleEvents K [] = State_Monad.return ()"
| "handleEvents K (e # es) = do {
     file \<leftarrow> gets x_file;
     handle K (sint (ev_wd e)) (ev_mask e) (ev_name e);
     now \<leftarrow> gets x_file;
     if now \<noteq> file then State_Monad.return () else handleEvents K es }"

lemma length_bytes32 [simp]: "length (bytes32 n) = 4"
  by (simp add: bytes32_def)

lemma le32_bytes32: "n < 2 ^ 32 \<Longrightarrow> le32 (bytes32 n @ rest) = n"
proof -
  assume n: "n < 2 ^ 32"
  have step: "m mod 256 + 256 * (m div 256 mod k) = m mod (256 * k)" for m k :: nat
    by (simp add: mod_mult2_eq)
  have "n div 256 ^ 3 mod 256 = n div 256 ^ 3" using n by (simp add: less_mult_imp_div_less)
  moreover have "n mod 256 + 256 * (n div 256 mod 256) + 65536 * (n div 256 ^ 2 mod 256) + 16777216 * (n div 256 ^ 3) = n"
  proof -
    have "n mod 256 + 256 * (n div 256 mod 256) = n mod 65536" using step [of n 256] by simp
    moreover have "n mod 65536 + 65536 * (n div 65536 mod 256) = n mod 16777216"
      using mod_mult2_eq [of n 65536 256] by simp
    ultimately show ?thesis using div_mult_mod_eq [of n 16777216] by simp
  qed
  ultimately show ?thesis by (simp add: le32_def bytes32_def byte_of_def)
qed

lemma unat_mask_bound: "unat (w :: 32 word) < 2 ^ 32"
  using unsigned_less [of w] by simp

lemma dropNameZeros_pad: "s = [] \<or> List.last s \<noteq> CHR 0x00 \<Longrightarrow> dropNameZeros (s @ replicate n (CHR 0x00)) = s"
proof -
  assume s: "s = [] \<or> List.last s \<noteq> CHR 0x00"
  have "dropWhile (\<lambda>c. c = CHR 0x00) (replicate n (CHR 0x00) @ rev s) = rev s"
    using s by (induction n) (cases s rule: rev_cases, auto)
  then show ?thesis by (simp add: dropNameZeros_def)
qed

lemma encoded_fields:
  assumes "wellFormed e"
  shows "eventWd (encodeEvent e @ rest) = sint (ev_wd e)" "eventMask (encodeEvent e @ rest) = ev_mask e"
    "eventSize (encodeEvent e @ rest) = length (encodeEvent e)" "eventName (encodeEvent e @ rest) = ev_name e"
    "headerSize \<le> length (encodeEvent e)"
proof -
  let ?n = "length (ev_name e) + ev_pad e"
  have n: "?n < 2 ^ 32" using assms by (simp add: wellFormed_def)
  have drops: "drop 4 (encodeEvent e @ rest) = bytes32 (unat (ev_mask e)) @ bytes32 (unat (ev_cookie e)) @ bytes32 ?n @ ev_name e @ replicate (ev_pad e) (CHR 0x00) @ rest"
    "drop 12 (encodeEvent e @ rest) = bytes32 ?n @ ev_name e @ replicate (ev_pad e) (CHR 0x00) @ rest"
    by (simp_all add: encodeEvent_def)
  show "eventWd (encodeEvent e @ rest) = sint (ev_wd e)"
    using le32_bytes32 [OF unat_mask_bound] by (simp add: eventWd_def encodeEvent_def)
  show "eventMask (encodeEvent e @ rest) = ev_mask e"
    using le32_bytes32 [OF unat_mask_bound] by (simp only: eventMask_def drops) simp
  have size: "eventSize (encodeEvent e @ rest) = headerSize + ?n"
    using le32_bytes32 [OF n] by (simp only: eventSize_def drops)
  then show "eventSize (encodeEvent e @ rest) = length (encodeEvent e)"
    by (simp add: encodeEvent_def headerSize_def)
  show "headerSize \<le> length (encodeEvent e)"
    by (simp add: encodeEvent_def headerSize_def)
  have "slice headerSize (headerSize + ?n) (encodeEvent e @ rest) = ev_name e @ replicate (ev_pad e) (CHR 0x00)"
    by (simp add: slice_def encodeEvent_def headerSize_def)
  then show "eventName (encodeEvent e @ rest) = ev_name e"
    using dropNameZeros_pad assms by (simp add: eventName_def size wellFormed_def)
qed

lemma processFrom_encoded:
  "\<forall>e \<in> set es. wellFormed e \<Longrightarrow>
   processFrom K n k (concat (map encodeEvent es)) = do { handleEvents K es; State_Monad.return True }"
proof (induction es arbitrary: k)
  case Nil
  show ?case by (subst processFrom.simps) (simp add: headerSize_def)
next
  case (Cons e es)
  let ?rest = "concat (map encodeEvent es)"
  have e: "wellFormed e" using Cons.prems by simp
  have IH: "processFrom K n j ?rest = do { handleEvents K es; State_Monad.return True }" for j
    using Cons by simp
  have step: "processFrom K n k (encodeEvent e @ ?rest) = do {
        file \<leftarrow> gets x_file;
        handle K (sint (ev_wd e)) (ev_mask e) (ev_name e);
        now \<leftarrow> gets x_file;
        if now \<noteq> file then State_Monad.return True else processFrom K n (k + length (encodeEvent e)) ?rest }"
    using encoded_fields(1-4) [OF e, of ?rest] encoded_fields(5) [OF e] by (subst processFrom.simps) (simp cong: if_cong)
  show ?case
    by (simp add: step IH if_distrib [of "\<lambda>m. State_Monad.bind m _"] cong: if_cong)
qed

section \<open>Runs of the watcher\<close>

lemma handleEvents_paths:
  assumes "cleanRoot root" "kernelInside K root" "pathsInv root w" "\<forall>e \<in> set es. ev_name e = [] \<or> relPath [ev_name e]"
  shows "wp (handleEvents K es) (\<lambda>_. pathsInv root) w"
  using assms(3,4)
proof (induction es arbitrary: w)
  case (Cons e es)
  then have "wp (handle K (sint (ev_wd e)) (ev_mask e) (ev_name e)) (\<lambda>_. pathsInv root) w"
    using handle_paths [OF assms(1,2)] by simp
  then show ?case
    using Cons by (auto simp: wp_bind wp_gets wp_return wp_if elim: wp_mono)
qed (simp add: wp_return)

lemma handleEvents_maps:
  assumes "freshDescriptors K" "mapsAgree K w"
  shows "wp (handleEvents K es) (\<lambda>_. mapsAgree K) w"
  using assms(2)
proof (induction es arbitrary: w)
  case (Cons e es)
  then show ?case
    by (auto simp: wp_simps intro!: wp_mono [OF handle_maps [OF assms(1) Cons.prems]])
qed (simp add: wp_return)

text \<open>The reads before the deadline and after it, as the packets of events the kernel returned.\<close>

fun handlePackets :: "kernel \<Rightarrow> event list list \<Rightarrow> unit watching" where
  "handlePackets K [] = State_Monad.return ()"
| "handlePackets K (p # ps) = do { handleEvents K p; handlePackets K ps }"

lemma handlePackets_paths:
  assumes "cleanRoot root" "kernelInside K root" "pathsInv root w"
    and "list_all (list_all (\<lambda>e. ev_name e = [] \<or> relPath [ev_name e])) ps"
  shows "wp (handlePackets K ps) (\<lambda>_. pathsInv root) w"
  using assms(3,4)
proof (induction ps arbitrary: w)
  case (Cons p ps)
  then show ?case
    by (auto simp: wp_bind list_all_iff intro!: wp_mono [OF handleEvents_paths [OF assms(1,2)]])
qed (simp add: wp_return)

lemma handlePackets_maps:
  assumes "freshDescriptors K" "mapsAgree K w"
  shows "wp (handlePackets K ps) (\<lambda>_. mapsAgree K) w"
  using assms(2)
proof (induction ps arbitrary: w)
  case (Cons p ps)
  then show ?case by (auto simp: wp_bind intro!: wp_mono [OF handleEvents_maps [OF assms(1)]])
qed (simp add: wp_return)

definition packetData :: "event list \<Rightarrow> readResult" where
  "packetData p = Data (concat (map encodeEvent p))"

lemma process_packet:
  "\<forall>e \<in> set p. wellFormed e \<Longrightarrow> process K (concat (map encodeEvent p)) = do { handleEvents K p; State_Monad.return True }"
  unfolding process_def by (rule processFrom_encoded)

lemma readLoop_packets:
  "\<forall>p \<in> set ps. \<forall>e \<in> set p. wellFormed e \<Longrightarrow>
   readLoop K draining (map packetData ps @ reads) = do { handlePackets K ps; readLoop K draining reads }"
  by (induction ps) (simp_all add: packetData_def process_packet)

lemma readLoop_closed:
  assumes "\<forall>p \<in> set (ps @ qs). \<forall>e \<in> set p. wellFormed e"
  shows "readLoop K False (map packetData ps @ DeadlineExceeded # map packetData qs @ [Again]) =
     do { handlePackets K (ps @ qs); finishReading }"
proof -
  have "handlePackets K (ps @ qs) = do { handlePackets K ps; handlePackets K qs }" by (induction ps) simp_all
  moreover have "readLoop K True (map packetData qs @ [Again]) = do { handlePackets K qs; finishReading }"
    using assms by (subst readLoop_packets) auto
  ultimately show ?thesis using assms by (subst readLoop_packets) auto
qed

section \<open>A rename the watcher loses\<close>

text \<open>
  \<open>inotify_add_watch\<close> returns the old descriptor for a directory the instance watches
  already. The state is the one after \<open>p/x/a\<close> was created and watched; \<open>a\<close> is then renamed to
  \<open>b\<close> while the event of the creation of \<open>x\<close> still waits, so that its walk already finds \<open>b\<close>.
\<close>

definition raceKernel :: kernel where
  "raceKernel = \<lparr>k_walk = (\<lambda>n p.
       if p = ''/s/p/x'' then [\<lparr>e_path = ''/s/p/x'', e_err = None, e_isDir = True\<rparr>, \<lparr>e_path = ''/s/p/x/b'', e_err = None, e_isDir = True\<rparr>]
       else if p = ''/s/p/x/b'' then [\<lparr>e_path = ''/s/p/x/b'', e_err = None, e_isDir = True\<rparr>] else []),
     k_addWatch = (\<lambda>fd n p m. if p = ''/s/p/x/b'' then Inr 4 else Inl OSError), k_init = (\<lambda>n. Inl OSError)\<rparr>"

definition raceState :: watcher where
  "raceState = \<lparr>x_root = ''/s'', x_fd = 3, x_file = 1, x_closed = False, x_events = [], x_errors = None,
     x_finished = False,
     x_byDescriptor = [(1, ''/s''), (2, ''/s/p''), (3, ''/s/p/x''), (4, ''/s/p/x/a'')],
     x_byPath = [(''/s'', 1), (''/s/p'', 2), (''/s/p/x'', 3), (''/s/p/x/a'', 4)], x_removed = [], x_calls = 9\<rparr>"

definition raceEvents :: "event list" where
  "raceEvents = [
     \<lparr>ev_wd = 2, ev_mask = or IN_CREATE IN_ISDIR, ev_cookie = 0, ev_name = ''x'', ev_pad = 15\<rparr>,
     \<lparr>ev_wd = 3, ev_mask = or IN_MOVED_FROM IN_ISDIR, ev_cookie = 7, ev_name = ''a'', ev_pad = 15\<rparr>,
     \<lparr>ev_wd = 3, ev_mask = or IN_MOVED_TO IN_ISDIR, ev_cookie = 7, ev_name = ''b'', ev_pad = 15\<rparr>]"

lemma race:
  "let t = snd (run_state (handleEvents raceKernel raceEvents) raceState) in
   map_of (x_byPath t) ''/s/p/x/b'' = Some 4 \<and> map_of (x_byDescriptor t) 4 = None \<and> x_removed t = [4] \<and>
   x_errors t = None"
  by code_simp

lemma race_inside:
  "cleanRoot ''/s''" "kernelInside raceKernel ''/s''" "pathsInv ''/s'' raceState"
  "list_all (list_all (\<lambda>e. ev_name e = [] \<or> relPath [ev_name e])) [raceEvents]"
proof -
  show root: "cleanRoot ''/s''" by code_simp
  have child: "inTree ''/s'' (pathJoin [p, b])" if "inTree ''/s'' p" "relPath [b]" for p b
    using inTree_child [OF root that] .
  have names: "relPath [''p'']" "relPath [''x'']" "relPath [''a'']" "relPath [''b'']" by code_simp+
  have joined: "pathJoin [''/s'', ''p''] = ''/s/p''" "pathJoin [''/s/p'', ''x''] = ''/s/p/x''"
    "pathJoin [''/s/p/x'', ''a''] = ''/s/p/x/a''" "pathJoin [''/s/p/x'', ''b''] = ''/s/p/x/b''" by code_simp+
  have in_tree: "inTree ''/s'' ''/s''" "inTree ''/s'' ''/s/p''" "inTree ''/s'' ''/s/p/x''" "inTree ''/s'' ''/s/p/x/a''"
    "inTree ''/s'' ''/s/p/x/b''"
    using inTree_root [OF root] child [OF _ names(1)] child [OF _ names(2)] child [OF _ names(3)] child [OF _ names(4)] joined
    by metis+
  show "kernelInside raceKernel ''/s''" using in_tree by (simp add: kernelInside_def raceKernel_def)
  show "pathsInv ''/s'' raceState" using in_tree by (simp add: pathsInv_def raceState_def)
  show "list_all (list_all (\<lambda>e. ev_name e = [] \<or> relPath [ev_name e])) [raceEvents]"
    using names by (simp add: raceEvents_def)
qed

text \<open>A watcher that has just been made, before its first rebuild.\<close>

definition freshWatcher :: watcher where
  "freshWatcher = \<lparr>x_root = ''/s'', x_fd = 0, x_file = 0, x_closed = False, x_events = [], x_errors = None,
     x_finished = False, x_byDescriptor = [], x_byPath = [], x_removed = [], x_calls = 0\<rparr>"

end
