(* ===== verification/MainLoop.thy ===== *)
theory MainLoop
  imports Syncer Config
begin

text \<open>
  The event loop of \<open>run\<close> in src/main.go, the watching during the startup work and the exit
  codes. The local variables of \<open>run\<close> are the record \<open>loop\<close>; one case of the \<open>select\<close> is a
  function on it, and a channel that is \<open>nil\<close> is a flag that is off. The goroutine of an
  attempt is the batch it holds (\<open>l_active\<close>), until its result is an input. What the loop
  does to the outside and what it has received is appended to \<open>l_log\<close>, newest first, which
  nothing reads.
\<close>

section \<open>Exit codes\<close>

definition commandExitCode :: "goerr option \<Rightarrow> int" where
  "commandExitCode e = (case e of
      None \<Rightarrow> 0
    | Some err \<Rightarrow>
        (case asExitError err of
           None \<Rightarrow> 1
         | Some (code, status) \<Rightarrow>
             if code \<ge> 0 then code
             else (case status of Some sig \<Rightarrow> 128 + int sig | None \<Rightarrow> 1)))"

definition signalExitCode :: "signal \<Rightarrow> int" where
  "signalExitCode sig = 128 + int sig"

definition startExitCode :: "goerr \<Rightarrow> int" where
  "startExitCode err = (if isExecNotFound err \<or> isNotExist err then 127 else 126)"

section \<open>State\<close>

definition SIGKILL :: signal where "SIGKILL = 9"
definition SIGTERM :: signal where "SIGTERM = 15"

definition initialRetryDelay :: duration where "initialRetryDelay = second"
definition maxRetryDelay :: duration where "maxRetryDelay = 60 * second"

datatype action =
    Received string
  | Started batch bool
  | Finished batch "goerr option"
  | CancelRunner
  | SignalGroup signal
  | CloseWatches
  | ResetTimer duration

record loop =
  l_pending :: batch
  l_active :: "batch option"
  l_stopping :: bool
  l_watcherClosed :: bool
  l_finalAttempted :: bool
  l_syncReady :: bool
  l_abandoned :: bool
  l_watcherErr :: "goerr option"
  l_lockErr :: "goerr option"
  l_lastSyncErr :: "goerr option"
  l_exitCode :: int
  l_signalsSeen :: nat
  l_timer :: bool
  l_timerC :: bool
  l_retryDelay :: duration
  l_eventC :: bool
  l_errorC :: bool
  l_lockErrors :: bool
  l_command :: bool
  l_log :: "action list"

definition logged :: "action list \<Rightarrow> loop \<Rightarrow> loop" where
  "logged actions l = l\<lparr>l_log := rev actions @ l_log l\<rparr>"

text \<open>\<open>l_timer\<close> tells whether a timer was made, \<open>l_command\<close> whether a command is running.\<close>

definition startSync :: "bool \<Rightarrow> loop \<Rightarrow> loop" where
  "startSync final l =
     (if l_active l \<noteq> None \<or> l_pending l = [] then l
      else logged [Started (l_pending l) final]
        (l\<lparr>l_pending := [], l_active := Some (l_pending l), l_finalAttempted := l_finalAttempted l \<or> final\<rparr>))"

definition abortForLockFailure :: "goerr \<Rightarrow> loop \<Rightarrow> loop" where
  "abortForLockFailure err l =
     (if l_lockErr l \<noteq> None then l
      else logged ([CancelRunner] @ (if l_command l then [SignalGroup SIGKILL] else []) @ [CloseWatches])
        (l\<lparr>l_lockErr := Some err, l_stopping := True, l_timerC := False, l_syncReady := False\<rparr>))"

text \<open>
  The state before the loop: \<open>started\<close> is the result of starting the wrapped command, if
  there is one; \<open>pending\<close> is what was collected during the startup work.
\<close>

definition startLoop :: "duration \<Rightarrow> bool \<Rightarrow> goerr option option \<Rightarrow> batch \<Rightarrow> loop" where
  "startLoop interval withState started pending =
     (let failed = (case started of Some (Some err) \<Rightarrow> True | _ \<Rightarrow> False) in
      logged (map (Received \<circ> fst) pending @ (if failed then [CloseWatches] else []) @
              (if interval > 0 then [ResetTimer interval] else []))
      \<lparr>l_pending = pending, l_active = None, l_stopping = failed, l_watcherClosed = False,
       l_finalAttempted = False, l_syncReady = False, l_abandoned = False, l_watcherErr = None,
       l_lockErr = None, l_lastSyncErr = None,
       l_exitCode = (case started of Some (Some err) \<Rightarrow> startExitCode err | _ \<Rightarrow> 0),
       l_signalsSeen = 0, l_timer = (interval > 0), l_timerC = (interval > 0 \<and> \<not> failed),
       l_retryDelay = initialRetryDelay, l_eventC = True, l_errorC = True, l_lockErrors = withState,
       l_command = (started = Some None), l_log = []\<rparr>)"

section \<open>The cases of the select\<close>

definition onChange :: "syncConfig option \<Rightarrow> change \<Rightarrow> loop \<Rightarrow> loop" where
  "onChange state item l =
     (let l = (if isMetadata state (ch_path item) then l else logged [Received (ch_path item)] l)
              \<lparr>l_pending := queueChange state (l_pending l) item\<rparr>
      in if l_syncReady l \<and> l_active l = None \<and> \<not> l_stopping l
         then startSync False (l\<lparr>l_syncReady := False\<rparr>) else l)"

definition onWatcherError :: "goerr option \<Rightarrow> loop \<Rightarrow> loop" where
  "onWatcherError err l =
     (if err \<noteq> None \<and> l_watcherErr l = None
      then logged ((if l_command l then [SignalGroup SIGTERM] else []) @ [CloseWatches])
        (l\<lparr>l_watcherErr := err, l_stopping := True, l_timerC := False\<rparr>)
      else l)"

definition onLockError :: "goerr option \<Rightarrow> loop \<Rightarrow> loop" where
  "onLockError err l = (case err of
      Some e \<Rightarrow> if l_lockErr l = None then abortForLockFailure e l else l
    | None \<Rightarrow> l)"

definition onTimer :: "loop \<Rightarrow> loop" where
  "onTimer l = (if l_pending l \<noteq> [] then startSync False (l\<lparr>l_timerC := False\<rparr>)
     else l\<lparr>l_timerC := False, l_syncReady := True\<rparr>)"

definition onFailure :: "batch \<Rightarrow> goerr \<Rightarrow> loop \<Rightarrow> loop" where
  "onFailure batch err l =
     (if isOwnershipLost err then abortForLockFailure err l
      else (let l = l\<lparr>l_pending := mergeFailedBatch (l_pending l) batch\<rparr>
       in if \<not> l_stopping l
          then logged [ResetTimer (l_retryDelay l)]
            (l\<lparr>l_syncReady := False, l_timer := True, l_timerC := True,
               l_retryDelay := min (2 * l_retryDelay l) maxRetryDelay\<rparr>)
          else l))"

definition onResult :: "duration \<Rightarrow> goerr option \<Rightarrow> loop \<Rightarrow> loop" where
  "onResult interval err l = (case l_active l of
      None \<Rightarrow> l
    | Some batch \<Rightarrow>
        (let l = logged [Finished batch err] (l\<lparr>l_active := None,
                   l_lastSyncErr := (if l_abandoned l then l_lastSyncErr l else err)\<rparr>)
         in (case err of
              Some e \<Rightarrow> onFailure batch e l
            | None \<Rightarrow>
                (let l = l\<lparr>l_retryDelay := initialRetryDelay\<rparr>
                 in if \<not> l_stopping l \<and> interval > 0
                    then logged [ResetTimer interval] (l\<lparr>l_syncReady := False, l_timerC := True\<rparr>)
                    else l))))"

definition onCommandDone :: "int \<Rightarrow> loop \<Rightarrow> loop" where
  "onCommandDone code l =
     (let l = l\<lparr>l_command := False, l_exitCode := code\<rparr>;
          l = (if \<not> l_stopping l then l\<lparr>l_stopping := True, l_timerC := False, l_syncReady := False\<rparr> else l)
      in logged [CloseWatches] l)"

definition onSignal :: "signal \<Rightarrow> loop \<Rightarrow> loop" where
  "onSignal sig l =
     (let l = (if l_command l then logged [SignalGroup sig] l else l\<lparr>l_signalsSeen := Suc (l_signalsSeen l)\<rparr>)
      in if \<not> l_stopping l
         then logged (if l_command l then [] else [CloseWatches])
           (l\<lparr>l_stopping := True, l_timerC := False, l_syncReady := False\<rparr>)
         else if l_command l \<or> l_abandoned l then l
         else if l_signalsSeen l < 2 then l
         else logged [CancelRunner]
           (l\<lparr>l_abandoned := True, l_finalAttempted := True,
              l_lastSyncErr := Some (Errorf ''abandoned after repeated %v'' [Sig sig])\<rparr>))"

datatype input =
    Change change
  | EventsClosed
  | WatcherError "goerr option"
  | ErrorsClosed
  | LockError "goerr option"
  | LockErrorsClosed
  | TimerFired
  | SyncResult "goerr option"
  | CommandDone int
  | Signal signal

text \<open>The inputs a \<open>select\<close> can take, and the case it runs.\<close>

fun selectable :: "loop \<Rightarrow> input \<Rightarrow> bool" where
  "selectable l (Change _) = l_eventC l"
| "selectable l EventsClosed = l_eventC l"
| "selectable l (WatcherError _) = l_errorC l"
| "selectable l ErrorsClosed = l_errorC l"
| "selectable l (LockError _) = l_lockErrors l"
| "selectable l LockErrorsClosed = l_lockErrors l"
| "selectable l TimerFired = l_timerC l"
| "selectable l (SyncResult _) = (l_active l \<noteq> None)"
| "selectable l (CommandDone _) = l_command l"
| "selectable l (Signal _) = True"

fun onInput :: "duration \<Rightarrow> syncConfig option \<Rightarrow> input \<Rightarrow> loop \<Rightarrow> loop" where
  "onInput interval state (Change item) l = onChange state item l"
| "onInput interval state EventsClosed l = l\<lparr>l_watcherClosed := True, l_eventC := False\<rparr>"
| "onInput interval state (WatcherError err) l = onWatcherError err l"
| "onInput interval state ErrorsClosed l = l\<lparr>l_errorC := False\<rparr>"
| "onInput interval state (LockError err) l = onLockError err l"
| "onInput interval state LockErrorsClosed l = l\<lparr>l_lockErrors := False\<rparr>"
| "onInput interval state TimerFired l = onTimer l"
| "onInput interval state (SyncResult err) l = onResult interval err l"
| "onInput interval state (CommandDone code) l = onCommandDone code l"
| "onInput interval state (Signal sig) l = onSignal sig l"

section \<open>The loop\<close>

text \<open>The test at the top of the loop: how it is left, or the state the \<open>select\<close> runs on.\<close>

datatype leave = LockRefreshFailed | WatcherFailed | FinalSyncFailed | AllSynced

definition quiescent :: "loop \<Rightarrow> bool" where
  "quiescent l = (l_stopping l \<and> l_watcherClosed l \<and> \<not> l_errorC l \<and> l_active l = None \<and> \<not> l_command l)"

definition atTop :: "loop \<Rightarrow> leave + loop" where
  "atTop l =
     (if quiescent l then
        (if l_lockErr l \<noteq> None then Inl LockRefreshFailed
         else if l_pending l \<noteq> [] \<and> \<not> l_finalAttempted l then Inr (startSync True l)
         else if l_watcherErr l \<noteq> None then Inl WatcherFailed
         else if l_pending l \<noteq> [] then Inl FinalSyncFailed
         else Inl AllSynced)
      else Inr l)"

text \<open>One turn of the loop, the turns from a state, and how the loop can be left.\<close>

inductive turn :: "duration \<Rightarrow> syncConfig option \<Rightarrow> loop \<Rightarrow> loop \<Rightarrow> bool" for interval state where
  turnI: "atTop l = Inr m \<Longrightarrow> selectable m i \<Longrightarrow> turn interval state l (onInput interval state i m)"

inductive_cases turnE: "turn interval state l t"

abbreviation turns :: "duration \<Rightarrow> syncConfig option \<Rightarrow> loop \<Rightarrow> loop \<Rightarrow> bool" where
  "turns interval state \<equiv> (turn interval state)\<^sup>*\<^sup>*"

text \<open>The loop over a schedule of inputs; an input that cannot be taken is passed over.\<close>

fun runLoop :: "duration \<Rightarrow> syncConfig option \<Rightarrow> input list \<Rightarrow> loop \<Rightarrow> leave option \<times> loop" where
  "runLoop interval state [] l = (case atTop l of Inl r \<Rightarrow> (Some r, l) | Inr m \<Rightarrow> (None, m))"
| "runLoop interval state (i # is) l = (case atTop l of
      Inl r \<Rightarrow> (Some r, l)
    | Inr m \<Rightarrow> runLoop interval state is (if selectable m i then onInput interval state i m else m))"

end
