(* ===== verification/LoopSafety.thy ===== *)
theory LoopSafety
  imports MainLoop
begin

text \<open>
  What the event loop guarantees: an invariant of its flags, the delivery of every change it
  has received, the number of attempts after shutdown has begun, the pace of its retries, and
  that it ends.
\<close>

lemmas loop_defs = startSync_def abortForLockFailure_def onChange_def onWatcherError_def onLockError_def onTimer_def
  onFailure_def onResult_def onCommandDone_def onSignal_def logged_def

section \<open>The flags\<close>

definition loopInv :: "duration \<Rightarrow> loop \<Rightarrow> bool" where
  "loopInv interval l =
     ((l_lockErr l \<noteq> None \<or> l_watcherErr l \<noteq> None \<or> l_abandoned l \<or> l_finalAttempted l \<longrightarrow> l_stopping l) \<and>
      (l_abandoned l \<longrightarrow> l_finalAttempted l) \<and>
      (l_stopping l \<longrightarrow> \<not> l_timerC l) \<and>
      (interval > 0 \<or> l_timerC l \<longrightarrow> l_timer l) \<and>
      (l_timerC l \<longrightarrow> l_active l = None) \<and>
      (l_syncReady l \<and> \<not> l_stopping l \<longrightarrow> l_active l = None \<and> \<not> l_timerC l \<and> l_pending l = []) \<and>
      l_active l \<noteq> Some [] \<and>
      (l_watcherClosed l \<longleftrightarrow> \<not> l_eventC l) \<and>
      (l_lockErr l \<noteq> None \<longrightarrow> CancelRunner \<in> set (l_log l)) \<and>
      initialRetryDelay \<le> l_retryDelay l \<and> l_retryDelay l \<le> maxRetryDelay)"

lemma startLoop_inv: "loopInv interval (startLoop interval withState started pending)"
  by (auto simp: loopInv_def startLoop_def Let_def logged_def initialRetryDelay_def maxRetryDelay_def second_def
      split: option.splits)

lemma loopInvD:
  assumes "loopInv interval l"
  shows "l_stopping l \<Longrightarrow> \<not> l_timerC l" "l_timerC l \<Longrightarrow> l_active l = None"
    "l_syncReady l \<Longrightarrow> \<not> l_stopping l \<Longrightarrow> l_active l = None \<and> \<not> l_timerC l \<and> l_pending l = []"
    "l_active l \<noteq> Some []" "initialRetryDelay \<le> l_retryDelay l" "l_retryDelay l \<le> maxRetryDelay"
    "l_lockErr l \<noteq> None \<Longrightarrow> CancelRunner \<in> set (l_log l)" "interval > 0 \<Longrightarrow> l_timer l"
    "l_watcherClosed l = (\<not> l_eventC l)" "l_abandoned l \<Longrightarrow> l_finalAttempted l"
    "l_lockErr l \<noteq> None \<or> l_watcherErr l \<noteq> None \<or> l_abandoned l \<or> l_finalAttempted l \<Longrightarrow> l_stopping l"
  using assms unfolding loopInv_def by blast+

lemma loopInv_logged: "loopInv interval l \<Longrightarrow> loopInv interval (logged actions l)"
  by (simp add: loopInv_def logged_def)

lemma startSync_inv: "loopInv interval l \<Longrightarrow> (final \<longrightarrow> l_stopping l) \<Longrightarrow> \<not> l_timerC l \<Longrightarrow> \<not> l_syncReady l \<or> l_stopping l \<Longrightarrow>
   loopInv interval (startSync final l)"
  by (auto simp: loopInv_def startSync_def logged_def)

lemma atTop_inv:
  assumes "loopInv interval l" "atTop l = Inr m"
  shows "loopInv interval m"
proof (cases "m = l")
  case False
  then have "m = startSync True l" "l_stopping l"
    using assms(2) by (auto simp: atTop_def quiescent_def split: if_splits)
  moreover have "l_stopping l \<longrightarrow> \<not> l_timerC l" using loopInvD(1) [OF assms(1)] by blast
  ultimately show ?thesis using startSync_inv [OF assms(1), of True] by simp
qed (use assms in simp)

lemma abort_inv: "loopInv interval l \<Longrightarrow> loopInv interval (abortForLockFailure err l)"
  by (simp add: loopInv_def abortForLockFailure_def logged_def)

lemma onChange_inv:
  assumes "loopInv interval l"
  shows "loopInv interval (onChange state item l)"
proof -
  define t where "t = (if isMetadata state (ch_path item) then l else logged [Received (ch_path item)] l)
    \<lparr>l_pending := queueChange state (l_pending l) item\<rparr>"
  have fields: "l_active t = l_active l" "l_stopping t = l_stopping l" "l_watcherClosed t = l_watcherClosed l"
    "l_finalAttempted t = l_finalAttempted l" "l_syncReady t = l_syncReady l" "l_abandoned t = l_abandoned l"
    "l_watcherErr t = l_watcherErr l" "l_lockErr t = l_lockErr l" "l_timer t = l_timer l" "l_timerC t = l_timerC l"
    "l_retryDelay t = l_retryDelay l" "l_eventC t = l_eventC l" "CancelRunner \<in> set (l_log l) \<Longrightarrow> CancelRunner \<in> set (l_log t)"
    by (simp_all add: t_def logged_def)
  have t: "loopInv interval (t\<lparr>l_syncReady := b\<rparr>)" if "b \<longrightarrow> l_syncReady t \<and> (l_active t \<noteq> None \<or> l_stopping t)" for b
  proof -
    have "b \<longrightarrow> l_stopping l" using that loopInvD(3) [OF assms] by (cases "l_stopping l") (auto simp: fields)
    then show ?thesis
      using assms unfolding loopInv_def by (cases b) (elim conjE, intro conjI, simp_all add: fields)+
  qed
  have quiet: "\<not> l_timerC l" if "l_syncReady l" "\<not> l_stopping l" using loopInvD(3) [OF assms] that by simp
  have same: "t\<lparr>l_syncReady := l_syncReady t\<rparr> = t" by simp
  show ?thesis
  proof (cases "l_syncReady l \<and> l_active l = None \<and> \<not> l_stopping l")
    case True
    then have "loopInv interval (startSync False (t\<lparr>l_syncReady := False\<rparr>))"
      using t [of False] quiet by (intro startSync_inv) (simp_all add: fields)
    then show ?thesis using True fields by (simp add: onChange_def Let_def t_def [symmetric])
  next
    case False
    then have "loopInv interval t" using t [of "l_syncReady t"] unfolding same by (auto simp: fields)
    moreover have "onChange state item l = t"
      using False fields(1,2,5) by (auto simp: onChange_def Let_def t_def [symmetric])
    ultimately show ?thesis by simp
  qed
qed

lemma onTimer_inv:
  assumes "loopInv interval l" "l_timerC l"
  shows "loopInv interval (onTimer l)"
proof -
  have "loopInv interval (l\<lparr>l_timerC := False\<rparr>)" "\<not> l_syncReady l \<or> l_stopping l" using assms by (auto simp: loopInv_def)
  then have "loopInv interval (startSync False (l\<lparr>l_timerC := False\<rparr>))" by (auto intro: startSync_inv)
  moreover have "loopInv interval (l\<lparr>l_timerC := False, l_syncReady := True\<rparr>)" if "l_pending l = []"
    using assms that by (auto simp: loopInv_def)
  ultimately show ?thesis by (simp add: onTimer_def)
qed

lemma nonempty_dom: "xs \<noteq> [] \<longleftrightarrow> dom (map_of xs) \<noteq> {}"
  by (cases xs) auto

lemma merge_paths: "fst ` set (mergeFailedBatch pending batch) = fst ` set pending \<union> fst ` set batch"
  using pending.nothing_lost [of pending batch] by (simp add: dom_map_of_conv_image_fst)

lemma onFailure_inv:
  assumes "loopInv interval l" "l_active l = None"
  shows "loopInv interval (onFailure batch err l)"
proof -
  let ?m = "l\<lparr>l_pending := mergeFailedBatch (l_pending l) batch\<rparr>"
  have stopping: "loopInv interval ?m" if "l_stopping l" using assms that by (simp add: loopInv_def)
  have running: "loopInv interval (?m\<lparr>l_syncReady := False, l_timer := True, l_timerC := True,
      l_retryDelay := min (2 * l_retryDelay l) maxRetryDelay\<rparr>)" if "\<not> l_stopping l"
    using assms that by (simp add: loopInv_def initialRetryDelay_def maxRetryDelay_def second_def)
  show ?thesis
    using assms(1) stopping loopInv_logged [OF running] by (simp add: onFailure_def abort_inv Let_def)
qed

lemma onResult_inv:
  assumes "loopInv interval l"
  shows "loopInv interval (onResult interval err l)"
proof (cases "l_active l")
  case (Some batch)
  define t where "t = logged [Finished batch err] (l\<lparr>l_active := None,
                   l_lastSyncErr := (if l_abandoned l then l_lastSyncErr l else err)\<rparr>)"
  have t: "loopInv interval t" "l_active t = None" "\<not> l_syncReady t \<or> l_stopping t"
    using assms Some by (auto simp: loopInv_def t_def logged_def)
  have "loopInv interval (t\<lparr>l_retryDelay := initialRetryDelay\<rparr>)"
    using t(1) by (simp add: loopInv_def initialRetryDelay_def maxRetryDelay_def second_def)
  moreover have "loopInv interval (t\<lparr>l_retryDelay := initialRetryDelay, l_syncReady := False, l_timerC := True\<rparr>)"
    if "\<not> l_stopping t" "interval > 0"
    using t that by (simp add: loopInv_def initialRetryDelay_def maxRetryDelay_def second_def)
  ultimately show ?thesis
    using Some onFailure_inv [OF t(1,2)] loopInv_logged
    by (simp add: onResult_def Let_def t_def [symmetric] split: option.split)
qed (use assms in \<open>simp add: onResult_def\<close>)

lemma onInput_inv:
  assumes "loopInv interval l" "selectable l i"
  shows "loopInv interval (onInput interval state i l)"
proof (cases i)
  case (Signal sig)
  then show ?thesis using assms by (auto simp: loopInv_def onSignal_def logged_def Let_def)
next
  case (CommandDone code)
  then show ?thesis using assms by (auto simp: loopInv_def onCommandDone_def logged_def Let_def)
next
  case (WatcherError err)
  then show ?thesis using assms by (auto simp: loopInv_def onWatcherError_def logged_def)
qed (use assms onChange_inv onTimer_inv onResult_inv abort_inv in
  \<open>auto simp: onLockError_def loopInv_def [of _ "_\<lparr>l_watcherClosed := _, l_eventC := _\<rparr>"] loopInv_def [of _ "_\<lparr>l_errorC := _\<rparr>"]
     loopInv_def [of _ "_\<lparr>l_lockErrors := _\<rparr>"] loopInv_def [of _ l] split: option.split\<close>)

lemma turn_inv: "turn interval state l t \<Longrightarrow> loopInv interval l \<Longrightarrow> loopInv interval t"
  by (auto elim!: turnE intro: onInput_inv atTop_inv)

lemma turns_inv: "turns interval state l t \<Longrightarrow> loopInv interval l \<Longrightarrow> loopInv interval t"
  by (induction rule: rtranclp_induct) (auto intro: turn_inv)

section \<open>Delivery\<close>

text \<open>
  A change of a path is delivered when, after it was last received, an attempt with the
  path has started and has finished without an error.
\<close>

definition sinceReceived :: "string \<Rightarrow> action list \<Rightarrow> action list" where
  "sinceReceived p log = takeWhile (\<lambda>a. a \<noteq> Received p) log"

definition delivered :: "string \<Rightarrow> action list \<Rightarrow> bool" where
  "delivered p log = (\<exists>newer batch final between older. sinceReceived p log =
     newer @ Finished batch None # between @ Started batch final # older \<and> p \<in> fst ` set batch)"

text \<open>Where a change that was received is: still to be sent, on its way, or delivered.\<close>

definition accounted :: "loop \<Rightarrow> string \<Rightarrow> bool" where
  "accounted l p = (p \<in> fst ` set (l_pending l) \<or>
     (\<exists>batch final. l_active l = Some batch \<and> p \<in> fst ` set batch \<and> Started batch final \<in> set (sinceReceived p (l_log l))) \<or>
     delivered p (l_log l))"

definition deliveryInv :: "loop \<Rightarrow> bool" where
  "deliveryInv l = (l_lockErr l = None \<longrightarrow> (\<forall>p. Received p \<in> set (l_log l) \<longrightarrow> accounted l p))"

lemma sinceReceived_simps [simp]:
  "sinceReceived p [] = []"
  "sinceReceived p (a # log) = (if a = Received p then [] else a # sinceReceived p log)"
  by (simp_all add: sinceReceived_def)

lemma delivered_Cons: "a \<noteq> Received p \<Longrightarrow> delivered p log \<Longrightarrow> delivered p (a # log)"
  unfolding delivered_def sinceReceived_simps by (simp only: if_False) (metis append_Cons)

lemma delivered_finish:
  assumes "Started batch final \<in> set (sinceReceived p log)" "p \<in> fst ` set batch"
  shows "delivered p (Finished batch None # log)"
proof -
  obtain between older where "sinceReceived p log = between @ Started batch final # older"
    using split_list [OF assms(1)] by blast
  then have "sinceReceived p (Finished batch None # log) = [] @ Finished batch None # between @ Started batch final # older"
    by simp
  then show ?thesis using assms(2) unfolding delivered_def by blast
qed

text \<open>Actions that are not receipts, and a change of the flags, keep every account.\<close>

definition silent :: "action \<Rightarrow> bool" where
  "silent a = (case a of Received _ \<Rightarrow> False | _ \<Rightarrow> True)"

lemma since_delivered_append:
  assumes "\<forall>a \<in> set xs. a \<noteq> Received p"
  shows "sinceReceived p (xs @ log) = xs @ sinceReceived p log" "delivered p log \<Longrightarrow> delivered p (xs @ log)"
  using assms by (induction xs) (auto intro: delivered_Cons)

lemma accounted_log:
  assumes "accounted l p" "l_log t = xs @ l_log l" "\<forall>a \<in> set xs. a \<noteq> Received p"
    "fst ` set (l_pending l) \<subseteq> fst ` set (l_pending t)" "l_active t = l_active l"
  shows "accounted t p"
  using assms(1,2,4,5) since_delivered_append [OF assms(3)] unfolding accounted_def by auto

lemma silent_not_received: "\<forall>a \<in> set xs. silent a \<Longrightarrow> \<forall>a \<in> set xs. a \<noteq> Received p"
  by (auto simp: silent_def)

definition silentOver :: "action list \<Rightarrow> action list \<Rightarrow> bool" where
  "silentOver log log' = (\<exists>xs. log' = xs @ log \<and> (\<forall>a \<in> set xs. silent a))"

lemma silentOver_rules [intro!, simp]: "silentOver log log" "silent a \<Longrightarrow> silentOver log log' \<Longrightarrow> silentOver log (a # log')"
  unfolding silentOver_def by (force, metis append_Cons set_ConsD)

lemma silent_simps [simp]:
  "\<not> silent (Received p)" "silent (Started b final)" "silent (Finished b e)" "silent CancelRunner" "silent (SignalGroup g)"
  "silent CloseWatches" "silent (ResetTimer d)"
  by (simp_all add: silent_def)

definition grows :: "loop \<Rightarrow> loop \<Rightarrow> bool" where
  "grows l t = (silentOver (l_log l) (l_log t) \<and> fst ` set (l_pending l) \<subseteq> fst ` set (l_pending t) \<and>
     l_active t = l_active l \<and> (l_lockErr t = None \<longrightarrow> l_lockErr l = None))"

lemma deliveryInv_grows:
  assumes "deliveryInv l" "grows l t"
  shows "deliveryInv t"
proof -
  obtain xs where xs: "l_log t = xs @ l_log l" "\<forall>a \<in> set xs. silent a" using assms(2) by (auto simp: grows_def silentOver_def)
  show ?thesis
    using assms silent_not_received [OF xs(2)] accounted_log [OF _ xs(1)] by (auto simp: deliveryInv_def grows_def xs(1))
qed

lemma startSync_delivery:
  assumes "deliveryInv l"
  shows "deliveryInv (startSync final l)"
proof -
  have "accounted (startSync final l) p" if "l_active l = None" "l_pending l \<noteq> []" "accounted l p" for p
    using that by (auto simp: accounted_def startSync_def logged_def intro: delivered_Cons)
  then show ?thesis using assms by (auto simp: deliveryInv_def startSync_def logged_def)
qed

definition finishes :: "batch \<Rightarrow> goerr option \<Rightarrow> loop \<Rightarrow> loop \<Rightarrow> bool" where
  "finishes batch err l t = (silentOver (Finished batch err # l_log l) (l_log t) \<and>
     fst ` set (l_pending l) \<subseteq> fst ` set (l_pending t) \<and>
     (l_lockErr t = None \<longrightarrow> l_lockErr l = None \<and> (err \<noteq> None \<longrightarrow> fst ` set batch \<subseteq> fst ` set (l_pending t))))"

lemma finish_delivery:
  assumes "deliveryInv l" "l_active l = Some batch" "finishes batch err l t"
  shows "deliveryInv t"
proof -
  obtain xs where xs: "l_log t = xs @ Finished batch err # l_log l" "\<forall>a \<in> set xs. silent a"
    using assms(3) by (auto simp: finishes_def silentOver_def)
  have paths: "fst ` set (l_pending l) \<subseteq> fst ` set (l_pending t)" using assms(3) by (simp add: finishes_def)
  have "accounted t p" if p: "accounted l p" "l_lockErr t = None" for p
  proof (cases "p \<in> fst ` set (l_pending t)")
    case False
    have returned: "err \<noteq> None \<longrightarrow> fst ` set batch \<subseteq> fst ` set (l_pending t)" using assms(3) p(2) by (simp add: finishes_def)
    have "delivered p (Finished batch err # l_log l)"
      using p(1) unfolding accounted_def
    proof (elim disjE exE conjE)
      assume "p \<in> fst ` set (l_pending l)"
      then show ?thesis using False paths by blast
    next
      fix b final assume b: "l_active l = Some b" "p \<in> fst ` set b" "Started b final \<in> set (sinceReceived p (l_log l))"
      then show ?thesis using False returned assms(2) delivered_finish [of batch final p "l_log l"] by (cases err) auto
    next
      assume "delivered p (l_log l)"
      then show ?thesis by (rule delivered_Cons [rotated]) simp
    qed
    then show ?thesis
      using since_delivered_append(2) [OF silent_not_received [OF xs(2)]] by (simp add: accounted_def xs(1))
  qed (simp add: accounted_def)
  moreover have "Received p \<in> set (l_log t) \<longleftrightarrow> Received p \<in> set (l_log l)" for p
    using silent_not_received [OF xs(2), of p] by (auto simp: xs(1))
  ultimately show ?thesis using assms(1,3) by (simp add: deliveryInv_def finishes_def)
qed

lemma queueChange_paths: "fst ` set (queueChange state pending item) =
   (if isMetadata state (ch_path item) then fst ` set pending else insert (ch_path item) (fst ` set pending))"
  by (simp add: queueChange_def addPending_def dom_update [unfolded dom_map_of_conv_image_fst] dom_map_of_conv_image_fst [symmetric]
      map_of_addPending [unfolded addPending_def])

lemma onChange_delivery:
  assumes "deliveryInv l"
  shows "deliveryInv (onChange state item l)"
proof -
  define t where "t = (if isMetadata state (ch_path item) then l else logged [Received (ch_path item)] l)
    \<lparr>l_pending := queueChange state (l_pending l) item\<rparr>"
  have paths: "fst ` set (l_pending l) \<subseteq> fst ` set (l_pending t)" by (auto simp: t_def queueChange_paths)
  have act: "l_active t = l_active l" "l_lockErr t = l_lockErr l" by (simp_all add: t_def logged_def)
  have t: "deliveryInv t"
  proof (cases "isMetadata state (ch_path item)")
    case True
    then show ?thesis using deliveryInv_grows [OF assms, of t] paths act by (simp add: t_def grows_def)
  next
    case False
    then have log: "l_log t = [Received (ch_path item)] @ l_log l" by (simp add: t_def logged_def)
    have "accounted t p" if "Received p \<in> set (l_log l)" "p \<noteq> ch_path item" "l_lockErr l = None" for p
      using that assms accounted_log [OF _ log _ paths act(1), of p] by (auto simp: deliveryInv_def)
    moreover have "accounted t (ch_path item)" using False by (simp add: accounted_def t_def queueChange_paths)
    ultimately show ?thesis using log act by (auto simp: deliveryInv_def)
  qed
  have "deliveryInv (t\<lparr>l_syncReady := False\<rparr>)" by (rule deliveryInv_grows [OF t]) (simp add: grows_def)
  then show ?thesis using t startSync_delivery by (simp add: onChange_def Let_def t_def [symmetric])
qed

lemma onResult_delivery:
  assumes "deliveryInv l"
  shows "deliveryInv (onResult interval err l)"
proof (cases "l_active l")
  case (Some batch)
  then have "finishes batch err l (onResult interval err l)"
    by (cases err) (auto simp: finishes_def onResult_def onFailure_def abortForLockFailure_def logged_def Let_def merge_paths)
  then show ?thesis by (rule finish_delivery [OF assms Some])
qed (use assms in \<open>simp add: onResult_def\<close>)

lemma onInput_delivery:
  assumes "deliveryInv l"
  shows "deliveryInv (onInput interval state i l)"
proof (cases i)
  case TimerFired
  have "deliveryInv (l\<lparr>l_timerC := False\<rparr>)" "deliveryInv (l\<lparr>l_timerC := False, l_syncReady := True\<rparr>)"
    by (rule deliveryInv_grows [OF assms], simp add: grows_def)+
  then show ?thesis using startSync_delivery TimerFired by (simp add: onTimer_def)
qed (use assms onChange_delivery onResult_delivery in
  \<open>auto intro!: deliveryInv_grows [OF assms] simp: grows_def onWatcherError_def onLockError_def abortForLockFailure_def
     onCommandDone_def onSignal_def logged_def Let_def split: option.split\<close>)

lemma turn_delivery: "turn interval state l t \<Longrightarrow> deliveryInv l \<Longrightarrow> deliveryInv t"
  by (elim turnE) (auto simp: atTop_def split: if_splits intro!: onInput_delivery intro: startSync_delivery)

lemma turns_delivery: "turns interval state l t \<Longrightarrow> deliveryInv l \<Longrightarrow> deliveryInv t"
  by (induction rule: rtranclp_induct) (auto intro: turn_delivery)

lemma startLoop_delivery: "deliveryInv (startLoop interval withState started pending)"
  by (force simp: deliveryInv_def startLoop_def Let_def logged_def accounted_def image_comp)

lemma all_synced_delivered:
  assumes "deliveryInv l" "atTop l = Inl AllSynced" "Received p \<in> set (l_log l)"
  shows "delivered p (l_log l)"
  using assms by (auto simp: deliveryInv_def atTop_def quiescent_def accounted_def split: if_splits)

section \<open>Attempts after shutdown has begun\<close>

fun isStart :: "action \<Rightarrow> bool" where
  "isStart (Started _ _) = True"
| "isStart _ = False"

definition starts :: "loop \<Rightarrow> nat" where
  "starts l = length (filter isStart (l_log l))"

text \<open>The attempts made and the final one, while it is still to come.\<close>

definition budget :: "loop \<Rightarrow> nat" where
  "budget l = starts l + (if l_finalAttempted l then 0 else 1)"

lemma final_budget: "budget (startSync True l) \<le> budget l" if "\<not> l_finalAttempted l"
  using that by (simp add: budget_def starts_def startSync_def logged_def)

lemma onInput_stopping:
  assumes "loopInv interval l" "selectable l i" "l_stopping l"
  shows "l_stopping (onInput interval state i l) \<and> budget (onInput interval state i l) \<le> budget l"
proof (cases i)
  case TimerFired
  then show ?thesis using assms loopInvD(1) [OF assms(1,3)] by simp
qed (use assms(3) in \<open>auto simp: loop_defs budget_def starts_def Let_def split: option.split\<close>)

lemma atTop_stopping: "atTop l = Inr m \<Longrightarrow> l_stopping l \<Longrightarrow> l_stopping m \<and> budget m \<le> budget l"
  using final_budget [of l] by (auto simp: atTop_def split: if_splits) (simp add: startSync_def logged_def)

lemma turns_stopping:
  assumes "turns interval state l t" "loopInv interval l" "l_stopping l"
  shows "l_stopping t \<and> budget t \<le> budget l"
  using assms(1)
proof (induction rule: rtranclp_induct)
  case (step u t)
  obtain m i where m: "atTop u = Inr m" "selectable m i" "t = onInput interval state i m"
    using step.hyps(2) by (auto elim: turnE)
  have "loopInv interval m" using atTop_inv [OF turns_inv [OF step.hyps(1) assms(2)] m(1)] .
  then show ?case
    using atTop_stopping [OF m(1)] step.IH onInput_stopping [OF _ m(2)] m(3) by (meson le_trans)
qed (simp add: assms(3))

lemma stopping_starts:
  assumes "turns interval state l t" "loopInv interval l" "l_stopping l"
  shows "starts t \<le> starts l + (if l_finalAttempted l then 0 else 1)"
  using turns_stopping [OF assms] by (auto simp: budget_def split: if_splits)

section \<open>The pace of retries\<close>

definition backoff :: "nat \<Rightarrow> duration" where
  "backoff n = min (2 ^ n * initialRetryDelay) maxRetryDelay"

text \<open>A state that waits for its timer after \<open>k\<close> failures in a row.\<close>

definition waitingToRetry :: "nat \<Rightarrow> loop \<Rightarrow> bool" where
  "waitingToRetry k l = (\<not> l_stopping l \<and> l_timerC l \<and> l_active l = None \<and> l_pending l \<noteq> [] \<and> l_retryDelay l = backoff k)"

lemma backoff_Suc: "min (2 * backoff n) maxRetryDelay = backoff (Suc n)"
  by (auto simp: backoff_def maxRetryDelay_def initialRetryDelay_def second_def min_def)

lemma retry_round:
  assumes "waitingToRetry k l" "\<not> isOwnershipLost e"
  shows "\<exists>m. runLoop interval state (TimerFired # SyncResult (Some e) # is) l = runLoop interval state is m \<and>
     waitingToRetry (Suc k) m \<and> fst ` set (l_pending m) = fst ` set (l_pending l) \<and> hd (l_log m) = ResetTimer (backoff k)"
proof -
  define t where "t = onTimer l"
  have t: "l_active t = Some (l_pending l)" "\<not> l_stopping t" "l_pending t = []" "l_retryDelay t = backoff k"
    "l_pending l \<noteq> []" "\<not> l_stopping l" "l_timerC l"
    using assms(1) by (auto simp: t_def onTimer_def startSync_def logged_def waitingToRetry_def)
  define m where "m = onResult interval (Some e) t"
  have pending: "fst ` set (l_pending m) = fst ` set (l_pending l)"
    using t assms(2) by (simp add: m_def onResult_def onFailure_def logged_def Let_def merge_paths)
  then have ne: "l_pending m \<noteq> []" using t(5) by auto
  have m: "waitingToRetry (Suc k) m" "hd (l_log m) = ResetTimer (backoff k)"
    using t assms(2) ne
    by (simp_all add: m_def waitingToRetry_def onResult_def onFailure_def logged_def Let_def backoff_Suc [symmetric])
  have "atTop l = Inr l" "atTop t = Inr t" using t by (simp_all add: atTop_def quiescent_def)
  then have "runLoop interval state (TimerFired # SyncResult (Some e) # is) l = runLoop interval state is m"
    using t by (simp add: t_def [symmetric] m_def)
  then show ?thesis using m pending by blast
qed

lemma retries:
  assumes "waitingToRetry k l" "\<forall>e \<in> set es. \<not> isOwnershipLost e"
  shows "\<exists>m. runLoop interval state (concat (map (\<lambda>e. [TimerFired, SyncResult (Some e)]) es)) l = (None, m) \<and>
     waitingToRetry (k + length es) m \<and> fst ` set (l_pending m) = fst ` set (l_pending l)"
  using assms
proof (induction es arbitrary: k l)
  case Nil
  then show ?case by (simp add: atTop_def quiescent_def waitingToRetry_def)
next
  case (Cons e es)
  from retry_round [OF Cons.prems(1), of e interval state "concat (map (\<lambda>e. [TimerFired, SyncResult (Some e)]) es)"]
  obtain t where t: "runLoop interval state (concat (map (\<lambda>e. [TimerFired, SyncResult (Some e)]) (e # es))) l =
      runLoop interval state (concat (map (\<lambda>e. [TimerFired, SyncResult (Some e)]) es)) t"
    "waitingToRetry (Suc k) t" "fst ` set (l_pending t) = fst ` set (l_pending l)"
    using Cons.prems(2) by auto
  from Cons.IH [OF t(2)] Cons.prems(2) show ?case using t(1,3) by auto
qed

section \<open>Whether another attempt is to come\<close>

text \<open>While the program runs with an interval, an attempt runs or the timer or a change will start one.\<close>

definition armed :: "loop \<Rightarrow> bool" where
  "armed l = (l_active l \<noteq> None \<or> l_timerC l \<or> l_syncReady l)"

text \<open>The exception: a change of the metadata uses up the readiness without starting an attempt.\<close>

definition wasted :: "syncConfig option \<Rightarrow> input \<Rightarrow> loop \<Rightarrow> bool" where
  "wasted state i l = (l_syncReady l \<and> l_active l = None \<and> (case i of
      Change item \<Rightarrow> isMetadata state (ch_path item) \<and> l_pending l = [] | _ \<Rightarrow> False))"

lemma onInput_armed:
  assumes "loopInv interval l" "interval > 0" "armed l" "\<not> wasted state i l" "selectable l i"
  shows "armed (onInput interval state i l) \<or> l_stopping (onInput interval state i l)"
proof (cases i)
  case (Change item)
  have "queueChange state (l_pending l) item \<noteq> []" if "\<not> (isMetadata state (ch_path item) \<and> l_pending l = [])"
    using that queueChange_paths [of state "l_pending l" item] by (auto split: if_splits)
  then show ?thesis
    using Change assms(2-) by (auto simp: onChange_def armed_def wasted_def startSync_def logged_def Let_def)
next
  case (SyncResult err)
  then show ?thesis
    using assms(2-) loopInvD(11) [OF assms(1)] by (cases err; cases "l_stopping l")
      (auto simp: onResult_def onFailure_def abortForLockFailure_def armed_def logged_def Let_def split: if_splits)
qed (use assms(2-) in \<open>auto simp: armed_def loop_defs Let_def split: option.splits\<close>)

text \<open>After that, nothing but an input that begins the shutdown ever starts an attempt.\<close>

definition stalled :: "loop \<Rightarrow> bool" where
  "stalled l = (\<not> l_stopping l \<and> \<not> armed l)"

lemma wasted_stalls:
  assumes "wasted state i l" "loopInv interval l" "\<not> l_stopping l"
  shows "stalled (onInput interval state i l) \<and> starts (onInput interval state i l) = starts l \<and>
    l_pending (onInput interval state i l) = []"
proof (cases i)
  case (Change item)
  then show ?thesis
    using assms(1,3) loopInvD(3) [OF assms(2)]
    by (auto simp: wasted_def onChange_def stalled_def armed_def starts_def startSync_def logged_def Let_def queueChange_def)
qed (use assms(1) in \<open>auto simp: wasted_def\<close>)

lemma stalled_changes:
  assumes "stalled l" "l_eventC l"
  shows "\<exists>m. runLoop interval state (map Change items) l = (None, m) \<and> stalled m \<and> starts m = starts l \<and>
    l_pending m = foldl (queueChange state) (l_pending l) items"
  using assms
proof (induction items arbitrary: l)
  case Nil
  then show ?case by (simp add: atTop_def quiescent_def stalled_def)
next
  case (Cons item items)
  let ?t = "onChange state item l"
  have "atTop l = Inr l" using Cons.prems(1) by (simp add: atTop_def quiescent_def stalled_def)
  then have run: "runLoop interval state (map Change (item # items)) l = runLoop interval state (map Change items) ?t"
    using Cons.prems(2) by simp
  have "stalled ?t" "l_eventC ?t" "starts ?t = starts l" "l_pending ?t = queueChange state (l_pending l) item"
    using Cons.prems by (auto simp: stalled_def armed_def onChange_def starts_def logged_def Let_def)
  then show ?case using Cons.IH [of ?t] run by auto
qed

section \<open>The loop ends\<close>

definition closing :: "int \<Rightarrow> goerr option \<Rightarrow> goerr option \<Rightarrow> input list" where
  "closing code e f = [CommandDone code, EventsClosed, ErrorsClosed, SyncResult e, SyncResult f]"

definition ends :: "duration \<Rightarrow> syncConfig option \<Rightarrow> input list \<Rightarrow> loop \<Rightarrow> bool" where
  "ends interval state is l = (fst (runLoop interval state is l) \<noteq> None)"

text \<open>Everything is shut, up to the attempt that may be running.\<close>

definition shut :: "loop \<Rightarrow> bool" where
  "shut l = (l_stopping l \<and> l_watcherClosed l \<and> \<not> l_errorC l \<and> \<not> l_command l)"

lemma ends_Cons:
  "(\<And>m. atTop l = Inr m \<Longrightarrow> ends interval state is (if selectable m i then onInput interval state i m else m)) \<Longrightarrow>
   ends interval state (i # is) l"
  by (simp add: ends_def split: sum.split)

lemma atTop_cases:
  assumes "atTop l = Inr m"
  obtains "m = l" "\<not> quiescent l" | "m = startSync True l" "quiescent l" "l_pending l \<noteq> []" "\<not> l_finalAttempted l"
  using assms by (auto simp: atTop_def split: if_splits)

lemma result_shut:
  assumes "shut l" "l_active l \<noteq> None"
  shows "shut (onResult interval e l) \<and> l_active (onResult interval e l) = None \<and>
    l_finalAttempted (onResult interval e l) = l_finalAttempted l"
  using assms
  by (cases e) (auto simp: shut_def onResult_def onFailure_def abortForLockFailure_def logged_def Let_def split: if_splits)

lemma ends_Nil: "shut l \<Longrightarrow> l_active l = None \<Longrightarrow> l_finalAttempted l \<Longrightarrow> ends interval state [] l"
  by (simp add: ends_def atTop_def quiescent_def shut_def)

lemma ends_result:
  assumes "shut l" "l_active l = None \<or> l_finalAttempted l"
  shows "ends interval state [SyncResult f] l"
proof (rule ends_Cons)
  fix m assume "atTop l = Inr m"
  then have "shut m \<and> l_active m \<noteq> None \<and> l_finalAttempted m"
    by (cases rule: atTop_cases) (use assms in \<open>auto simp: shut_def quiescent_def startSync_def logged_def\<close>)
  then show "ends interval state [] (if selectable m (SyncResult f) then onInput interval state (SyncResult f) m else m)"
    using result_shut [of m interval f] by (auto intro: ends_Nil)
qed

lemma ends_results:
  assumes "shut l"
  shows "ends interval state [SyncResult e, SyncResult f] l"
proof (rule ends_Cons)
  fix m assume "atTop l = Inr m"
  then have "shut m \<and> l_active m \<noteq> None"
    by (cases rule: atTop_cases) (use assms in \<open>auto simp: shut_def quiescent_def startSync_def logged_def\<close>)
  then show "ends interval state [SyncResult f] (if selectable m (SyncResult e) then onInput interval state (SyncResult e) m else m)"
    using result_shut [of m interval e] by (auto intro: ends_result)
qed

lemma atTop_fields:
  assumes "atTop l = Inr m"
  shows "l_stopping m = l_stopping l" "l_command m = l_command l" "l_watcherClosed m = l_watcherClosed l"
    "l_eventC m = l_eventC l" "l_errorC m = l_errorC l"
  using assms by (auto simp: atTop_def startSync_def logged_def split: if_splits)

lemma closing_ends:
  assumes "l_stopping l" "l_watcherClosed l \<or> l_eventC l"
  shows "ends interval state (closing code e f) l"
proof -
  have errors: "ends interval state [ErrorsClosed, SyncResult e, SyncResult f] l"
    if "l_stopping l" "l_watcherClosed l" "\<not> l_command l" for l
    by (rule ends_Cons) (use that in \<open>auto simp: shut_def atTop_fields intro: ends_results\<close>)
  have events: "ends interval state [EventsClosed, ErrorsClosed, SyncResult e, SyncResult f] l"
    if "l_stopping l" "l_watcherClosed l \<or> l_eventC l" "\<not> l_command l" for l
    by (rule ends_Cons) (use that in \<open>auto simp: atTop_fields intro: errors\<close>)
  show ?thesis
    unfolding closing_def
    by (rule ends_Cons) (use assms in \<open>auto simp: atTop_fields onCommandDone_def logged_def Let_def intro: events\<close>)
qed

text \<open>Whatever else arrives before.\<close>

lemma shutdown_ends:
  assumes "loopInv interval l" "l_stopping l"
  shows "ends interval state (is @ closing code e f) l"
  using assms
proof (induction "is" arbitrary: l)
  case Nil
  then show ?case using closing_ends loopInvD(9) by force
next
  case (Cons i ins)
  have "ends interval state (ins @ closing code e f) (if selectable m i then onInput interval state i m else m)"
    if "atTop l = Inr m" for m
    using Cons.IH atTop_inv [OF Cons.prems(1) that] atTop_fields(1) [OF that] Cons.prems(2) onInput_inv onInput_stopping
    by (metis (full_types))
  then show ?case unfolding append_Cons by (rule ends_Cons)
qed

section \<open>Abandoning the final attempt\<close>

text \<open>Without a command, two signals are enough to cancel what runs and to start nothing more.\<close>

lemma two_signals:
  assumes "\<not> l_command l" "\<not> l_abandoned l"
  shows "let t = onSignal h (onSignal g l) in
    l_stopping t \<and> l_abandoned t \<and> l_finalAttempted t \<and> hd (l_log t) = CancelRunner \<and> starts t = starts l"
  using assms by (simp add: onSignal_def Let_def logged_def starts_def)

lemma signal_forwarded:
  assumes "l_command l"
  shows "SignalGroup g \<in> set (l_log (onSignal g l)) \<and> l_signalsSeen (onSignal g l) = l_signalsSeen l \<and>
    l_abandoned (onSignal g l) = l_abandoned l \<and> l_command (onSignal g l)"
  using assms by (auto simp: onSignal_def Let_def logged_def)

end
