(* ===== verification/Run.thy ===== *)
theory Run
  imports MainLoop Startup Backend Watcher
begin

text \<open>
  \<open>initializeWatching\<close>, \<open>run\<close> and \<open>main\<close> of src/main.go: the components put together. What
  the other goroutines and the outside do, and when, is a \<open>plan\<close>: the inputs of the two
  loops, the programs that run elsewhere between two turns (the rounds of the refresh loop),
  and when a cancellation during the startup work strikes. An attempt is taken when its result
  is received, with the rounds of the refresh loop that ran between its parts.
\<close>

section \<open>Watching during the startup work\<close>

record startup =
  i_pending :: batch
  i_watcherErr :: "goerr option"
  i_interrupted :: "signal option"
  i_eventC :: bool
  i_errorC :: bool
  i_cancelled :: bool

fun onStartup :: "syncConfig \<Rightarrow> input \<Rightarrow> startup \<Rightarrow> startup" where
  "onStartup s (Change item) v = (if i_eventC v then v\<lparr>i_pending := queueChange (Some s) (i_pending v) item\<rparr> else v)"
| "onStartup s EventsClosed v = v\<lparr>i_eventC := False\<rparr>"
| "onStartup s (WatcherError err) v =
     (if i_errorC v \<and> err \<noteq> None \<and> i_watcherErr v = None
      then v\<lparr>i_watcherErr := err, i_cancelled := i_cancelled v \<or> cf_hasCancel s\<rparr> else v)"
| "onStartup s ErrorsClosed v = v\<lparr>i_errorC := False\<rparr>"
| "onStartup s (Signal sig) v =
     (if i_interrupted v = None then v\<lparr>i_interrupted := Some sig, i_cancelled := i_cancelled v \<or> cf_hasCancel s\<rparr> else v)"
| "onStartup s _ v = v"

definition startupResult :: "startup \<Rightarrow> goerr option \<Rightarrow> goerr option" where
  "startupResult v err = (case i_interrupted v of
      Some sig \<Rightarrow> Some (Interrupted sig ''reconciling startup state'')
    | None \<Rightarrow> (case i_watcherErr v of
        Some werr \<Rightarrow> Some (Wrapped ''watch during initialization: %w'' [] werr)
      | None \<Rightarrow> err))"

text \<open>A cancellation that strikes at the time \<open>at\<close> is a watchdog that cancels then.\<close>

definition initializeWatching ::
    "'r env \<Rightarrow> syncConfig \<Rightarrow> int \<Rightarrow> input list \<Rightarrow> ('r, goerr option \<times> batch) prog" where
  "initializeWatching E s at inputs = do {
     let v = foldl (\<lambda>v i. onStartup s i v)
               \<lparr>i_pending = [], i_watcherErr = None, i_interrupted = None, i_eventC = True, i_errorC = True,
                i_cancelled = False\<rparr> inputs;
     (if i_cancelled v then armWatchdog at True else State_Monad.return ());
     err \<leftarrow> initializeGeneration E s;
     (if i_cancelled v then do { stopWatchdog E; cancelRunner } else State_Monad.return ());
     State_Monad.return (startupResult v err, i_pending v) }"

section \<open>The loop in the world\<close>

datatype 'r happening =
    Input input
  | Elsewhere "('r, unit) prog"
  | Attempt "('r, unit) prog" "('r, unit) prog"

text \<open>
  One turn: the result of an attempt is what \<open>Sync\<close> returns, with what ran elsewhere after its
  announcement and during its transfers, and a cancellation that the loop has decided on
  reaches the runner.
\<close>

definition takeInput ::
    "'r env \<Rightarrow> syncer \<Rightarrow> duration \<Rightarrow> ('r, unit) prog \<Rightarrow> ('r, unit) prog \<Rightarrow> input \<Rightarrow> loop \<Rightarrow> ('r, loop) prog" where
  "takeInput E y interval between during i l =
     (if \<not> selectable l i then State_Monad.return l
      else do {
        t \<leftarrow> (case (i, l_active l) of
               (SyncResult _, Some batch) \<Rightarrow> do {
                 r \<leftarrow> syncWith E y between during batch;
                 State_Monad.return (onInput interval (y_state y) (SyncResult r) l) }
             | _ \<Rightarrow> State_Monad.return (onInput interval (y_state y) i l));
        (if CancelRunner \<in> set (l_log t) then cancelRunner else State_Monad.return ());
        State_Monad.return t })"

fun runTurns :: "'r env \<Rightarrow> syncer \<Rightarrow> duration \<Rightarrow> 'r happening list \<Rightarrow> loop \<Rightarrow> ('r, leave option \<times> loop) prog" where
  "runTurns E y interval [] l = State_Monad.return (case atTop l of Inl r \<Rightarrow> (Some r, l) | Inr m \<Rightarrow> (None, m))"
| "runTurns E y interval (Elsewhere p # hs) l = do { p; runTurns E y interval hs l }"
| "runTurns E y interval (Input i # hs) l =
     (case atTop l of
        Inl r \<Rightarrow> State_Monad.return (Some r, l)
      | Inr m \<Rightarrow> do {
          t \<leftarrow> takeInput E y interval (State_Monad.return ()) (State_Monad.return ()) i m;
          runTurns E y interval hs t })"
| "runTurns E y interval (Attempt between during # hs) l =
     (case atTop l of
        Inl r \<Rightarrow> State_Monad.return (Some r, l)
      | Inr m \<Rightarrow> do {
          t \<leftarrow> takeInput E y interval between during (SyncResult None) m;
          runTurns E y interval hs t })"

text \<open>What \<open>run\<close> returns when the loop is left.\<close>

definition leaveLoop :: "'r env \<Rightarrow> syncConfig option \<Rightarrow> leave \<Rightarrow> loop \<Rightarrow> ('r, int) prog" where
  "leaveLoop E state r l =
     (if r \<noteq> AllSynced then State_Monad.return 1
      else (case state of
          None \<Rightarrow> State_Monad.return (l_exitCode l)
        | Some s \<Rightarrow> do {
            e \<leftarrow> finishSession E s;
            State_Monad.return (if e \<noteq> None then 1 else l_exitCode l) }))"

section \<open>run\<close>

record 'r plan =
  pl_startup :: "input list"
  pl_cancelAt :: int
  pl_lockErr :: "goerr option"
  pl_started :: "goerr option"
  pl_turns :: "'r happening list"

definition runSyncer :: "config \<Rightarrow> syncConfig option \<Rightarrow> syncer" where
  "runSyncer cfg state =
     \<lparr>y_source = g_source cfg, y_dest = g_dest cfg, y_logs = g_logs cfg, y_state = state,
      y_trackState = (state \<noteq> None), y_excludes = g_excludes cfg\<rparr>"

text \<open>The startup work with a state: the exit code, or the changes collected meanwhile.\<close>

definition startWatching :: "'r env \<Rightarrow> syncConfig option \<Rightarrow> 'r plan \<Rightarrow> ('r, int + batch) prog" where
  "startWatching E state P = (case state of
      None \<Rightarrow> State_Monad.return (Inr [])
    | Some s \<Rightarrow> do {
        r \<leftarrow> initializeWatching E s (pl_cancelAt P) (pl_startup P);
        State_Monad.return (case r of
            (Some err, _) \<Rightarrow> Inl (case asInterrupted err of Some sig \<Rightarrow> signalExitCode sig | None \<Rightarrow> 1)
          | (None, pending) \<Rightarrow> if pl_lockErr P \<noteq> None then Inl 1 else Inr pending) })"

text \<open>From the watcher on; \<open>None\<close> when the plan ends before the loop is left. The final state of the loop is kept.\<close>

definition runWatching ::
    "'r env \<Rightarrow> kernel \<Rightarrow> fsys \<Rightarrow> config \<Rightarrow> syncConfig option \<Rightarrow> 'r plan \<Rightarrow> ('r, (int \<times> loop option) option) prog" where
  "runWatching E K F cfg state P =
     (case newWatcher K (fs_evalSymlinks F) (g_source cfg) of
        Inl err \<Rightarrow> State_Monad.return (Some (1, None))
      | Inr w \<Rightarrow> do {
          st \<leftarrow> startWatching E state P;
          (case st of
             Inl code \<Rightarrow> State_Monad.return (Some (code, None))
           | Inr pending \<Rightarrow> do {
               r \<leftarrow> runTurns E (runSyncer cfg state) (g_interval cfg) (pl_turns P)
                      (startLoop (g_interval cfg) (state \<noteq> None)
                         (if g_command cfg = [] then None else Some (pl_started P)) pending);
               (case r of
                  (None, _) \<Rightarrow> State_Monad.return None
                | (Some leave, l) \<Rightarrow> do {
                    code \<leftarrow> leaveLoop E state leave l;
                    State_Monad.return (Some (code, Some l)) }) }) })"

text \<open>The deferred \<open>Close\<close> of the state.\<close>

definition withClose ::
    "'r env \<Rightarrow> syncConfig \<Rightarrow> ('r, (int \<times> loop option) option) prog \<Rightarrow> ('r, (int \<times> loop option) option) prog" where
  "withClose E s body = do {
     r \<leftarrow> body;
     (case r of
        None \<Rightarrow> State_Monad.return None
      | Some (code, l) \<Rightarrow> do {
          e \<leftarrow> closeState E s;
          State_Monad.return (Some (if e \<noteq> None then 1 else code, l)) }) }"

definition runState :: "config \<Rightarrow> syncConfig \<Rightarrow> syncConfig" where
  "runState cfg s = s\<lparr>cf_excludes := g_excludes cfg, cf_forceDelete := g_forceDeleteRemote cfg,
     cf_hasCancel := True, cf_hasReleaseRunner := True\<rparr>"

definition run ::
    "nat \<Rightarrow> 'r env \<Rightarrow> kernel \<Rightarrow> fsys \<Rightarrow> (string \<Rightarrow> string option) \<Rightarrow> config \<Rightarrow> 'r plan
     \<Rightarrow> ('r, (int \<times> loop option) option) prog" where
  "run fuel E K F getenv cfg P =
     (if g_uploadOnly cfg then runWatching E K F cfg None P
      else do {
        c \<leftarrow> useConsistentWrites E getenv (g_dest cfg) (g_noConsistentWrites cfg);
        (case c of Inl err \<Rightarrow> State_Monad.return (Some (1, None)) | Inr consistentWrites \<Rightarrow> do {
        i \<leftarrow> newSyncState E (g_syncPaths cfg) (g_source cfg) (g_dest cfg) (g_lockTimeout cfg) (g_lockWait cfg)
               consistentWrites (g_failOnIncomplete cfg) (g_logs cfg) (g_persistentLock cfg);
        (case i of Inl err \<Rightarrow> State_Monad.return (Some (1, None)) | Inr s0 \<Rightarrow> do {
        let s = runState cfg s0;
        a \<leftarrow> acquire fuel E s;
        (case a of
           None \<Rightarrow> State_Monad.return None
         | Some (Some err) \<Rightarrow>
             State_Monad.return (Some (case asInterrupted err of Some sig \<Rightarrow> signalExitCode sig | None \<Rightarrow> 1, None))
         | Some None \<Rightarrow> withClose E s (runWatching E K F cfg (Some s) P)) }) }) })"

definition mainProgram ::
    "nat \<Rightarrow> 'r env \<Rightarrow> kernel \<Rightarrow> fsys \<Rightarrow> (string \<Rightarrow> string option) \<Rightarrow> string list \<Rightarrow> 'r plan
     \<Rightarrow> ('r, (int \<times> loop option) option) prog" where
  "mainProgram fuel E K F getenv args P =
     (case parseConfig F args of
        Inl err \<Rightarrow> State_Monad.return (Some (if isErrHelp err then 0 else 2, None))
      | Inr cfg \<Rightarrow> run fuel E K F getenv cfg P)"

end
