(* ===== verification/RunSafety.thy ===== *)
theory RunSafety
  imports Run LoopSafety
begin

text \<open>
  What an exit of the program tells: the code 0 is returned only when the loop was left with
  every change it had received delivered, the session finished and the lock given back.
\<close>

section \<open>Invariants of the loop in the world\<close>

lemma wp_all: "(\<And>r t. Q r t) \<Longrightarrow> wp m Q w"
  by (simp add: wp_def case_prod_beta)

lemma takeInput_inv:
  assumes "\<And>i l. I l \<Longrightarrow> selectable l i \<Longrightarrow> I (onInput interval (y_state y) i l)" "I l"
  shows "wp (takeInput E y interval p q i l) (\<lambda>t _. I t) w"
proof -
  have act: "wp (syncWith E y p q batch) (\<lambda>r t. I (onInput interval (y_state y) (SyncResult r) l)) w"
    if "l_active l \<noteq> None" for batch w
  proof -
    have "I (onInput interval (y_state y) (SyncResult r) l)" for r using assms(1) [of l "SyncResult r"] assms(2) that by simp
    then show ?thesis by (simp add: wp_def case_prod_beta del: onInput.simps)
  qed
  show ?thesis
    using assms act by (auto simp: takeInput_def wp_simps simp del: onInput.simps split: input.split option.split)
qed

lemma runTurns_inv:
  assumes inv: "\<And>i l. I l \<Longrightarrow> selectable l i \<Longrightarrow> I (onInput interval (y_state y) i l)"
    and atTop: "\<And>l m. I l \<Longrightarrow> atTop l = Inr m \<Longrightarrow> I m"
    and "I l"
  shows "wp (runTurns E y interval hs l) (\<lambda>(r, t) _. I t \<and> (\<forall>x. r = Some x \<longrightarrow> atTop t = Inl x)) w"
  using assms(3)
proof (induction hs arbitrary: l w)
  case Nil
  then show ?case using atTop by (auto simp: wp_simps split: sum.split)
next
  case (Cons h hs)
  show ?case
  proof (cases h)
    case (Elsewhere p)
    then show ?thesis using Cons by (auto simp: wp_bind intro: wp_all)
  next
    case (Input i)
    then show ?thesis
      using Cons atTop by (auto simp: wp_simps intro!: wp_mono [OF takeInput_inv [of I, OF inv]] split: sum.split)
  next
    case (Attempt p q)
    then show ?thesis
      using Cons atTop by (auto simp: wp_simps intro!: wp_mono [OF takeInput_inv [of I, OF inv]] split: sum.split)
  qed
qed

section \<open>The exit code 0\<close>

text \<open>The loop was left with everything delivered.\<close>

definition allDelivered :: "loop option \<Rightarrow> bool" where
  "allDelivered l' = (\<exists>l. l' = Some l \<and> atTop l = Inl AllSynced \<and>
     (\<forall>p. Received p \<in> set (l_log l) \<longrightarrow> delivered p (l_log l)))"

definition honest :: "(int \<times> loop option) option \<Rightarrow> bool" where
  "honest r = (\<forall>l'. r = Some (0, l') \<longrightarrow> allDelivered l')"

lemma honest_simps [simp]:
  "honest None" "code \<noteq> 0 \<Longrightarrow> honest (Some (code, l'))" "honest (Some (signalExitCode sig, l'))"
  by (simp_all add: honest_def signalExitCode_def)

lemma leaveLoop_code: "wp (leaveLoop E state x l) (\<lambda>code _. code = 0 \<longrightarrow> x = AllSynced) w"
  by (auto simp: leaveLoop_def wp_simps wp_all split: option.split)

lemma loop_honest:
  assumes "deliveryInv l"
  shows "wp (do { r \<leftarrow> runTurns E y interval hs l;
     (case r of
        (None, _) \<Rightarrow> State_Monad.return None
      | (Some leave, l) \<Rightarrow> do {
          code \<leftarrow> leaveLoop E state leave l;
          State_Monad.return (Some (code, Some l)) }) }) (\<lambda>r _. honest r) w"
proof -
  have turns: "wp (runTurns E y interval hs l)
      (\<lambda>(r, t) _. deliveryInv t \<and> (\<forall>x. r = Some x \<longrightarrow> atTop t = Inl x)) w"
    using assms by (rule runTurns_inv [of deliveryInv, rotated 2])
      (auto simp: atTop_def split: if_splits intro: onInput_delivery startSync_delivery)
  have exit: "wp (leaveLoop E state x t) (\<lambda>code. wp (State_Monad.return (Some (code, Some t))) (\<lambda>r _. honest r)) v"
    if "deliveryInv t" "atTop t = Inl x" for x t v
    by (rule wp_mono [OF leaveLoop_code])
      (use that all_synced_delivered in \<open>auto simp: wp_return honest_def allDelivered_def\<close>)
  show ?thesis
    unfolding wp_bind
    by (rule wp_mono [OF turns]) (auto simp: wp_bind wp_return exit [unfolded wp_return] split: option.split)
qed

lemma runWatching_honest: "wp (runWatching E K F cfg state P) (\<lambda>r _. honest r) w"
proof -
  have start: "wp (startWatching E state P) (\<lambda>st _. \<forall>code. st = Inl code \<longrightarrow> code \<noteq> 0) w" for w
    by (auto simp: startWatching_def wp_simps signalExitCode_def intro!: wp_all split: option.splits prod.splits if_splits)
  have "wp (startWatching E state P) (\<lambda>st. wp (case st of
         Inl code \<Rightarrow> State_Monad.return (Some (code, None))
       | Inr pending \<Rightarrow> do { r \<leftarrow> runTurns E (runSyncer cfg state) (g_interval cfg) (pl_turns P)
                      (startLoop (g_interval cfg) (state \<noteq> None)
                         (if g_command cfg = [] then None else Some (pl_started P)) pending);
               (case r of
                  (None, _) \<Rightarrow> State_Monad.return None
                | (Some leave, l) \<Rightarrow> do {
                    code \<leftarrow> leaveLoop E state leave l;
                    State_Monad.return (Some (code, Some l)) }) }) (\<lambda>r _. honest r)) w"
    by (rule wp_mono [OF start])
      (auto simp: wp_return intro: loop_honest [OF startLoop_delivery] split: sum.split)
  then show ?thesis
    unfolding runWatching_def by (cases "newWatcher K (fs_evalSymlinks F) (g_source cfg)") (simp_all only: sum.case wp_bind wp_return honest_simps one_neq_zero not_False_eq_True)
qed

text \<open>With a state, \<open>Close\<close> has also succeeded.\<close>

lemma closeState_result: "wp (closeState E s) (\<lambda>e t. s_closed t = Some e) w"
proof (cases "s_closed w = None \<and> \<not> cf_persistent s")
  case True
  then show ?thesis by (simp add: closeState_def wp_simps) (rule wp_all, simp add: wp_modify)
qed (auto simp: closeState_def wp_simps split: option.split)

lemma withClose_honest:
  assumes "\<And>w. wp body (\<lambda>r _. honest r) w"
  shows "wp (withClose E s body) (\<lambda>r t. \<forall>l'. r = Some (0, l') \<longrightarrow> allDelivered l' \<and> s_closed t = Some None) w"
proof -
  have "wp (case r of
        None \<Rightarrow> State_Monad.return None
      | Some (code, l) \<Rightarrow> do {
          e \<leftarrow> closeState E s;
          State_Monad.return (Some (if e \<noteq> None then 1 else code, l)) })
     (\<lambda>r t. \<forall>l'. r = Some (0, l') \<longrightarrow> allDelivered l' \<and> s_closed t = Some None) v" if "honest r" for r v
    using that
    by (auto simp: wp_bind wp_return honest_def intro!: wp_mono [OF closeState_result] split: option.split if_splits)
  then show ?thesis
    unfolding withClose_def wp_bind by (intro wp_mono [OF assms]) simp
qed

definition zeroMeans :: "config \<Rightarrow> (int \<times> loop option) option \<Rightarrow> 'r session \<Rightarrow> bool" where
  "zeroMeans cfg r t = (\<forall>l'. r = Some (0, l') \<longrightarrow> allDelivered l' \<and> (\<not> g_uploadOnly cfg \<longrightarrow> s_closed t = Some None))"

lemma zeroMeans_simps [simp]:
  "zeroMeans cfg None t" "code \<noteq> 0 \<Longrightarrow> zeroMeans cfg (Some (code, l')) t" "zeroMeans cfg (Some (signalExitCode sig, l')) t"
  by (simp_all add: zeroMeans_def signalExitCode_def)

lemma run_honest: "wp (run fuel E K F getenv cfg P) (zeroMeans cfg) w"
proof (cases "g_uploadOnly cfg")
  case True
  then show ?thesis
    by (auto simp: run_def honest_def zeroMeans_def intro: wp_mono [OF runWatching_honest])
next
  case False
  have acquired: "wp (case a of
           None \<Rightarrow> State_Monad.return None
         | Some (Some err) \<Rightarrow>
             State_Monad.return (Some (case asInterrupted err of Some sig \<Rightarrow> signalExitCode sig | None \<Rightarrow> 1, None))
         | Some None \<Rightarrow> withClose E s (runWatching E K F cfg (Some s) P)) (zeroMeans cfg) v" for a s v
    by (auto simp: wp_return intro!: wp_mono [OF withClose_honest [OF runWatching_honest]] split: option.split)
      (simp add: zeroMeans_def)
  have initialized: "wp (case i of Inl err \<Rightarrow> State_Monad.return (Some (1, None)) | Inr s0 \<Rightarrow> do {
        let s = runState cfg s0;
        a \<leftarrow> acquire fuel E s;
        (case a of
           None \<Rightarrow> State_Monad.return None
         | Some (Some err) \<Rightarrow>
             State_Monad.return (Some (case asInterrupted err of Some sig \<Rightarrow> signalExitCode sig | None \<Rightarrow> 1, None))
         | Some None \<Rightarrow> withClose E s (runWatching E K F cfg (Some s) P)) }) (zeroMeans cfg) v" for i v
    unfolding Let_def wp_bind by (cases i) (simp_all add: wp_return wp_bind, intro wp_all acquired)
  have configured: "wp (case c of Inl err \<Rightarrow> State_Monad.return (Some (1, None)) | Inr consistentWrites \<Rightarrow> do {
        i \<leftarrow> newSyncState E (g_syncPaths cfg) (g_source cfg) (g_dest cfg) (g_lockTimeout cfg) (g_lockWait cfg)
               consistentWrites (g_failOnIncomplete cfg) (g_logs cfg) (g_persistentLock cfg);
        (case i of Inl err \<Rightarrow> State_Monad.return (Some (1, None)) | Inr s0 \<Rightarrow> do {
        let s = runState cfg s0;
        a \<leftarrow> acquire fuel E s;
        (case a of
           None \<Rightarrow> State_Monad.return None
         | Some (Some err) \<Rightarrow>
             State_Monad.return (Some (case asInterrupted err of Some sig \<Rightarrow> signalExitCode sig | None \<Rightarrow> 1, None))
         | Some None \<Rightarrow> withClose E s (runWatching E K F cfg (Some s) P)) }) }) (zeroMeans cfg) v" for c v
    by (cases c) (simp only: sum.case wp_return zeroMeans_simps one_neq_zero not_False_eq_True,
      simp only: sum.case wp_bind [of "newSyncState _ _ _ _ _ _ _ _ _ _"], intro wp_all initialized)
  show ?thesis
    using False unfolding run_def by (simp only: if_False wp_bind [of "useConsistentWrites _ _ _ _"]) (intro wp_all configured)
qed

end
