(* ===== verification/RunExample.thy ===== *)
theory RunExample
  imports RunSafety Store
begin

text \<open>
  A run of the whole program on concrete surroundings: upload only, one change of the whole
  tree, and a signal, after which the final attempt uploads it.
\<close>

definition sampleKernel :: kernel where
  "sampleKernel = \<lparr>k_walk = (\<lambda>n p. [\<lparr>e_path = p, e_err = None, e_isDir = True\<rparr>]),
     k_addWatch = (\<lambda>fd n p m. Inr (int n)), k_init = (\<lambda>n. Inr 3)\<rparr>"

definition sampleFiles :: fsys where
  "sampleFiles = \<lparr>fs_getwd = Inr ''/'', fs_stat = (\<lambda>p. Inr True), fs_evalSymlinks = Inr\<rparr>"

definition samplePlan :: "store plan" where
  "samplePlan = \<lparr>pl_startup = [], pl_cancelAt = 0, pl_lockErr = None, pl_started = None,
     pl_turns = map Input [Change \<lparr>ch_path = dot, ch_isDir = True, ch_removed = False\<rparr>, Signal 2, EventsClosed, ErrorsClosed,
       SyncResult None]\<rparr>"

definition uploadConfig :: config where
  "uploadConfig = defaultConfig\<lparr>g_uploadOnly := True, g_source := ''/src'', g_dest := ''r:d''\<rparr>"

lemma sampleWatcher: "\<exists>w. newWatcher sampleKernel (fs_evalSymlinks sampleFiles) (g_source uploadConfig) = Inr w"
  by (simp add: newWatcher_def sampleKernel_def sampleFiles_def rebuild_def addTree_def nextCall_def visit_def addPath_def
    uploadConfig_def restore_def State_Monad.bind_def State_Monad.get_def State_Monad.return_def modify_def)

lemma sampleSession_simps: "\<not> w_cancelled (sampleSession s)" "w_watchdog (sampleSession s) = None"
  by (simp_all add: sampleSession_def)

lemma sampleSync: "fst (run_state (syncWith sampleEnv (runSyncer uploadConfig None) (State_Monad.return ()) (State_Monad.return ())
    [(dot, \<lparr>ch_path = dot, ch_isDir = True, ch_removed = False\<rparr>)]) w) = None"
  if "\<not> w_cancelled w" "w_watchdog w = None"
  using that
  by (simp add: syncWith_def runSyncer_def changedPaths_def isMetadata_def reconciliationScopes_def transferScopes_def fullSync_def tracked_def
    syncerRun_def uploadConfig_def defaultConfig_def runCaptured_def rcloneRun_def tick_def fireWatchdog_def sampleEnv_def payloadSyncArgs_def
    Store.success_def wrapWith_def State_Monad.bind_def State_Monad.get_def State_Monad.return_def modify_def)

lemma sampleExit: "\<exists>l t. run_state (run 5 sampleEnv sampleKernel sampleFiles (\<lambda>n. None)
   uploadConfig samplePlan) (sampleSession emptyStore) = (Some (0, Some l), t) \<and> Received dot \<in> set (l_log l)"
proof -
  let ?item = "\<lparr>ch_path = dot, ch_isDir = True, ch_removed = False\<rparr>"
  obtain t where t: "run_state (syncWith sampleEnv (runSyncer uploadConfig None) (State_Monad.return ()) (State_Monad.return ()) [(dot, ?item)]) (sampleSession emptyStore) = (None, t)"
    using sampleSync [of "sampleSession emptyStore"] by (metis prod.collapse sampleSession_simps)
  obtain w where "newWatcher sampleKernel (fs_evalSymlinks sampleFiles) (g_source uploadConfig) = Inr w" using sampleWatcher by blast
  then show ?thesis
    using t
    by (simp add: run_def uploadConfig_def [THEN arg_cong, of g_uploadOnly] runWatching_def startWatching_def samplePlan_def
      uploadConfig_def [THEN arg_cong, of g_command] uploadConfig_def [THEN arg_cong, of g_interval] defaultConfig_def
      startLoop_def logged_def atTop_def quiescent_def takeInput_def onChange_def onSignal_def Let_def isMetadata_def queueChange_def addPending_def
      startSync_def runSyncer_def onResult_def leaveLoop_def
      State_Monad.bind_def State_Monad.get_def State_Monad.return_def)
qed

end
