(* ===== verification/Terminal.thy ===== *)
theory Terminal
  imports MainLoop
begin

text \<open>
  src/terminal_linux.go: job control for a wrapped command that runs as the foreground process
  group of the terminal. The kernel and the other processes on the terminal are the parameter
  \<open>job\<close>: what each \<open>wait4\<close> reports, which calls fail, how the shell moves the foreground
  group between two calls, and whether a stopped job is ever continued. The state is the
  foreground group, whether SIGTTOU is ignored, and the calls made, newest first; a change of
  the foreground group from the background without ignoring SIGTTOU stops the program.
\<close>

unbundle bit_operations_syntax

section \<open>Wait statuses\<close>

text \<open>\<open>syscall.WaitStatus\<close> of Linux.\<close>

type_synonym waitStatus = "32 word"

definition wsExited :: "waitStatus \<Rightarrow> bool" where "wsExited w = (w AND 0x7F = 0)"
definition wsSignaled :: "waitStatus \<Rightarrow> bool" where "wsSignaled w = (w AND 0x7F \<noteq> 0x7F \<and> w AND 0x7F \<noteq> 0)"
definition wsStopped :: "waitStatus \<Rightarrow> bool" where "wsStopped w = (w AND 0xFF = 0x7F)"

definition wsExitStatus :: "waitStatus \<Rightarrow> int" where
  "wsExitStatus w = (if wsExited w then uint (drop_bit 8 w AND 0xFF) else - 1)"

definition wsSignal :: "waitStatus \<Rightarrow> int" where
  "wsSignal w = (if wsSignaled w then uint (w AND 0x7F) else - 1)"

definition waitStatusExitCode :: "waitStatus \<Rightarrow> int" where
  "waitStatusExitCode w = (if wsExited w then wsExitStatus w else if wsSignaled w then 128 + wsSignal w else 1)"

text \<open>What \<open>os/exec\<close> returns from \<open>Wait\<close> for the same status.\<close>

definition waitError :: "waitStatus \<Rightarrow> goerr option" where
  "waitError w = (if wsExited w \<and> wsExitStatus w = 0 then None
     else Some (ExitError (wsExitStatus w) (if wsSignaled w then Some (nat (wsSignal w)) else None)))"

section \<open>The terminal\<close>

definition SIGCONT :: signal where "SIGCONT = 18"
definition SIGTSTP :: signal where "SIGTSTP = 20"

datatype errno = EINTR | Errno

datatype call =
    SetForeground int
  | Kill int signal
  | Continued

record job =
  j_status :: "nat \<Rightarrow> errno + waitStatus"
  j_fails :: "nat \<Rightarrow> bool"
  j_moves :: "nat \<Rightarrow> int option"
  j_continued :: "nat \<Rightarrow> bool"
  j_tstpIgnored :: bool
  j_own :: int

record tty =
  t_foreground :: int
  t_ttouIgnored :: bool
  t_stuck :: bool
  t_calls :: nat
  t_waits :: nat
  t_log :: "call list"

record terminal =
  tm_fd :: int
  tm_pgrp :: int

text \<open>The next call on the terminal: its index, after which another process may have moved the group.\<close>

definition touch :: "job \<Rightarrow> (tty, nat) state" where
  "touch J = State (\<lambda>t. (t_calls t, t\<lparr>t_calls := Suc (t_calls t),
     t_foreground := (case j_moves J (t_calls t) of None \<Rightarrow> t_foreground t | Some g \<Rightarrow> g)\<rparr>))"

definition int32 :: "int \<Rightarrow> int" where
  "int32 x = sint (of_int x :: 32 word)"

definition tcgetpgrp :: "job \<Rightarrow> (tty, errno + int) state" where
  "tcgetpgrp J = do {
     n \<leftarrow> touch J;
     if j_fails J n then State_Monad.return (Inl Errno) else gets (\<lambda>t. Inr (int32 (t_foreground t))) }"

definition tcsetpgrp :: "job \<Rightarrow> int \<Rightarrow> (tty, errno option) state" where
  "tcsetpgrp J pgrp = do {
     n \<leftarrow> touch J;
     let v = int32 pgrp;
     foreground \<leftarrow> gets t_foreground;
     ignored \<leftarrow> gets t_ttouIgnored;
     if foreground \<noteq> j_own J \<and> \<not> ignored then do {
       modify (\<lambda>t. t\<lparr>t_stuck := True\<rparr>);
       State_Monad.return (Some EINTR) }
     else if j_fails J n then State_Monad.return (Some Errno)
     else do {
       modify (\<lambda>t. t\<lparr>t_foreground := v, t_log := SetForeground v # t_log t\<rparr>);
       State_Monad.return None } }"

definition osKill :: "job \<Rightarrow> int \<Rightarrow> signal \<Rightarrow> (tty, errno option) state" where
  "osKill J target sig = do {
     n \<leftarrow> touch J;
     if j_fails J n then State_Monad.return (Some Errno)
     else do {
       modify (\<lambda>t. t\<lparr>t_log := Kill target sig # t_log t\<rparr>);
       State_Monad.return None } }"

definition foregroundTerminal :: "job \<Rightarrow> int \<Rightarrow> (tty, terminal option) state" where
  "foregroundTerminal J fd = do {
     r \<leftarrow> tcgetpgrp J;
     State_Monad.return (case r of
         Inl err \<Rightarrow> None
       | Inr foreground \<Rightarrow> if foreground \<noteq> j_own J then None else Some \<lparr>tm_fd = fd, tm_pgrp = j_own J\<rparr>) }"

text \<open>The attributes the wrapped command is started with, and their effect on the terminal.\<close>

record sysProcAttr =
  Setpgid :: bool
  Foreground :: bool
  Ctty :: int

definition configure :: "terminal \<Rightarrow> sysProcAttr" where
  "configure t = \<lparr>Setpgid = True, Foreground = True, Ctty = tm_fd t\<rparr>"

definition startProcess :: "sysProcAttr \<Rightarrow> int \<Rightarrow> (tty, unit) state" where
  "startProcess attr pid = modify (\<lambda>t. if Foreground attr then t\<lparr>t_foreground := pid\<rparr> else t)"

definition startedForeground :: "(tty, unit) state" where
  "startedForeground = modify (\<lambda>t. t\<lparr>t_ttouIgnored := True\<rparr>)"

definition reclaim :: "job \<Rightarrow> terminal \<Rightarrow> int \<Rightarrow> (tty, unit) state" where
  "reclaim J t pid = do {
     r \<leftarrow> tcgetpgrp J;
     (case r of
        Inl err \<Rightarrow> State_Monad.return ()
      | Inr foreground \<Rightarrow> if foreground = pid then do { tcsetpgrp J (tm_pgrp t); State_Monad.return () }
                         else State_Monad.return ()) }"

text \<open>Stops the program's own job; the result is whether it runs on.\<close>

definition suspend :: "job \<Rightarrow> (tty, bool) state" where
  "suspend J =
     (if j_tstpIgnored J then State_Monad.return True
      else do {
        e \<leftarrow> osKill J 0 SIGTSTP;
        (case e of
           Some err \<Rightarrow> State_Monad.return True
         | None \<Rightarrow> do {
             n \<leftarrow> touch J;
             if j_continued J n then do {
               modify (\<lambda>t. t\<lparr>t_log := Continued # t_log t\<rparr>);
               State_Monad.return True }
             else State_Monad.return False }) })"

definition wait4 :: "job \<Rightarrow> (tty, errno + waitStatus) state" where
  "wait4 J = do {
     n \<leftarrow> gets t_waits;
     modify (\<lambda>t. t\<lparr>t_waits := Suc n\<rparr>);
     State_Monad.return (j_status J n) }"

text \<open>Hands the terminal back to the command, if the job was resumed in the foreground, and continues it.\<close>

definition resume :: "job \<Rightarrow> terminal \<Rightarrow> int \<Rightarrow> (tty, unit) state" where
  "resume J t pid = do {
     r \<leftarrow> tcgetpgrp J;
     (case r of
        Inl err \<Rightarrow> State_Monad.return ()
      | Inr foreground \<Rightarrow> if foreground = tm_pgrp t then do { tcsetpgrp J pid; State_Monad.return () }
                         else State_Monad.return ());
     osKill J (- pid) SIGCONT;
     State_Monad.return () }"

definition waitRound :: "job \<Rightarrow> terminal \<Rightarrow> int \<Rightarrow> unit \<Rightarrow> (tty, (unit + int) option) state" where
  "waitRound J t pid u = do {
     r \<leftarrow> wait4 J;
     (case r of
        Inl err \<Rightarrow> if err = EINTR then State_Monad.return (Some (Inl ()))
                   else do { reclaim J t pid; State_Monad.return (Some (Inr 1)) }
      | Inr status \<Rightarrow>
          if \<not> wsStopped status then do {
            reclaim J t pid;
            State_Monad.return (Some (Inr (waitStatusExitCode status))) }
          else do {
            reclaim J t pid;
            go \<leftarrow> suspend J;
            if go then do { resume J t pid; State_Monad.return (Some (Inl ())) }
            else State_Monad.return None }) }"

text \<open>\<open>wait\<close>: \<open>None\<close> when the job is never continued, or out of fuel.\<close>

definition terminalWait :: "nat \<Rightarrow> job \<Rightarrow> terminal \<Rightarrow> int \<Rightarrow> (tty, int option) state" where
  "terminalWait fuel J t pid = iter fuel (waitRound J t pid) ()"

text \<open>
  The start of the wrapped command in \<open>run\<close> of src/main.go, as far as the terminal goes, and
  the goroutine that waits for it.
\<close>

definition runWrapped :: "nat \<Rightarrow> job \<Rightarrow> int \<Rightarrow> int \<Rightarrow> goerr option \<Rightarrow> (tty, int option) state" where
  "runWrapped fuel J fd pid waited = do {
     tty \<leftarrow> foregroundTerminal J fd;
     (case tty of
        Some t \<Rightarrow> do {
          startProcess (configure t) pid;
          startedForeground;
          terminalWait fuel J t pid }
      | None \<Rightarrow> do {
          startProcess \<lparr>Setpgid = True, Foreground = False, Ctty = 0\<rparr> pid;
          State_Monad.return (Some (commandExitCode waited)) }) }"

section \<open>Exit codes\<close>

lemma uint_low:
  "uint (w AND 0x7F :: waitStatus) = uint w mod 128" "uint (w AND 0xFF :: waitStatus) = uint w mod 256"
  using take_bit_eq_mask [of 7 "uint w"] take_bit_eq_mask [of 8 "uint w"]
  by (simp_all add: uint_and mask_eq_exp_minus_1 take_bit_eq_mod)

lemma wsSignal_range: "wsSignaled w \<Longrightarrow> 0 < wsSignal w \<and> wsSignal w < 127"
proof -
  assume s: "wsSignaled w"
  then have "uint (w AND 0x7F) \<noteq> 127" "uint (w AND 0x7F) \<noteq> 0" by (auto simp: wsSignaled_def word_uint_eq_iff)
  then show ?thesis
    using s by (simp add: wsSignal_def uint_low) presburger
qed

lemma wsExitStatus_range: "wsExited w \<Longrightarrow> 0 \<le> wsExitStatus w \<and> wsExitStatus w < 256"
  by (simp add: wsExitStatus_def uint_low)

lemma waitStatusExitCode_range: "0 \<le> waitStatusExitCode w \<and> waitStatusExitCode w < 256"
  using wsSignal_range [of w] wsExitStatus_range [of w] by (auto simp: waitStatusExitCode_def)

lemma commandExitCode_waitError: "commandExitCode (waitError w) = waitStatusExitCode w"
proof -
  have sep: "wsSignaled w \<Longrightarrow> \<not> wsExited w" by (simp add: wsSignaled_def wsExited_def)
  consider (exited) "wsExited w" | (signaled) "wsSignaled w" | (neither) "\<not> wsExited w" "\<not> wsSignaled w" by blast
  then show ?thesis
  proof cases
    case exited
    then show ?thesis
      using wsExitStatus_range [of w] by (simp add: commandExitCode_def waitError_def waitStatusExitCode_def)
  next
    case signaled
    then show ?thesis
      using wsSignal_range [of w] sep
      by (simp add: commandExitCode_def waitError_def waitStatusExitCode_def wsExitStatus_def)
  qed (simp add: commandExitCode_def waitError_def waitStatusExitCode_def wsExitStatus_def)
qed

section \<open>Waiting\<close>

lemma int32_id: "- (2 ^ 31) \<le> x \<Longrightarrow> x < 2 ^ 31 \<Longrightarrow> int32 x = x"
  by (simp add: int32_def signed_of_int signed_take_bit_int_eq_self)

text \<open>The kernel's process groups, the program's and the command's, and calls that do not fail.\<close>

definition jobOk :: "job \<Rightarrow> terminal \<Rightarrow> int \<Rightarrow> bool" where
  "jobOk J t pid = (0 < pid \<and> pid < 2 ^ 31 \<and> 0 < j_own J \<and> j_own J < 2 ^ 31 \<and> pid \<noteq> j_own J \<and> tm_pgrp t = j_own J \<and>
     (\<forall>n. \<not> j_fails J n) \<and> (\<forall>n. j_continued J n))"

definition conts :: "int \<Rightarrow> tty \<Rightarrow> nat" where
  "conts pid s = length (filter (\<lambda>c. c = Kill (- pid) SIGCONT) (t_log s))"

lemma conts_update [simp]:
  "conts pid (s\<lparr>t_calls := c\<rparr>) = conts pid s" "conts pid (s\<lparr>t_foreground := g\<rparr>) = conts pid s"
  "conts pid (s\<lparr>t_ttouIgnored := b\<rparr>) = conts pid s" "conts pid (s\<lparr>t_waits := k\<rparr>) = conts pid s"
  by (simp_all add: conts_def)

definition onTty :: "nat \<Rightarrow> int \<Rightarrow> tty \<Rightarrow> tty \<Rightarrow> bool" where
  "onTty k pid s u = (t_waits u = t_waits s \<and> conts pid u = conts pid s + k \<and>
     (t_ttouIgnored s \<longrightarrow> t_ttouIgnored u \<and> t_stuck u = t_stuck s))"

lemma reclaim_wp:
  assumes "jobOk J t pid" "t_ttouIgnored s"
  shows "wp (reclaim J t pid) (\<lambda>_ u. onTty 0 pid s u \<and> t_foreground u \<noteq> pid) s"
  using assms int32_id [of pid] int32_id [of "j_own J"]
  by (auto simp: reclaim_def tcgetpgrp_def tcsetpgrp_def touch_def wp_simps jobOk_def onTty_def conts_def Let_def)

lemma suspend_wp:
  assumes "jobOk J t pid"
  shows "wp (suspend J) (\<lambda>go u. go \<and> onTty 0 pid s u) s"
  using assms
  by (auto simp: suspend_def osKill_def touch_def wp_simps jobOk_def onTty_def conts_def)

lemma resume_wp:
  assumes "jobOk J t pid" "t_ttouIgnored s"
  shows "wp (resume J t pid) (\<lambda>_ u. onTty 1 pid s u) s"
  using assms
  by (auto simp: resume_def tcgetpgrp_def tcsetpgrp_def osKill_def touch_def wp_simps jobOk_def onTty_def conts_def Let_def)

text \<open>The statuses that end the wait, and the stops among the first reports.\<close>

definition stopAt :: "job \<Rightarrow> nat \<Rightarrow> bool" where
  "stopAt J i = (case j_status J i of Inl _ \<Rightarrow> False | Inr st \<Rightarrow> wsStopped st)"

definition passing :: "job \<Rightarrow> nat \<Rightarrow> bool" where
  "passing J i = (j_status J i = Inl EINTR \<or> stopAt J i)"

definition endCode :: "job \<Rightarrow> nat \<Rightarrow> int" where
  "endCode J m = (case j_status J m of Inl _ \<Rightarrow> 1 | Inr st \<Rightarrow> waitStatusExitCode st)"

definition stops :: "job \<Rightarrow> nat \<Rightarrow> nat" where
  "stops J m = length (filter (stopAt J) [0..<m])"

lemma stops_Suc: "stops J (Suc i) = stops J i + (if stopAt J i then 1 else 0)"
  by (simp add: stops_def)

lemma waitRound_ends:
  assumes ok: "jobOk J t pid" and "t_ttouIgnored s" "\<not> passing J (t_waits s)"
  shows "wp (waitRound J t pid u) (\<lambda>r v. r = Some (Inr (endCode J (t_waits s))) \<and> t_foreground v \<noteq> pid \<and>
    t_waits v = Suc (t_waits s) \<and> conts pid v = conts pid s \<and> t_stuck v = t_stuck s) s"
proof -
  let ?s = "s\<lparr>t_waits := Suc (t_waits s)\<rparr>"
  have "t_ttouIgnored ?s" using assms(2) by simp
  note mono = wp_mono [OF reclaim_wp [OF ok this]]
  have again: "onTty 0 pid ?s u \<Longrightarrow> t_waits u = Suc (t_waits s) \<and> conts pid u = conts pid s \<and> t_stuck u = t_stuck s" for u
    using assms(2) by (simp add: onTty_def conts_def)
  show ?thesis
    using assms(3) again
    by (auto simp: waitRound_def wait4_def wp_simps passing_def stopAt_def endCode_def intro!: mono split: sum.splits)
qed

lemma waitRound_goes_on:
  assumes ok: "jobOk J t pid" and s: "t_ttouIgnored s" "passing J (t_waits s)"
  shows "wp (waitRound J t pid u) (\<lambda>r v. r = Some (Inl ()) \<and> t_ttouIgnored v \<and> t_stuck v = t_stuck s \<and>
    t_waits v = Suc (t_waits s) \<and> conts pid v = conts pid s + (if stopAt J (t_waits s) then 1 else 0)) s"
proof (cases "j_status J (t_waits s)")
  case (Inl err)
  then show ?thesis
    using s by (simp add: waitRound_def wait4_def wp_simps passing_def stopAt_def conts_def)
next
  case (Inr status)
  let ?s = "s\<lparr>t_waits := Suc (t_waits s)\<rparr>"
  have stop: "wsStopped status" "stopAt J (t_waits s)" using s(2) Inr by (auto simp: passing_def stopAt_def)
  have trans: "onTty (j + k) pid ?s v" if "onTty j pid ?s u" "onTty k pid u v" for j k u v
    using that by (simp add: onTty_def)
  have resumed: "wp (resume J t pid) (\<lambda>_. onTty 1 pid ?s) v" if "onTty 0 pid ?s v" for v
    by (rule wp_mono [OF resume_wp [OF ok]]) (use that s trans [of 0 v 1] in \<open>auto simp: onTty_def\<close>)
  have suspended: "wp (suspend J) (\<lambda>go u. go \<and> onTty 0 pid ?s u) v" if "onTty 0 pid ?s v" for v
    by (rule wp_mono [OF suspend_wp [OF ok]]) (use that trans [of 0 v 0] in auto)
  have "wp (reclaim J t pid) (\<lambda>_. wp (suspend J) (\<lambda>go. wp (if go then do { resume J t pid; State_Monad.return (Some (Inl ())) }
      else State_Monad.return None) (\<lambda>r v. r = Some (Inl ()) \<and> onTty 1 pid ?s v))) ?s"
    by (rule wp_mono [OF reclaim_wp [OF ok]])
      (use s in \<open>auto simp: wp_simps intro!: wp_mono [OF suspended] wp_mono [OF resumed]\<close>)
  then show ?thesis
    using Inr stop s(1)
    by (auto simp: waitRound_def wait4_def wp_simps onTty_def conts_def elim!: wp_mono)
qed

text \<open>
  Whatever was reported before, the first report that ends the wait gives its code; by then
  the command was continued once for every stop and does not hold the terminal.
\<close>

lemma terminalWait_wp:
  assumes ok: "jobOk J t pid" and s: "t_ttouIgnored s" "\<not> t_stuck s" "t_waits s = 0" "conts pid s = 0"
    and m: "\<forall>i < m. passing J i" "\<not> passing J m" "m < n"
  shows "wp (terminalWait n J t pid) (\<lambda>r v. r = Some (endCode J m) \<and> t_foreground v \<noteq> pid \<and> \<not> t_stuck v \<and>
    conts pid v = stops J m) s"
proof -
  let ?Inv = "\<lambda>_ v. t_ttouIgnored v \<and> \<not> t_stuck v \<and> t_waits v \<le> m \<and> conts pid v = stops J (t_waits v)"
  have round: "wp (waitRound J t pid u) (\<lambda>r q. case r of None \<Rightarrow> False
      | Some (Inl y) \<Rightarrow> ?Inv y q \<and> m - t_waits q < m - t_waits v
      | Some (Inr c) \<Rightarrow> c = endCode J m \<and> t_foreground q \<noteq> pid \<and> \<not> t_stuck q \<and> conts pid q = stops J m) v"
    if v: "?Inv u v" for u v
  proof (cases "t_waits v = m")
    case True
    then show ?thesis
      using v m(2) by (intro wp_mono [OF waitRound_ends [OF ok]]) auto
  next
    case False
    then show ?thesis
      using v m(1) by (intro wp_mono [OF waitRound_goes_on [OF ok]]) (auto simp: stops_Suc)
  qed
  have "?Inv () s" using s by (simp add: stops_def)
  from iter_terminates [of ?Inv "()" s "\<lambda>_ v. m - t_waits v", OF this _ round]
  have "wp (iter n (waitRound J t pid) ()) (\<lambda>r v. \<exists>c. r = Some c \<and> c = endCode J m \<and> t_foreground v \<noteq> pid \<and> \<not> t_stuck v \<and>
      conts pid v = stops J m) s"
    using s(3) m(3) by simp
  then show ?thesis unfolding terminalWait_def by (rule wp_mono) auto
qed

text \<open>The exit code is the same whether or not the program holds the terminal when it starts the command.\<close>

lemma runWrapped_wp:
  assumes ok: "jobOk J \<lparr>tm_fd = fd, tm_pgrp = j_own J\<rparr> pid"
    and s: "\<not> t_stuck s" "t_waits s = 0" "conts pid s = 0"
    and m: "\<forall>i < m. passing J i" "j_status J m = Inr st" "\<not> wsStopped st" "m < n"
  shows "wp (runWrapped n J fd pid (waitError st)) (\<lambda>r v. r = Some (waitStatusExitCode st) \<and> \<not> t_stuck v \<and>
    (t_ttouIgnored v \<and> \<not> t_ttouIgnored s \<longrightarrow> t_foreground v \<noteq> pid \<and> conts pid v = stops J m)) s"
proof -
  have code: "\<not> passing J m" "endCode J m = waitStatusExitCode st" using m(2,3) by (simp_all add: passing_def stopAt_def endCode_def)
  have waited: "wp (terminalWait n J \<lparr>tm_fd = fd, tm_pgrp = j_own J\<rparr> pid) (\<lambda>r v. r = Some (waitStatusExitCode st) \<and> \<not> t_stuck v \<and>
      (t_ttouIgnored v \<and> \<not> t_ttouIgnored s \<longrightarrow> t_foreground v \<noteq> pid \<and> conts pid v = stops J m)) u"
    if "t_ttouIgnored u" "\<not> t_stuck u" "t_waits u = 0" "conts pid u = 0" for u
    by (rule wp_mono [OF terminalWait_wp [OF ok that m(1) code(1) m(4)]]) (simp add: code)
  show ?thesis
    using s ok
    by (auto simp: runWrapped_def foregroundTerminal_def tcgetpgrp_def touch_def startProcess_def startedForeground_def configure_def
        wp_simps commandExitCode_waitError jobOk_def intro!: waited)
qed

section \<open>An example\<close>

text \<open>The command is stopped once, a wait is interrupted, and the command exits with 3.\<close>

definition sampleJob :: job where
  "sampleJob = \<lparr>j_status = (\<lambda>i. if i = 0 then Inr 0x137F else if i = 1 then Inl EINTR else Inr 0x300),
     j_fails = (\<lambda>n. False), j_moves = (\<lambda>n. None), j_continued = (\<lambda>n. True), j_tstpIgnored = False, j_own = 50\<rparr>"

definition sampleTty :: tty where
  "sampleTty = \<lparr>t_foreground = 50, t_ttouIgnored = False, t_stuck = False, t_calls = 0, t_waits = 0, t_log = []\<rparr>"

end
