(* ===== verification/Spec2Isabelle.thy ===== *)
theory Spec2Isabelle
  imports Prelude Utf8 GoStrings GoTime Json Errors StateFile GoPath SyncPath World LocalState Filters
    GoDuration Options Scopes SyncState RemotePayload Lifecycle Acquire AcquireSafety OwnerText Startup StartupSafety Store
    Syncer SyncerSafety Config HelpText Backend Watcher WatcherSafety
    MainLoop LoopSafety Run RunSafety RunExample Terminal
begin

text \<open>
  A model of rclonewatch (src/src/*.go): a program that watches a folder and keeps a copy of it
  at an rclone destination, with a state file \<open>.rcw-state\<close> on both sides that carries a lock,
  a generation number and the identity of the last upload. This theory states the properties
  of the whole; the other theories hold the definitions and the lemmas, one component each.

  \<^bold>\<open>The parts and how they interact.\<close>
  \<open>main\<close> parses the command line (\<open>Config\<close>, \<open>Options\<close>, \<open>HelpText\<close>: src/main.go from \<open>parseConfig\<close>
  on, src/options.go, src/help.go), decides whether writes of the state can be conditional
  (\<open>Backend\<close>: src/backend.go), and calls \<open>run\<close> (\<open>Run\<close>). \<open>run\<close> takes the lock (\<open>Acquire\<close>: \<open>Acquire\<close> of
  src/syncstate.go), starts the watcher (\<open>Watcher\<close>: src/watcher_linux.go), brings both sides
  to the same generation while changes are collected (\<open>Startup\<close>: \<open>InitializeRemote\<close> and
  \<open>InitializeGeneration\<close>), starts the wrapped command, if there is one (\<open>Terminal\<close>:
  src/terminal_linux.go), and enters its event loop (\<open>MainLoop\<close>: the \<open>select\<close> of \<open>run\<close>). The loop
  hands batches of changes to \<open>Sync\<close> (\<open>Scopes\<close> and \<open>Syncer\<close>: src/payload.go and the syncer of
  src/main.go), which announces a change of the remote, transfers the scopes of the batch and
  completes the change (\<open>Lifecycle\<close>, \<open>RemotePayload\<close>). All of them reach the remote state
  through \<open>replaceOwnedRemote\<close> (\<open>SyncState\<close>). A second goroutine keeps the lock fresh
  (\<open>refreshLoop\<close> in \<open>Lifecycle\<close>) and reports its loss to the loop. \<open>Close\<close> gives the lock back.

  \<^bold>\<open>State and operations.\<close>
  The fields of \<open>syncState\<close> that never change are the record \<open>syncConfig\<close>; those that do extend
  the \<open>world\<close> (the local disk, the clock, the state of the remote service, the watchdog timer of
  the commands, and the list of executed commands, which only the statements read) to a
  \<open>session\<close>. A method is one definition in the state monad over it, with the names of the
  source; fallible ones return \<open>goerr option\<close> or a sum. \<open>goerr\<close> (\<open>Errors\<close>) keeps the errors the
  code tests for and the format strings of the others. \<open>World\<close> holds the operating system and
  the runner of commands (\<open>rcloneCommand\<close>). What the code cannot decide is the record \<open>env\<close>:
  rclone itself, a function that may change the disk and the remote in any way, so that other
  writers act through it, the passing of time, wall clock, randomness, signals, and which
  system calls fail. The watcher and the terminal have kernels of their own as parameters
  (\<open>kernel\<close>, \<open>job\<close>), the command line a file system (\<open>fsys\<close>). The local variables of \<open>run\<close> are
  the record \<open>loop\<close>; each case of its \<open>select\<close> is a function on it, a channel that is nil a flag
  that is off, and \<open>turn\<close> the step relation of the loop.

  \<^bold>\<open>The library.\<close>
  \<open>Prelude\<close>: the postcondition calculus \<open>wp\<close>, loops with fuel (\<open>iter\<close>) with a rule for what they
  keep and one for their termination, and the locale \<open>effect\<close> of relations between the states
  before and after, which \<open>later\<close>, \<open>framed\<close>, \<open>adds\<close>, \<open>addsAfter\<close>, \<open>guarded\<close>, \<open>ticking\<close> and the watcher's
  \<open>keeping\<close> interpret. \<open>Utf8\<close>, \<open>GoStrings\<close>, \<open>GoTime\<close>, \<open>GoDuration\<close>, \<open>GoPath\<close>, \<open>Json\<close>: what the code uses of
  Go's standard library, on bytes. \<open>StateFile\<close>, \<open>LocalState\<close>, \<open>SyncPath\<close>, \<open>Filters\<close>: the codec of the state
  file (locale \<open>state_codec\<close>, interpreted by the remote and the local format), its atomic
  replacement on the disk, where it lies, and the filters that protect it. \<open>Store\<close> is one
  provider of the remote, an object store with conditional writes, on which the examples run.

  \<^bold>\<open>What the lemmas show.\<close>
  The lock: \<open>replaceOwnedRemote\<close> refines \<open>replaced\<close>, one conditional write after an owned read; a
  foreign lock is taken only when every read of a wait (\<open>watched\<close>), or a read a whole TTL ago
  (\<open>unrefreshed\<close>), showed it as it is now, two readings of the one locale \<open>observation\<close>, and so never before it has
  expired for its holder (\<open>expiredFor\<close>); taking it
  ends with more than the safety window left (\<open>AcquireSafety\<close>). A refresh runs no command from
  the safety window on (\<open>guarded\<close>). The protocol of a change: local record, announcement with the
  next generation, transfer, completion, in this order in the list of commands, with lock renewals in between
  (\<open>SyncerSafety\<close>);
  the startup refines a decision table (\<open>StartupSafety\<close>). The changes: what the watcher reports
  lies inside the folder and its two maps agree (\<open>WatcherSafety\<close>); the scopes of a batch cover it
  and do not overlap; the loop loses no change it has received, retries with delays that
  double, makes at most one final attempt and ends (\<open>LoopSafety\<close>); exit code 0 means that
  everything received was delivered and the lock given back (\<open>RunSafety\<close>). The formats: round
  trips of the state file, of a scope's filter file and of inotify's event buffer.

  \<^bold>\<open>Fuel.\<close>
  Loops of the source that may run for ever take fuel and return \<open>None\<close> without it: the waits of
  \<open>Acquire\<close>, its rounds, the wait for the wrapped command. The verification of a lock and a wait
  with a deadline need no more fuel than the nanoseconds to the deadline, because each round
  that is followed by another one moves the clock; a wait without a deadline and the rounds of
  an acquisition that keeps losing races need not end, and do not in the code. The wait for
  the command needs one round per report of the kernel. The refresh loop, the watcher's reads
  and the inputs of the event loop are schedules, lists of any length. The scanner of JSON
  has fuel that its lemmas show to be enough for the length of the text.

  \<^bold>\<open>Modelled with a choice.\<close>
  Operations that hold \<open>updateMu\<close> are atomic with respect to each other; the rounds of the refresh
  loop are programs a \<open>plan\<close> runs between two turns of the event loop and between the parts of an
  attempt to sync (\<open>syncWith\<close>), which is taken when its result is received. A change set is an association list, its order
  being Go's order of iteration. A temporary file whose random name is taken fails. The
  terminal is a component of its own: the loop sees the command's exit code as an input.

  \<^bold>\<open>Not modelled.\<close>
  Log output and the texts \<open>fmt\<close> makes of errors; the capacity of the channels (sends do not
  block); rclone, the kernel and the destination, which are parameters; the lenient fallback
  of Go's time parser; time zones below a minute; \<open>strings.ToUpper\<close> beyond ASCII names of
  remotes; the build, the tests and the scripts of the repository.

  \<^bold>\<open>Found on the way.\<close>
  \<open>metadata_change_stalls\<close>: a change of the state file while the loop is ready and idle stops
  automatic attempts. \<open>renamed_directory_unwatched\<close>: a directory renamed while the event of its
  parent's creation waits is no longer watched. \<open>OwnerText\<close>: with a lock ID that is not
  well-formed UTF-8 the process does not recognise the lock it has written.
\<close>

section \<open>The remote state and its lock\<close>

text \<open>
  C1. Every run of \<open>replaceOwnedRemote\<close> meets its specification: at most one command writes
  the state file, directly after a read that showed it owned by this process and equal to the
  state expected (or to a write of unknown outcome), of the effective candidate and under the
  entity tag of that read; success leaves the verified candidate as the remembered state with
  the expiry the code computes, and a failure leaves the remembered state and expiry alone.
\<close>

theorem replaceOwnedRemote_refines:
  "wp (replaceOwnedRemote E s previous candidate) (replaced s previous candidate w) w"
  by (rule replaceOwnedRemote_wp)

text \<open>
  C4. The waiting loop of \<open>Acquire\<close> ends without an error only on a state that is free to take:
  it is the state last read, and it has no lock or a lock that every read over at least its
  TTL has shown unchanged.
\<close>

theorem waitForLock_free:
  assumes "waitInv s v w"
  shows "wp (waitForLock n E s d v) (\<lambda>r t. \<forall>u. r = Some (Inr u) \<longrightarrow>
    freeToTake s (w_cmds t) (w_clock t) (wt_remote u)) w"
  by (rule waitForLock_safe [OF assms])

theorem waitForLock_free_witness:
  "waitInv sampleConfig \<lparr>wt_remote = noRemote, wt_observed = [], wt_at = 0\<rparr> (sampleSession emptyStore) \<and>
   wp (waitForLock 3 sampleEnv sampleConfig None \<lparr>wt_remote = noRemote, wt_observed = [], wt_at = 0\<rparr>)
     (\<lambda>r t. \<forall>u. r = Some (Inr u) \<longrightarrow> freeToTake sampleConfig (w_cmds t) (w_clock t) (wt_remote u))
     (sampleSession emptyStore)"
proof -
  have "waitInv sampleConfig \<lparr>wt_remote = noRemote, wt_observed = [], wt_at = 0\<rparr> (sampleSession emptyStore)"
    by (simp add: waitInv_def waitInvOf_def seen_def noRemote_def)
  then show ?thesis using waitForLock_free by blast
qed





text \<open>
  C13. The verification of a lock, and a wait for one that has a deadline, end whatever rclone
  and the other writers do: with a positive poll interval, fuel for the time to the deadline
  gives a result.
\<close>

theorem acquisition_waits_end:
  assumes "0 < cf_pollInterval s" and "nat (d - w_clock w) < n"
  shows "wp (verifyAcquiredLock n E s d) (\<lambda>r t. \<exists>y. r = Some y) w \<and>
    wp (waitForLock n E s (Some d) v) (\<lambda>r t. \<exists>y. r = Some y) w"
  by (intro conjI verifyAcquiredLock_ends waitForLock_ends assms)

theorem acquisition_waits_end_witness:
  "wp (verifyAcquiredLock 201 sampleEnv sampleConfig 200) (\<lambda>r t. \<exists>y. r = Some y) (sampleSession emptyStore) \<and>
   wp (waitForLock 201 sampleEnv sampleConfig (Some 200) \<lparr>wt_remote = noRemote, wt_observed = [], wt_at = 0\<rparr>)
     (\<lambda>r t. \<exists>y. r = Some y) (sampleSession emptyStore)"
  by (rule acquisition_waits_end) (simp_all add: sampleConfig_def sampleSession_def second_def)


text \<open>
  C9. Before announcing a change runs any command, the local file records the next generation
  as incomplete.
\<close>

theorem beforeRemoteChange_records_first:
  assumes "cleanFile (p_local (cf_paths s))"
  shows "wp (beforeRemoteChange E s) (\<lambda>r. recordedFirst s w) w"
  by (rule beforeRemoteChange_local_first [OF assms])

theorem beforeRemoteChange_records_first_witness:
  "cleanFile (p_local (cf_paths sampleConfig)) \<and>
   wp (beforeRemoteChange sampleEnv sampleConfig) (\<lambda>r. recordedFirst sampleConfig (sampleSession emptyStore))
     (sampleSession emptyStore)"
proof -
  have "cleanFile (p_local (cf_paths sampleConfig))" by code_simp
  then show ?thesis using beforeRemoteChange_records_first by blast
qed

text \<open>
  C10. Completing a change keeps the generation and the sync identity, clears the incomplete
  flag and keeps the lock; otherwise it reports an error, and unless only the local file could
  not be written it changes nothing of what the session remembers.
\<close>

theorem afterRemoteChange_completes:
  "wp (afterRemoteChange E s) (\<lambda>r t. completed s (s_remote w) (s_remote t) \<or>
     (r \<noteq> None \<and> s_remote t = s_remote w \<and> s_lockExpiry t = s_lockExpiry w)) w"
  by (rule afterRemoteChange_wp)


definition heldSession :: "store session" where
  "heldSession = (sampleSession emptyStore)\<lparr>s_lockExpiry := Some 100,
     s_remote := \<lparr>rf_data = zeroData\<lparr>Lock := Some \<lparr>Owner = ''me'', Timestamp = sampleTime, TTL = 200\<rparr>\<rparr>,
                  rf_etag = ''1'', rf_exists = True\<rparr>\<rparr>"


text \<open>
  C22. A round of the refresh loop schedules the next one no later than the safety window before
  the expiry, with a delay that is not negative, or it has cancelled the runner.
\<close>

theorem refreshRound_schedules:
  assumes "2 \<le> cf_timeout s" and "0 < cf_pollInterval s"
  shows "wp (refreshRound E s waiting) (nextRefresh s) w"
  by (rule refreshRound_next [OF assms])

theorem refreshRound_schedules_witness:
  "2 \<le> cf_timeout sampleConfig \<and> 0 < cf_pollInterval sampleConfig \<and>
   wp (refreshRound sampleEnv sampleConfig (State_Monad.return ())) (nextRefresh sampleConfig) heldSession"
  using refreshRound_schedules [of sampleConfig sampleEnv "State_Monad.return ()" heldSession]
  by (simp add: sampleConfig_def second_def)

text \<open>
  C21. The first \<open>Close\<close> of an owned session retains a persistent lock without running a
  command, and otherwise releases the lock by a guarded replacement or reports the error.
\<close>

theorem closeState_releases:
  assumes "s_closed w = None" and "ownedBy (s_remote w) (cf_owner s)"
  shows "wp (closeState E s) (closedBy s w) w"
  by (rule closeState_wp [OF assms])

theorem closeState_releases_witness:
  "s_closed heldSession = None \<and> ownedBy (s_remote heldSession) (cf_owner sampleConfig) \<and>
   wp (closeState sampleEnv sampleConfig) (closedBy sampleConfig heldSession) heldSession"
  using closeState_releases [of heldSession sampleConfig sampleEnv]
  by (simp add: heldSession_def sampleSession_def sampleConfig_def ownedBy_def)

section \<open>State files\<close>

text \<open>C19. Decoding the remote form of a valid state returns the state that was encoded.\<close>

theorem encodeSyncFile_roundtrip:
  assumes "validData d"
  shows "\<exists>s. encodeSyncFile d = Inr s \<and> decodeSyncFile s = Inr d"
  using remote_codec.enc_obtains [OF assms] by metis

theorem encodeSyncFile_roundtrip_witness:
  "validData (zeroData\<lparr>RepositoryID := ''abc'', Generation := 7\<rparr>) \<and>
   (\<exists>s. encodeSyncFile (zeroData\<lparr>RepositoryID := ''abc'', Generation := 7\<rparr>) = Inr s \<and>
        decodeSyncFile s = Inr (zeroData\<lparr>RepositoryID := ''abc'', Generation := 7\<rparr>))"
proof -
  have "validData (zeroData\<lparr>RepositoryID := ''abc'', Generation := 7\<rparr>)" by code_simp
  then show ?thesis using encodeSyncFile_roundtrip by blast
qed




section \<open>The synchronisation of changes\<close>

text \<open>
  C2. An attempt to sync runs a transfer only after a successful write of the state file that
  marks the remote as incomplete, and every transfer carries the protection of the state files
  and the user's exclusions. It succeeds only when there was nothing to do or when the
  generation was announced and completed; a failure leaves the old, the announced or the
  completed state. All this holds whatever runs between its parts, as long as it keeps to what
  the rounds of the refresh loop do: renew the lock of the same state, and transfer nothing.
\<close>

theorem sync_announces_first:
  assumes "tracked y = Some s" and "state_io_rel (refreshed s) between" "state_io_rel (refreshed s) during"
  shows "wp (syncWith E y between during batch) (\<lambda>r t. addsAfter (ordered s y) w t \<and> synced s w r t) w"
  by (rule syncWith_wp [OF assms])

definition sampleSyncer :: syncer where
  "sampleSyncer = \<lparr>y_source = ''/src'', y_dest = ''r:d'', y_logs = False, y_state = Some sampleConfig,
     y_trackState = True, y_excludes = []\<rparr>"

theorem sync_announces_first_witness:
  "tracked sampleSyncer = Some sampleConfig \<and> state_io_rel (refreshed sampleConfig) (renewal sampleEnv sampleConfig) \<and>
   wp (syncWith sampleEnv sampleSyncer (renewal sampleEnv sampleConfig) (renewal sampleEnv sampleConfig)
       [(dot, \<lparr>ch_path = dot, ch_isDir = True, ch_removed = False\<rparr>)])
     (\<lambda>r t. addsAfter (ordered sampleConfig sampleSyncer) heldSession t \<and> synced sampleConfig heldSession r t) heldSession"
proof -
  have "tracked sampleSyncer = Some sampleConfig" by (simp add: tracked_def sampleSyncer_def)
  then show ?thesis using sync_announces_first [OF _ renewal_refreshed renewal_refreshed] renewal_refreshed by blast
qed

text \<open>
  C17. The scopes an attempt works on are a function of the current tree and the changed
  paths, whatever the file system answers in between: each path is promoted to the topmost
  ancestor that is missing or no directory. Looking at the tree changes nothing, and a
  path that is not a clean relative one is refused unless the whole tree is synced.
\<close>

theorem reconciliationScopes_refines:
  "wp (reconciliationScopes E y paths) (\<lambda>r t. still w t \<and>
     (case r of Inl err \<Rightarrow> True
      | Inr scopes \<Rightarrow> scopes = scopesOn (w_disk w) y paths \<and> (scopes = [dot] \<or> list_all validChange paths))) w"
  by (rule wp_mono [OF reconciliationScopes_wp]) (auto simp: list_all_iff split: sum.split)

text \<open>
  C18. The scopes of valid paths are different, none lies below another, none is metadata,
  the parent of each is a directory of the tree, and every path that is not metadata after
  its promotion is covered by one of them.
\<close>

theorem scopes_cover:
  assumes "list_all validChange paths" and "dot \<notin> set (map representable paths)"
  shows "goodScopes d y paths (scopesOn d y paths)"
  by (rule scopesOn_good [OF _ _ refl]) (use assms in \<open>force simp: list_all_iff\<close>)+

theorem scopes_cover_witness:
  "list_all validChange [''a/b'', ''a'', ''c''] \<and> dot \<notin> set (map representable [''a/b'', ''a'', ''c'']) \<and>
   goodScopes Map.empty sampleSyncer [''a/b'', ''a'', ''c''] (scopesOn Map.empty sampleSyncer [''a/b'', ''a'', ''c''])"
proof -
  have "list_all validChange [''a/b'', ''a'', ''c'']" "dot \<notin> set (map representable [''a/b'', ''a'', ''c''])" by code_simp+
  then show ?thesis using scopes_cover by blast
qed

text \<open>C36. The order in which Go happens to visit the map of changes does not matter.\<close>

theorem scopes_order_free: "mset paths = mset paths' \<Longrightarrow> scopesOn d y paths = scopesOn d y paths'"
  by (rule scopesOn_perm)

theorem scopes_order_free_witness:
  "mset [''a'', ''b'', ''a/b''] = mset [''a/b'', ''b'', ''a''] \<and>
   scopesOn Map.empty sampleSyncer [''a'', ''b'', ''a/b''] = scopesOn Map.empty sampleSyncer [''a/b'', ''b'', ''a'']"
proof -
  have "mset [''a'', ''b'', ''a/b''] = mset [''a/b'', ''b'', ''a'']" by simp
  then show ?thesis using scopes_order_free by blast
qed

text \<open>
  C35. Rclone reads back from the filter file exactly the lines of the scopes: splitting it
  at line breaks and trimming each line, as rclone does, gives the lines that were meant.
\<close>

theorem scopeFile_roundtrip: "readLines (scopeFile createDirectories scopes) = scopeLines createDirectories scopes @ [[]]"
  by (rule scopeFile_readLines)

text \<open>
  C24. An attempt that fails is as if it had not been started: taking the failed batch back
  into what arrived meanwhile gives the changes that adding everything in order gives.
\<close>

theorem failed_batch_returns:
  "map_of (mergeFailedBatch (foldl addPending [] items) failed) = map_of (foldl addPending failed items)"
  by (rule pending.retry)

section \<open>The main loop\<close>

text \<open>
  C15. Every state of the event loop satisfies the invariant of its flags: an error, a final
  attempt or an abandoned one means that it is stopping; a stopping loop has no timer; the
  timer and the readiness to sync exclude a running attempt; a failed lock has cancelled the
  runner; the timer that is reset exists; and the retry delay stays within its bounds.
\<close>

theorem loop_flags:
  assumes "turns interval state (startLoop interval withState started pending) l"
  shows "loopInv interval l"
  by (rule turns_inv [OF assms startLoop_inv])

theorem loop_flags_witness:
  "turns 5 None (startLoop 5 False None []) (onTimer (startLoop 5 False None [])) \<and>
   loopInv 5 (onTimer (startLoop 5 False None []))"
proof -
  have "turn 5 None (startLoop 5 False None []) (onTimer (startLoop 5 False None []))"
    using turnI [of "startLoop 5 False None []" "startLoop 5 False None []" TimerFired 5 None]
    by (simp add: atTop_def quiescent_def startLoop_def logged_def)
  then have "turns 5 None (startLoop 5 False None []) (onTimer (startLoop 5 False None []))" by blast
  then show ?thesis using loop_flags by blast
qed

text \<open>
  C7. As long as the lock has not failed, every change the loop has received is waiting, in the
  attempt that runs, or delivered: after its last receipt an attempt with its path has started
  and has finished without an error.
\<close>

theorem loop_accounts:
  assumes "turns interval state (startLoop interval withState started pending) l" "l_lockErr l = None"
    and "Received p \<in> set (l_log l)"
  shows "accounted l p"
  using turns_delivery [OF assms(1) startLoop_delivery] assms(2,3) by (simp add: deliveryInv_def)

definition retryingLoop :: loop where
  "retryingLoop = startLoop 5 False None [(''a'', \<lparr>ch_path = ''a'', ch_isDir = False, ch_removed = False\<rparr>)]"

theorem loop_accounts_witness:
  "turns 5 None retryingLoop retryingLoop \<and> l_lockErr retryingLoop = None \<and>
   Received ''a'' \<in> set (l_log retryingLoop) \<and> accounted retryingLoop ''a''"
proof -
  have "l_lockErr retryingLoop = None" "Received ''a'' \<in> set (l_log retryingLoop)"
    by (simp_all add: retryingLoop_def startLoop_def logged_def Let_def)
  moreover have "turns 5 None (startLoop 5 False None [(''a'', \<lparr>ch_path = ''a'', ch_isDir = False, ch_removed = False\<rparr>)]) retryingLoop"
    by (simp add: retryingLoop_def)
  ultimately show ?thesis using loop_accounts by blast
qed



text \<open>
  C14. Once the loop is stopping it starts at most one more attempt, and none when the final
  one was made or given up.
\<close>

theorem one_final_attempt:
  assumes "loopInv interval l" "l_stopping l" "turns interval state l t"
  shows "starts t \<le> starts l + (if l_finalAttempted l then 0 else 1)"
  by (rule stopping_starts [OF assms(3,1,2)])

text \<open>A loop whose command could not be started, so that it is stopping from the beginning.\<close>

definition stoppingLoop :: loop where
  "stoppingLoop = startLoop 5 False (Some (Some NotExist)) [(''a'', \<lparr>ch_path = ''a'', ch_isDir = False, ch_removed = False\<rparr>)]"

theorem one_final_attempt_witness:
  "loopInv 5 stoppingLoop \<and> l_stopping stoppingLoop \<and> turns 5 None stoppingLoop stoppingLoop \<and>
   starts stoppingLoop \<le> starts stoppingLoop + (if l_finalAttempted stoppingLoop then 0 else 1)"
proof -
  have "loopInv 5 stoppingLoop" "l_stopping stoppingLoop" "turns 5 None stoppingLoop stoppingLoop"
    by (simp_all add: stoppingLoop_def startLoop_inv) (simp add: startLoop_def logged_def)
  then show ?thesis using one_final_attempt by blast
qed

text \<open>
  C12. A stopping loop ends: whatever other inputs come first, it is left once the command has
  exited, the watcher's channels are closed and the attempts that may still run have returned.
\<close>

theorem stopping_loop_ends:
  assumes "loopInv interval l" "l_stopping l"
  shows "fst (runLoop interval state (inputs @ closing code e f) l) \<noteq> None"
  using shutdown_ends [OF assms] by (simp add: ends_def)

theorem stopping_loop_ends_witness:
  "loopInv 5 stoppingLoop \<and> l_stopping stoppingLoop \<and>
   fst (runLoop 5 None ([Signal 2] @ closing 0 (Some NotExist) None) stoppingLoop) \<noteq> None"
proof -
  have "loopInv 5 stoppingLoop" "l_stopping stoppingLoop"
    by (simp_all add: stoppingLoop_def startLoop_inv) (simp add: startLoop_def logged_def)
  then show ?thesis using stopping_loop_ends by blast
qed



text \<open>
  C31. While the program watches with an interval and nothing has begun the shutdown, an
  attempt runs, the timer is set or the next change starts one. Every input keeps this, but
  for a change of the metadata while the loop is ready and idle.
\<close>

theorem attempts_stay_armed:
  assumes "loopInv interval l" "interval > 0" "armed l" "selectable l i" "\<not> wasted state i l"
  shows "armed (onInput interval state i l) \<or> l_stopping (onInput interval state i l)"
  using onInput_armed assms by blast

theorem attempts_stay_armed_witness:
  "loopInv 5 retryingLoop \<and> 0 < (5 :: int) \<and> armed retryingLoop \<and> selectable retryingLoop TimerFired \<and>
   \<not> wasted None TimerFired retryingLoop \<and>
   (armed (onInput 5 None TimerFired retryingLoop) \<or> l_stopping (onInput 5 None TimerFired retryingLoop))"
proof -
  have "loopInv 5 retryingLoop" by (simp add: retryingLoop_def startLoop_inv)
  moreover have "armed retryingLoop" "selectable retryingLoop TimerFired" "\<not> wasted None TimerFired retryingLoop"
    by (simp_all add: retryingLoop_def startLoop_def logged_def armed_def wasted_def)
  ultimately show ?thesis using attempts_stay_armed [of 5 retryingLoop TimerFired None] by simp
qed

text \<open>
  C32. The exception: a change of the state file that arrives while the loop is ready and idle
  uses up the readiness. From then on changes are only collected, and no attempt starts for
  them until something begins the shutdown.
\<close>

theorem metadata_change_stalls:
  assumes "loopInv interval l" "\<not> l_stopping l" "l_syncReady l" "l_eventC l" "isMetadata state (ch_path item)"
  shows "case runLoop interval state (map Change (item # items)) l of (r, m) \<Rightarrow>
     r = None \<and> starts m = starts l \<and> \<not> armed m \<and> l_pending m = foldl (queueChange state) [] items"
proof -
  have "l_active l = None" "l_pending l = []" using loopInvD(3) [OF assms(1,3,2)] by auto
  then have w: "wasted state (Change item) l" using assms by (simp add: wasted_def)
  note t = wasted_stalls [OF w assms(1,2)]
  have "l_eventC (onInput interval state (Change item) l)"
    using assms(4) by (simp add: onChange_def startSync_def logged_def Let_def)
  from stalled_changes [of "onInput interval state (Change item) l" interval state items] this t
  show ?thesis using assms(2,4) by (auto simp: atTop_def quiescent_def stalled_def)
qed

theorem metadata_change_stalls_witness:
  "\<exists>l. turns 5 (Some sampleConfig) (startLoop 5 True None []) l \<and>
     loopInv 5 l \<and> \<not> l_stopping l \<and> l_syncReady l \<and> l_eventC l \<and> isMetadata (Some sampleConfig) ''.rcw-state'' \<and>
     (case runLoop 5 (Some sampleConfig) (map Change [\<lparr>ch_path = ''.rcw-state'', ch_isDir = False, ch_removed = False\<rparr>,
           \<lparr>ch_path = ''a'', ch_isDir = False, ch_removed = False\<rparr>]) l of (r, m) \<Rightarrow>
        r = None \<and> starts m = starts l \<and> \<not> armed m \<and> l_pending m =
          foldl (queueChange (Some sampleConfig)) [] [\<lparr>ch_path = ''a'', ch_isDir = False, ch_removed = False\<rparr>])"
proof -
  define l where "l = onTimer (startLoop 5 True None [])"
  have "turn 5 (Some sampleConfig) (startLoop 5 True None []) l"
    using turnI [of "startLoop 5 True None []" "startLoop 5 True None []" TimerFired 5 "Some sampleConfig"]
    by (simp add: l_def atTop_def quiescent_def startLoop_def logged_def)
  then have t: "turns 5 (Some sampleConfig) (startLoop 5 True None []) l" by blast
  have i: "loopInv 5 l" by (rule turns_inv [OF t startLoop_inv])
  have f: "\<not> l_stopping l" "l_syncReady l" "l_eventC l"
    by (simp_all add: l_def onTimer_def startLoop_def logged_def)
  have m: "isMetadata (Some sampleConfig) ''.rcw-state''" by code_simp
  have "isMetadata (Some sampleConfig) (ch_path \<lparr>ch_path = ''.rcw-state'', ch_isDir = False, ch_removed = False\<rparr>)"
    using m by simp
  note stall = metadata_change_stalls [OF i f this, of "[\<lparr>ch_path = ''a'', ch_isDir = False, ch_removed = False\<rparr>]"]
  show ?thesis by (intro exI [of _ l] conjI t i f m stall)
qed

text \<open>
  C30. Without a wrapped command two signals are enough to give up: the second cancels the
  running commands, and no further attempt is ever started.
\<close>

theorem second_signal_abandons:
  assumes "\<not> l_command l" "\<not> l_abandoned l" "loopInv interval l"
    and "turns interval state (onSignal h (onSignal g l)) t"
  shows "l_abandoned (onSignal h (onSignal g l)) \<and> hd (l_log (onSignal h (onSignal g l))) = CancelRunner \<and>
     starts t \<le> starts l"
proof -
  have inv: "loopInv interval (onSignal h (onSignal g l))"
    using onInput_inv [OF assms(3), of "Signal g" state] onInput_inv [of interval "onSignal g l" "Signal h" state] by simp
  show ?thesis
    using two_signals [OF assms(1,2), of h g] stopping_starts [OF assms(4) inv] by (simp add: Let_def)
qed

theorem second_signal_abandons_witness:
  "\<not> l_command retryingLoop \<and> \<not> l_abandoned retryingLoop \<and> loopInv 5 retryingLoop \<and>
   turns 5 None (onSignal 15 (onSignal 2 retryingLoop)) (onSignal 15 (onSignal 2 retryingLoop)) \<and>
   l_abandoned (onSignal 15 (onSignal 2 retryingLoop))"
proof -
  have "loopInv 5 retryingLoop" by (simp add: retryingLoop_def startLoop_inv)
  moreover have "\<not> l_command retryingLoop" "\<not> l_abandoned retryingLoop"
    by (simp_all add: retryingLoop_def startLoop_def logged_def)
  moreover have "turns 5 None (onSignal 15 (onSignal 2 retryingLoop)) (onSignal 15 (onSignal 2 retryingLoop))" by simp
  ultimately show ?thesis using second_signal_abandons by blast
qed

section \<open>Taking the lock\<close>

text \<open>
  C23. An acquisition is let through only if the repository identities agree, an incomplete
  remote is not to be downloaded against the user's wish, and the local generation is not
  ahead of the remote one, unless by the one step of an interrupted announcement.
\<close>

theorem acquisition_validated:
  "wp (validateAcquisition E s local localExists remote)
     (\<lambda>r _. r \<noteq> None \<or> \<not> rejected s local localExists remote) w"
  by (rule wp_mono [OF validateAcquisition_rejects]) blast

theorem acquisition_validated_witness:
  "fst (run_state (validateAcquisition sampleEnv sampleConfig zeroData False (s_remote heldSession)) heldSession) = None \<and>
   \<not> rejected sampleConfig zeroData False (s_remote heldSession)"
proof -
  have "fst (run_state (validateAcquisition sampleEnv sampleConfig zeroData False (s_remote heldSession)) heldSession) = None"
    by (simp add: validateAcquisition_def heldSession_def sampleConfig_def Let_def State_Monad.bind_def State_Monad.return_def)
  with acquisition_validated [of sampleEnv sampleConfig zeroData False "s_remote heldSession" heldSession]
  show ?thesis by (simp add: wp_def case_prod_beta)
qed

section \<open>The watcher\<close>

text \<open>
  C25. Decoding a read of inotify events gives back each event as the kernel wrote it: they are
  handled one after the other, with their descriptor, mask and name, and without an error.
\<close>

theorem process_decodes:
  assumes "list_all wellFormed es"
  shows "process K (concat (map encodeEvent es)) = do { handleEvents K es; State_Monad.return True }"
  by (rule process_packet) (use assms in \<open>simp add: list_all_iff\<close>)

theorem process_decodes_witness:
  "list_all wellFormed raceEvents \<and>
   process raceKernel (concat (map encodeEvent raceEvents)) = do { handleEvents raceKernel raceEvents; State_Monad.return True }"
proof -
  have "list_all wellFormed raceEvents" by (simp add: raceEvents_def wellFormed_def)
  then show ?thesis using process_decodes by blast
qed

text \<open>
  C28. After \<open>Close\<close> the watcher handles every packet of events that was queued before and
  after the deadline, in order, and then closes its channels.
\<close>

theorem close_drains:
  assumes "list_all (list_all wellFormed) (ps @ qs)"
  shows "readLoop K False (map packetData ps @ DeadlineExceeded # map packetData qs @ [Again]) =
     do { handlePackets K (ps @ qs); finishReading }"
  by (rule readLoop_closed) (use assms in \<open>simp add: list_all_iff\<close>)

theorem close_drains_witness:
  "list_all (list_all wellFormed) ([raceEvents] @ [raceEvents]) \<and>
   readLoop raceKernel False (map packetData [raceEvents] @ DeadlineExceeded # map packetData [raceEvents] @ [Again]) =
     do { handlePackets raceKernel ([raceEvents] @ [raceEvents]); finishReading }"
proof -
  have "list_all (list_all wellFormed) ([raceEvents] @ [raceEvents])" by (simp add: raceEvents_def wellFormed_def)
  then show ?thesis using close_drains by blast
qed

text \<open>
  C27. Every change the watcher reports is a path that the scoped synchronisation accepts:
  clean, relative and inside the source folder.
\<close>

theorem watcher_reports_inside:
  assumes "cleanRoot root" "kernelInside K root" "pathsInv root w"
    and "list_all (list_all (\<lambda>e. ev_name e = [] \<or> relPath [ev_name e])) ps"
  shows "wp (handlePackets K ps) (\<lambda>_ t. list_all (\<lambda>c. validChange (ch_path c)) (x_events t)) w"
  by (rule wp_mono [OF handlePackets_paths [OF assms]]) (simp add: pathsInv_def list_all_iff)

theorem watcher_reports_inside_witness:
  "cleanRoot ''/s'' \<and> kernelInside raceKernel ''/s'' \<and> pathsInv ''/s'' raceState \<and>
   list_all (list_all (\<lambda>e. ev_name e = [] \<or> relPath [ev_name e])) [raceEvents] \<and>
   wp (handlePackets raceKernel [raceEvents]) (\<lambda>_ t. list_all (\<lambda>c. validChange (ch_path c)) (x_events t)) raceState"
  using watcher_reports_inside [OF race_inside] race_inside by blast




section \<open>The command line and the backend\<close>



text \<open>
  An accepted value of \<open>--lock-wait\<close> is infinite or a duration of 0 to 2^63 - 1 nanoseconds,
  and it is 0 only for the text 0.
\<close>

lemma lockWait_bounded:
  "case lockWaitSet argument of Inl _ \<Rightarrow> True
   | Inr w \<Rightarrow> wait_explicit w \<and> validWait w \<and> (wait_duration w = 0 \<and> \<not> wait_infinite w \<longleftrightarrow> argument = ''0'')"
  using lockWaitSet_valid [of argument] by (cases "lockWaitSet argument") auto


text \<open>C39. Conditional writes are used exactly with a release of rclone 1.73 or newer.\<close>

theorem release_accepted_iff:
  assumes "major < 2 ^ 63" "minor < 2 ^ 63"
  shows "checkVersion (''rclone v'' @ dec major @ ''.'' @ dec minor @ ''.'' @ dec patch @ newlineChar # tail) = None \<longleftrightarrow>
    1 < major \<or> (major = 1 \<and> 73 \<le> minor)"
  by (rule checkVersion_release [OF assms])

theorem release_accepted_iff_witness:
  "(1 :: nat) < 2 ^ 63 \<and> (73 :: nat) < 2 ^ 63 \<and>
   checkVersion (''rclone v'' @ dec 1 @ ''.'' @ dec 73 @ ''.'' @ dec 0 @ newlineChar # []) = None"
  using release_accepted_iff [of 1 73 0 "[]"] by simp

section \<open>Startup\<close>


section \<open>The terminal\<close>

text \<open>
  C34. A wrapped command's exit code does not depend on whether the program holds the terminal:
  after any stops and interrupted waits, the first report that ends the wait gives the code the
  background path computes for the same status. If the program did hold the terminal, it is
  never stopped by taking it back, the command was continued exactly once for every stop, and
  the command's group does not keep the terminal.
\<close>

theorem wrapped_exit_code:
  assumes "jobOk J \<lparr>tm_fd = fd, tm_pgrp = j_own J\<rparr> pid"
    and "\<not> t_stuck s" "t_waits s = 0" "conts pid s = 0"
    and "\<forall>i < m. passing J i" "j_status J m = Inr st" "\<not> wsStopped st" "m < n"
  shows "wp (runWrapped n J fd pid (waitError st)) (\<lambda>r v. r = Some (waitStatusExitCode st) \<and> \<not> t_stuck v \<and>
    (t_ttouIgnored v \<and> \<not> t_ttouIgnored s \<longrightarrow> t_foreground v \<noteq> pid \<and> conts pid v = stops J m)) s"
  by (rule runWrapped_wp [OF assms])

theorem wrapped_exit_code_witness:
  "wp (runWrapped 3 sampleJob 0 100 (waitError 0x300)) (\<lambda>r v. r = Some 3 \<and> \<not> t_stuck v \<and>
    (t_ttouIgnored v \<longrightarrow> t_foreground v \<noteq> 100 \<and> conts 100 v = 1)) sampleTty"
proof -
  have "waitStatusExitCode 0x300 = 3" "stops sampleJob 2 = 1" by code_simp+
  moreover have "wp (runWrapped 3 sampleJob 0 100 (waitError 0x300)) (\<lambda>r v. r = Some (waitStatusExitCode 0x300) \<and> \<not> t_stuck v \<and>
    (t_ttouIgnored v \<and> \<not> t_ttouIgnored sampleTty \<longrightarrow> t_foreground v \<noteq> 100 \<and> conts 100 v = stops sampleJob 2)) sampleTty"
    by (rule wrapped_exit_code)
      (auto simp: jobOk_def passing_def stopAt_def sampleJob_def sampleTty_def conts_def wsStopped_def less_2_cases_iff)
  ultimately show ?thesis by (simp add: sampleTty_def)
qed

end
